(* ===== verification/Prelude.thy ===== *)
theory Prelude
  imports Main "HOL-Library.Word"
begin

text \<open>
  Shared vocabulary of the development: the C integer types of include/std/stdint.h as
  machine words, the collections of simplification rules the component theories fill and
  use, and the arithmetic facts that relate 32-bit addresses to natural numbers.
\<close>

unbundle bit_operations_syntax

type_synonym u8 = "8 word"
type_synonym u16 = "16 word"
type_synonym u32 = "32 word"
type_synonym u64 = "64 word"
type_synonym addr = "32 word"

named_theorems mem_simps \<open>reading back what was stored, at the same or at another place\<close>
named_theorems frame \<open>what an operation leaves unchanged\<close>
named_theorems layout_defs \<open>offsets of the fields of the C structures\<close>

text \<open>The null pointer of include/std/stddef.h.\<close>

abbreviation NULL :: addr where "NULL \<equiv> 0"

text \<open>The bytes of a string literal.\<close>

definition ascii :: "string \<Rightarrow> u8 list" where
  "ascii = map (\<lambda>c. of_nat (of_char c))"

text \<open>A newline, as the format strings of the kernel end with it.\<close>

definition nl :: string where "nl = [CHR 0x0A]"

subsection \<open>Words and natural numbers\<close>

lemma unat_of_nat32 [simp]: "n < 4294967296 \<Longrightarrow> unat (of_nat n :: addr) = n"
  by (simp add: unat_of_nat)

lemma unat32_less: "unat (a :: addr) < 4294967296"
  using unsigned_less [of a, where ?'a = nat] by simp

lemma of_nat_eq_NULL_iff: "n < 4294967296 \<Longrightarrow> (of_nat n :: addr) = NULL \<longleftrightarrow> n = 0"
  using unat_of_nat32 [of n] by (auto simp del: unat_of_nat32)

lemma of_nat_inj32:
  "m < 4294967296 \<Longrightarrow> n < 4294967296 \<Longrightarrow> (of_nat m :: addr) = of_nat n \<longleftrightarrow> m = n"
  by (metis unat_of_nat32)

lemma unat_add_nowrap: "unat a + unat b < 4294967296 \<Longrightarrow> unat (a + b :: addr) = unat a + unat b"
  by (simp add: unat_word_ariths)

lemma unat_add_of_nat: "unat a + n < 4294967296 \<Longrightarrow> unat (a + of_nat n :: addr) = unat a + n"
  by (simp add: unat_add_nowrap)

lemma unat_diff_le: "b \<le> a \<Longrightarrow> unat (a - b :: addr) = unat a - unat b"
  by (simp add: unat_sub)

lemma word32_le_nat: "(a :: addr) \<le> b \<longleftrightarrow> unat a \<le> unat b"
  by (simp add: word_le_nat_alt)

lemma word32_less_nat: "(a :: addr) < b \<longleftrightarrow> unat a < unat b"
  by (simp add: word_less_nat_alt)

lemma addr_of_nat_le: "a < 4294967296 \<Longrightarrow> b < 4294967296 \<Longrightarrow> (of_nat a :: addr) \<le> of_nat b \<longleftrightarrow> a \<le> b"
  by (simp add: word32_le_nat)

lemma addr_of_nat_less: "a < 4294967296 \<Longrightarrow> b < 4294967296 \<Longrightarrow> (of_nat a :: addr) < of_nat b \<longleftrightarrow> a < b"
  by (simp add: word32_less_nat)

lemma of_nat_diff_addr: "b \<le> a \<Longrightarrow> (of_nat a - of_nat b :: addr) = of_nat (a - b)"
  by (simp add: of_nat_diff)

subsection \<open>Clearing low bits\<close>

text \<open>The C idiom \<open>x & ~(2^k - 1)\<close> rounds down to a multiple of \<open>2^k\<close>.\<close>

lemma and_not_mask_push_drop: "x AND NOT (mask k) = push_bit k (drop_bit k (x :: 'a :: len word))"
  by (rule bit_word_eqI) (auto simp: bit_simps)

lemma unat_and_not_mask: "unat (x AND NOT (mask k) :: u32) = unat x div 2 ^ k * 2 ^ k"
proof -
  have d: "unat (drop_bit k x) = unat x div 2 ^ k"
    using unat_drop_bit_eq [of k x] by (simp add: drop_bit_eq_div [of k "unat x"])
  have "unat x div 2 ^ k * 2 ^ k \<le> unat x"
    by (rule div_times_less_eq_dividend)
  then have "unat x div 2 ^ k * 2 ^ k < 4294967296"
    using unat32_less [of x] by (rule le_less_trans)
  then show ?thesis
    unfolding and_not_mask_push_drop unsigned_push_bit_eq d
    by (simp add: push_bit_eq_mult take_bit_eq_mod)
qed

end
