(* ===== verification/Memory.thy ===== *)
theory Memory
  imports Prelude
begin

text \<open>
  The physical memory of the machine: the kernel runs without paging
  (kernel/src/mm/mm_paging.c is an empty function), so a pointer is a physical address
  and memory is a function from 32-bit addresses to bytes. Words are stored little endian,
  as on i386.
\<close>

type_synonym mem = "addr \<Rightarrow> u8"

subsection \<open>Loads and stores\<close>

definition load16 :: "mem \<Rightarrow> addr \<Rightarrow> u16" where
  "load16 m a = ucast (m a) OR push_bit 8 (ucast (m (a + 1)))"

definition store16 :: "mem \<Rightarrow> addr \<Rightarrow> u16 \<Rightarrow> mem" where
  "store16 m a v = m(a := ucast v, a + 1 := ucast (drop_bit 8 v))"

definition load32 :: "mem \<Rightarrow> addr \<Rightarrow> u32" where
  "load32 m a = ucast (m a) OR push_bit 8 (ucast (m (a + 1)))
     OR push_bit 16 (ucast (m (a + 2))) OR push_bit 24 (ucast (m (a + 3)))"

definition store32 :: "mem \<Rightarrow> addr \<Rightarrow> u32 \<Rightarrow> mem" where
  "store32 m a v = m(a := ucast v, a + 1 := ucast (drop_bit 8 v),
     a + 2 := ucast (drop_bit 16 v), a + 3 := ucast (drop_bit 24 v))"

subsection \<open>Address ranges\<close>

text \<open>The addresses of \<open>n\<close> bytes from \<open>a\<close> on, wrapping at the end of memory.\<close>

definition span :: "addr \<Rightarrow> nat \<Rightarrow> addr set" where
  "span a n = (\<lambda>i. a + of_nat i) ` {..<n}"

lemma span_0 [simp]: "span a 0 = {}"
  by (simp add: span_def)

lemma span_Suc: "span a (Suc n) = insert a (span (a + 1) n)"
proof -
  have "{..<Suc n} = insert 0 (Suc ` {..<n})"
    by (simp add: lessThan_Suc_eq_insert_0)
  then show ?thesis
    by (simp add: span_def image_image algebra_simps)
qed

lemma in_span_nowrap:
  assumes "unat a + n \<le> 4294967296"
  shows "x \<in> span a n \<longleftrightarrow> unat a \<le> unat x \<and> unat x < unat a + n"
proof
  assume "x \<in> span a n"
  then obtain i where i: "i < n" "x = a + of_nat i"
    by (auto simp: span_def)
  with assms have "unat x = unat a + i"
    by (simp add: unat_add_of_nat)
  with i show "unat a \<le> unat x \<and> unat x < unat a + n" by simp
next
  assume r: "unat a \<le> unat x \<and> unat x < unat a + n"
  then have "x = a + of_nat (unat x - unat a)"
    by (simp add: of_nat_diff)
  with r show "x \<in> span a n"
    by (auto simp: span_def intro!: image_eqI [where x = "unat x - unat a"])
qed

lemma span_mono: "n \<le> k \<Longrightarrow> span a n \<subseteq> span a k"
  by (auto simp: span_def)

lemma span_split: "span a (n + k) = span a n \<union> span (a + of_nat n) k"
  by (induction n arbitrary: a) (auto simp: span_Suc add.assoc)

lemma self_in_span [simp]: "0 < n \<Longrightarrow> a \<in> span a n"
  by (auto simp: span_def intro!: image_eqI [where x = 0])


text \<open>
  Two ranges do not overlap when each starts far enough after the other, distances taken
  modulo the size of memory. The simplifier decides this for ranges given by constant
  offsets from a common base.
\<close>

lemma span_disjoint:
  assumes "n \<le> unat (b - a)" "k \<le> unat (a - b)"
  shows "span a n \<inter> span b k = {}"
proof (rule ccontr)
  assume "\<not> ?thesis"
  then obtain i j where ij: "i < n" "j < k" "a + of_nat i = b + of_nat j"
    by (auto simp: span_def)
  show False
  proof (cases "j \<le> i")
    case True
    with ij(3) have "b - a = of_nat (i - j)"
      by (simp add: of_nat_diff algebra_simps)
    moreover have "unat (of_nat (i - j) :: addr) \<le> i - j"
      by (simp add: unat_of_nat)
    ultimately show False
      using assms(1) ij(1) by simp
  next
    case False
    with ij(3) have "a - b = of_nat (j - i)"
      by (simp add: of_nat_diff algebra_simps)
    moreover have "unat (of_nat (j - i) :: addr) \<le> j - i"
      by (simp add: unat_of_nat)
    ultimately show False
      using assms(2) ij(2) by simp
  qed
qed

lemma span_disjoint_nowrap:
  assumes "unat a + n \<le> unat b" "unat b + k \<le> 4294967296"
  shows "span a n \<inter> span b k = {}"
  using assms by (auto simp: in_span_nowrap)

lemma span_disjoint_sub:
  "span a n \<inter> span b k = {} \<Longrightarrow> span c i \<subseteq> span a n \<Longrightarrow> span d j \<subseteq> span b k
   \<Longrightarrow> span c i \<inter> span d j = {}"
  by blast

lemma span_offset_subset:
  "unat d + i \<le> n \<Longrightarrow> span (a + d) i \<subseteq> span a n"
proof -
  assume le: "unat d + i \<le> n"
  then have "span (a + d) i \<subseteq> span (a + d) (n - unat d)"
    by (intro span_mono) simp
  moreover from le have "span a n = span a (unat d) \<union> span (a + d) (n - unat d)"
    using span_split [of a "unat d" "n - unat d"] by simp
  ultimately show ?thesis by blast
qed

subsection \<open>Reading back a store\<close>

lemma load32_span: "(\<And>x. x \<in> span a 4 \<Longrightarrow> m x = m' x) \<Longrightarrow> load32 m a = load32 m' a"
  by (simp add: load32_def span_Suc numeral_eq_Suc add.assoc)

lemma load16_span: "(\<And>x. x \<in> span a 2 \<Longrightarrow> m x = m' x) \<Longrightarrow> load16 m a = load16 m' a"
  by (simp add: load16_def span_Suc numeral_eq_Suc)

lemma store32_other [frame]: "x \<notin> span a 4 \<Longrightarrow> store32 m a v x = m x"
  by (simp add: store32_def span_Suc numeral_eq_Suc add.assoc)

lemma store16_other [frame]: "x \<notin> span a 2 \<Longrightarrow> store16 m a v x = m x"
  by (simp add: store16_def span_Suc numeral_eq_Suc)

lemma load32_store32 [simp, mem_simps]: "load32 (store32 m a v) a = v"
proof (rule bit_word_eqI)
  fix n
  assume "n < LENGTH(32)"
  then consider "n < 8" | "8 \<le> n" "n < 16" | "16 \<le> n" "n < 24" | "24 \<le> n" "n < 32"
    by fastforce
  then show "bit (load32 (store32 m a v) a) n \<longleftrightarrow> bit v n"
    by cases (auto simp: load32_def store32_def bit_simps)
qed

lemma load16_store16 [simp, mem_simps]: "load16 (store16 m a v) a = v"
  unfolding load16_def store16_def by (rule bit_word_eqI) (auto simp: bit_simps)

lemma load32_store32_disjoint:
  "span a 4 \<inter> span b 4 = {} \<Longrightarrow> load32 (store32 m a v) b = load32 m b"
  by (rule load32_span) (auto intro: store32_other)

lemma load32_upd_disjoint: "a \<notin> span b 4 \<Longrightarrow> load32 (m(a := v)) b = load32 m b"
  by (rule load32_span) auto

lemma load32_store32_apart [mem_simps]:
  "4 \<le> unat (b - a) \<Longrightarrow> 4 \<le> unat (a - b) \<Longrightarrow> load32 (store32 m a v) b = load32 m b"
  by (intro load32_store32_disjoint span_disjoint)

lemma load32_upd_apart [mem_simps]:
  "1 \<le> unat (b - a) \<Longrightarrow> 4 \<le> unat (a - b) \<Longrightarrow> load32 (m(a := v)) b = load32 m b"
  using span_disjoint [of 1 b a 4] by (intro load32_upd_disjoint) (auto simp: span_Suc)

lemma store32_apart [mem_simps]: "4 \<le> unat (b - a) \<Longrightarrow> 1 \<le> unat (a - b) \<Longrightarrow> store32 m a v b = m b"
  using span_disjoint [of 4 b a 1] by (intro store32_other) (auto simp: span_Suc)

lemma load16_store16_apart [mem_simps]:
  "2 \<le> unat (b - a) \<Longrightarrow> 2 \<le> unat (a - b) \<Longrightarrow> load16 (store16 m a v) b = load16 m b"
  using span_disjoint [of 2 b a 2] by (intro load16_span store16_other) auto

subsection \<open>Runs of bytes\<close>

text \<open>The bytes a C buffer holds, and the memory after a buffer was filled with bytes.\<close>

definition bytes_at :: "mem \<Rightarrow> addr \<Rightarrow> nat \<Rightarrow> u8 list" where
  "bytes_at m a n = map (\<lambda>i. m (a + of_nat i)) [0..<n]"

fun write_bytes :: "mem \<Rightarrow> addr \<Rightarrow> u8 list \<Rightarrow> mem" where
  "write_bytes m a [] = m"
| "write_bytes m a (b # bs) = write_bytes (m(a := b)) (a + 1) bs"

lemma length_bytes_at [simp]: "length (bytes_at m a n) = n"
  by (simp add: bytes_at_def)

lemma bytes_at_0 [simp]: "bytes_at m a 0 = []"
  by (simp add: bytes_at_def)

lemma bytes_at_Suc: "bytes_at m a (Suc n) = m a # bytes_at m (a + 1) n"
  by (simp add: bytes_at_def upt_conv_Cons map_Suc_upt [symmetric] algebra_simps del: upt_Suc)

lemma bytes_at_span: "(\<And>x. x \<in> span a n \<Longrightarrow> m x = m' x) \<Longrightarrow> bytes_at m a n = bytes_at m' a n"
  by (auto simp: bytes_at_def span_def)

lemma bytes_at_upd [mem_simps]: "a \<notin> span b n \<Longrightarrow> bytes_at (m(a := v)) b n = bytes_at m b n"
  by (rule bytes_at_span) auto

lemma nth_bytes_at: "i < n \<Longrightarrow> bytes_at m a n ! i = m (a + of_nat i)"
  by (simp add: bytes_at_def)

lemma take_bytes_at: "k \<le> n \<Longrightarrow> take k (bytes_at m a n) = bytes_at m a k"
  by (simp add: bytes_at_def take_map)

lemma write_bytes_other [frame]: "x \<notin> span a (length bs) \<Longrightarrow> write_bytes m a bs x = m x"
  by (induction bs arbitrary: m a) (auto simp: span_Suc)

lemma fresh_in_span: "n < 4294967296 \<Longrightarrow> a \<notin> span (a + 1) n"
proof
  assume n: "n < 4294967296" and "a \<in> span (a + 1) n"
  then obtain i where i: "i < n" "a = a + 1 + of_nat i"
    by (auto simp: span_def)
  then have "(of_nat (Suc i) :: addr) = 0"
    by (simp add: algebra_simps)
  with i n show False
    using of_nat_eq_NULL_iff [of "Suc i"] by simp
qed

lemma bytes_at_write_bytes [mem_simps]:
  "length bs \<le> 4294967296 \<Longrightarrow> bytes_at (write_bytes m a bs) a (length bs) = bs"
proof (induction bs arbitrary: m a)
  case Nil
  show ?case by simp
next
  case (Cons b bs)
  then have "a \<notin> span (a + 1) (length bs)"
    by (intro fresh_in_span) simp
  with Cons show ?case
    by (simp add: bytes_at_Suc write_bytes_other)
qed

end
