(* ===== verification/Cstring.thy ===== *)
theory Cstring
  imports Memory
begin

text \<open>
  kernel/src/string.c, and the two functions of the C library that the kernel calls but
  string.c does not define (\<open>strcmp\<close> and \<open>strncpy\<close>, with the behaviour of the C
  standard). The pointer that \<open>memcpy\<close>, \<open>memset\<close> and \<open>strcpy\<close> return, their first argument, is left out:
  no caller uses it. A loop that stops only at a NUL byte is a partial function: it returns
  \<open>None\<close> when it would run forever.
\<close>

subsection \<open>memcpy and memset\<close>

fun memcpy_loop :: "mem \<Rightarrow> addr \<Rightarrow> addr \<Rightarrow> nat \<Rightarrow> mem" where
  "memcpy_loop m d s 0 = m"
| "memcpy_loop m d s (Suc n) = memcpy_loop (m(d := m s)) (d + 1) (s + 1) n"

definition memcpy :: "mem \<Rightarrow> addr \<Rightarrow> addr \<Rightarrow> u32 \<Rightarrow> mem" where
  "memcpy m dest src n = memcpy_loop m dest src (unat n)"

fun memset_loop :: "mem \<Rightarrow> addr \<Rightarrow> u8 \<Rightarrow> nat \<Rightarrow> mem" where
  "memset_loop m p c 0 = m"
| "memset_loop m p c (Suc n) = memset_loop (m(p := c)) (p + 1) c n"

definition memset :: "mem \<Rightarrow> addr \<Rightarrow> u32 \<Rightarrow> u32 \<Rightarrow> mem" where
  "memset m s c n = memset_loop m s (ucast c) (unat n)"

subsection \<open>Strings\<close>

partial_function (option) strlen_loop :: "mem \<Rightarrow> addr \<Rightarrow> u32 \<Rightarrow> u32 option" where
  "strlen_loop m s len = (if m s = 0 then Some len else strlen_loop m (s + 1) (len + 1))"

definition strlen :: "mem \<Rightarrow> addr \<Rightarrow> u32 option" where
  "strlen m s = strlen_loop m s 0"

partial_function (option) strcpy :: "mem \<Rightarrow> addr \<Rightarrow> addr \<Rightarrow> mem option" where
  "strcpy m d src =
     (if m src \<noteq> 0 then strcpy (m(d := m src)) (d + 1) (src + 1) else Some (m(d := 0)))"

text \<open>The sign of the difference of the first bytes that differ; the kernel only tests it for 0.\<close>

partial_function (option) strcmp :: "mem \<Rightarrow> addr \<Rightarrow> addr \<Rightarrow> int option" where
  "strcmp m a b =
     (if m a \<noteq> m b \<or> m a = 0 then Some (sgn (uint (m a) - uint (m b)))
      else strcmp m (a + 1) (b + 1))"

fun strncpy_loop :: "mem \<Rightarrow> addr \<Rightarrow> addr \<Rightarrow> nat \<Rightarrow> mem" where
  "strncpy_loop m d s 0 = m"
| "strncpy_loop m d s (Suc n) =
     (if m s = 0 then memset_loop m d 0 (Suc n)
      else strncpy_loop (m(d := m s)) (d + 1) (s + 1) n)"

definition strncpy :: "mem \<Rightarrow> addr \<Rightarrow> addr \<Rightarrow> u32 \<Rightarrow> mem" where
  "strncpy m dest src n = strncpy_loop m dest src (unat n)"

text \<open>\<open>cs\<close> is the C string at \<open>a\<close>: its bytes, none of them 0, and then the 0 byte.\<close>

fun cstr_at :: "mem \<Rightarrow> addr \<Rightarrow> u8 list \<Rightarrow> bool" where
  "cstr_at m a [] \<longleftrightarrow> m a = 0"
| "cstr_at m a (c # cs) \<longleftrightarrow> c \<noteq> 0 \<and> m a = c \<and> cstr_at m (a + 1) cs"

lemma cstr_at_span:
  "(\<And>x. x \<in> span a (Suc (length cs)) \<Longrightarrow> m x = m' x) \<Longrightarrow> cstr_at m a cs \<longleftrightarrow> cstr_at m' a cs"
proof (induction cs arbitrary: a)
  case Nil
  then show ?case by (simp add: span_Suc)
next
  case (Cons c cs)
  have "m x = m' x" if "x \<in> span (a + 1) (Suc (length cs))" for x
    using Cons.prems that by (simp add: span_Suc [of a])
  moreover have "m a = m' a"
    using Cons.prems by (simp add: span_Suc)
  ultimately show ?case
    using Cons.IH by simp
qed

lemma cstr_at_upd [mem_simps]: "d \<notin> span a (Suc (length cs)) \<Longrightarrow> cstr_at (m(d := v)) a cs \<longleftrightarrow> cstr_at m a cs"
  by (rule cstr_at_span) auto

subsection \<open>memcpy and memset meet their contracts\<close>

lemma memcpy_loop_other: "x \<notin> span d n \<Longrightarrow> memcpy_loop m d s n x = m x"
  by (induction n arbitrary: m d s) (auto simp: span_Suc)

lemma memcpy_other [frame]: "x \<notin> span d (unat n) \<Longrightarrow> memcpy m d s n x = m x"
  by (simp add: memcpy_def memcpy_loop_other)

lemma memset_loop_other: "x \<notin> span d n \<Longrightarrow> memset_loop m d c n x = m x"
  by (induction n arbitrary: m d) (auto simp: span_Suc)

lemma memset_other [frame]: "x \<notin> span d (unat n) \<Longrightarrow> memset m d c n x = m x"
  by (simp add: memset_def memset_loop_other)

lemma memcpy_loop_bytes:
  "span d n \<inter> span s n = {} \<Longrightarrow> memcpy_loop m d s n = write_bytes m d (bytes_at m s n)"
proof (induction n arbitrary: m d s)
  case 0
  show ?case by simp
next
  case (Suc n)
  from Suc.prems have disj: "span (d + 1) n \<inter> span (s + 1) n = {}" "d \<notin> span (s + 1) n"
    by (auto simp: span_Suc)
  have "memcpy_loop (m(d := m s)) (d + 1) (s + 1) n
      = write_bytes (m(d := m s)) (d + 1) (bytes_at (m(d := m s)) (s + 1) n)"
    using disj(1) by (rule Suc.IH)
  with disj(2) show ?case
    by (simp add: bytes_at_Suc bytes_at_upd)
qed

lemma memcpy_bytes:
  "span d (unat n) \<inter> span s (unat n) = {} \<Longrightarrow> memcpy m d s n = write_bytes m d (bytes_at m s (unat n))"
  by (simp add: memcpy_def memcpy_loop_bytes)

lemma bytes_at_memcpy [mem_simps]:
  assumes "span d (unat n) \<inter> span s (unat n) = {}"
  shows "bytes_at (memcpy m d s n) d (unat n) = bytes_at m s (unat n)"
  using bytes_at_write_bytes [of "bytes_at m s (unat n)" m d] assms unat32_less [of n]
  by (simp add: memcpy_bytes)

lemma memset_loop_bytes: "memset_loop m d c n = write_bytes m d (replicate n c)"
  by (induction n arbitrary: m d) auto

lemma bytes_at_memset [mem_simps]:
  "bytes_at (memset m d c n) d (unat n) = replicate (unat n) (ucast c)"
  using bytes_at_write_bytes [of "replicate (unat n) (ucast c)" m d] unat32_less [of n]
  by (simp add: memset_def memset_loop_bytes)

subsection \<open>The string functions meet their contracts\<close>

lemma cstr_at_unique: "cstr_at m a cs \<Longrightarrow> cstr_at m a ds \<Longrightarrow> cs = ds"
proof (induction cs arbitrary: a ds)
  case Nil
  then show ?case by (cases ds) auto
next
  case (Cons c cs)
  then show ?case by (cases ds) auto
qed

lemma cstr_at_bytes: "cstr_at m a cs \<Longrightarrow> bytes_at m a (length cs) = cs"
  by (induction cs arbitrary: a) (auto simp: bytes_at_Suc)

lemma strlen_loop_cstr: "cstr_at m a cs \<Longrightarrow> strlen_loop m a k = Some (k + of_nat (length cs))"
proof (induction cs arbitrary: a k)
  case Nil
  then show ?case by (subst strlen_loop.simps) simp
next
  case (Cons c cs)
  then show ?case
    by (subst strlen_loop.simps) (auto simp: algebra_simps)
qed

lemma strlen_cstr: "cstr_at m a cs \<Longrightarrow> strlen m a = Some (of_nat (length cs))"
  by (simp add: strlen_def strlen_loop_cstr)

lemma strcmp_refl: "cstr_at m a cs \<Longrightarrow> cstr_at m b cs \<Longrightarrow> strcmp m a b = Some 0"
proof (induction cs arbitrary: a b)
  case Nil
  then show ?case by (subst strcmp.simps) simp
next
  case (Cons c cs)
  then show ?case by (subst strcmp.simps) simp
qed

text \<open>On two C strings \<open>strcmp\<close> returns, and returns 0 exactly on equal strings.\<close>

lemma strcmp_cstr:
  "cstr_at m a cs \<Longrightarrow> cstr_at m b ds \<Longrightarrow> \<exists>r. strcmp m a b = Some r \<and> (r = 0 \<longleftrightarrow> cs = ds)"
proof (induction cs arbitrary: a b ds)
  case Nil
  then show ?case
    by (cases ds) (auto simp: strcmp.simps [of m a b] sgn_0_0)
next
  case (Cons c cs)
  show ?case
  proof (cases "m b = c")
    case True
    with Cons.prems obtain ds' where ds: "ds = c # ds'" "cstr_at m (b + 1) ds'"
      by (cases ds) auto
    with Cons.IH [of "a + 1" "b + 1" ds'] Cons.prems True show ?thesis
      by (auto simp: strcmp.simps [of m a b])
  next
    case False
    with Cons.prems have "ds \<noteq> c # cs"
      by auto
    with Cons.prems False show ?thesis
      by (auto simp: strcmp.simps [of m a b] sgn_0_0 word_uint_eq_iff)
  qed
qed

lemma strcpy_cstr:
  assumes "cstr_at m s cs" "span d (Suc (length cs)) \<inter> span s (Suc (length cs)) = {}"
  shows "strcpy m d s = Some (write_bytes m d (cs @ [0]))"
  using assms
proof (induction cs arbitrary: m d s)
  case Nil
  then show ?case by (subst strcpy.simps) simp
next
  case (Cons c cs)
  let ?m = "m(d := c)"
  have "d \<notin> span (s + 1) (Suc (length cs))"
    using Cons.prems(2) by (auto simp: span_Suc [of d] span_Suc [of s])
  then have "cstr_at ?m (s + 1) cs"
    using Cons.prems(1) by (simp add: cstr_at_upd)
  moreover have "span (d + 1) (Suc (length cs)) \<inter> span (s + 1) (Suc (length cs)) = {}"
    using Cons.prems(2) by (auto simp: span_Suc [of d] span_Suc [of s])
  ultimately have "strcpy ?m (d + 1) (s + 1) = Some (write_bytes ?m (d + 1) (cs @ [0]))"
    by (rule Cons.IH)
  with Cons.prems(1) show ?case
    by (subst strcpy.simps) simp
qed

lemma cstr_at_write_bytes:
  "0 \<notin> set cs \<Longrightarrow> length cs < 4294967296 \<Longrightarrow> cstr_at (write_bytes m d (cs @ [0])) d cs"
proof (induction cs arbitrary: m d)
  case Nil
  show ?case by simp
next
  case (Cons c cs)
  from Cons.prems have "d \<notin> span (d + 1) (length (cs @ [0]))"
    by (intro fresh_in_span) simp
  with Cons show ?case
    by (auto simp: write_bytes_other simp del: length_append)
qed

lemma cstr_at_nonzero: "cstr_at m a cs \<Longrightarrow> 0 \<notin> set cs"
  by (induction cs arbitrary: a) auto

lemma strncpy_loop_other [frame]: "x \<notin> span d n \<Longrightarrow> strncpy_loop m d s n x = m x"
  by (induction n arbitrary: m d s) (auto simp: span_Suc memset_loop_other)

text \<open>\<open>strncpy\<close> copies at most \<open>n\<close> characters and fills the rest of the \<open>n\<close> bytes with 0.\<close>

lemma strncpy_loop_bytes:
  assumes "cstr_at m s cs" "span d n \<inter> span s (Suc (length cs)) = {}"
  shows "strncpy_loop m d s n = write_bytes m d (take n cs @ replicate (n - length cs) 0)"
  using assms
proof (induction n arbitrary: m d s cs)
  case 0
  show ?case by simp
next
  case (Suc n)
  show ?case
  proof (cases cs)
    case Nil
    with Suc.prems show ?thesis
      by (simp add: memset_loop_bytes)
  next
    case (Cons c ds)
    let ?m = "m(d := c)"
    have "d \<notin> span (s + 1) (Suc (length ds))"
      using Suc.prems(2) by (auto simp: Cons span_Suc [of d] span_Suc [of s])
    then have "cstr_at ?m (s + 1) ds"
      using Suc.prems(1) by (simp add: Cons cstr_at_upd)
    moreover have "span (d + 1) n \<inter> span (s + 1) (Suc (length ds)) = {}"
      using Suc.prems(2) by (auto simp: Cons span_Suc [of d] span_Suc [of s])
    ultimately have "strncpy_loop ?m (d + 1) (s + 1) n
        = write_bytes ?m (d + 1) (take n ds @ replicate (n - length ds) 0)"
      by (rule Suc.IH)
    with Suc.prems(1) show ?thesis
      by (simp add: Cons)
  qed
qed

lemma strncpy_bytes:
  assumes "cstr_at m s cs" "span d (unat n) \<inter> span s (Suc (length cs)) = {}"
  shows "strncpy m d s n = write_bytes m d (take (unat n) cs @ replicate (unat n - length cs) 0)"
  using assms by (simp add: strncpy_def strncpy_loop_bytes)

end
