(* ===== verification/Machine.thy ===== *)
theory Machine
  imports Cstring "HOL-Library.Monad_Syntax"
begin

text \<open>
  What every component of the kernel can touch: the physical memory, the kernel log and the
  ports of the devices.
  The kernel's \<open>printk\<close> (kernel/src/printk.c) ignores its arguments after the format and
  hands the format string to \<open>serial_puts\<close>; the log is the list of those strings, in
  order. This \<open>printk\<close> is an abstraction: the accesses to the serial port, and the wait for it that
  may never end, are left out of the operations that print with it. Console.thy has \<open>printk\<close> byte by
  byte on the port (\<open>printk_serial\<close>, \<open>kprint\<close>) and proves when it returns, and Boot.thy uses that
  for the start of the kernel.
  Port accesses are recorded in order; what a device answers to a read is a function of that
  history, a parameter \<open>dev\<close> of the operations that read ports (Console.thy).
  The static variables of a component that no pointer reaches are fields of that
  component's record, which extends this one.
\<close>

datatype io_event = Inb u16 u8 | Outb u16 u8 | Inw u16 u16 | Outw u16 u16 | Cli | Sti

record machine =
  mem :: mem
  klog :: "string list"
  io :: "io_event list"

definition printk :: "string \<Rightarrow> 'a machine_scheme \<Rightarrow> 'a machine_scheme" where
  "printk format s = s\<lparr>klog := klog s @ [format]\<rparr>"

lemma printk_simps [simp]:
  "mem (printk f s) = mem s"
  "klog (printk f s) = klog s @ [f]"
  "io (printk f s) = io s"
  "machine.more (printk f s) = machine.more s"
  by (simp_all add: printk_def)

end
