(* ===== verification/Mm.thy ===== *)
theory Mm
  imports Machine
begin

text \<open>
  kernel/src/mm/mm.c: the kernel heap, one singly linked list of blocks, each with a
  16-byte header in front of its payload. The headers live in memory, as in the code; the
  static variables of the file are the fields of the record below. A walk over the list is a
  partial function, because a corrupted list may be cyclic.
\<close>

subsection \<open>State\<close>

record memory_stats_t =
  total_memory :: u32
  heap_size :: u32
  allocated :: u32
  alloc_count :: u32
  free_count :: u32

record mm_state = machine +
  heap_start :: addr
  heap_end :: addr
  first_block :: addr
  mm_stats :: memory_stats_t

definition HEAP_SIZE :: u32 where "HEAP_SIZE = 2 * 1024 * 1024"
definition MIN_BLOCK_SIZE :: u32 where "MIN_BLOCK_SIZE = 16"
definition BLOCK_MAGIC :: u32 where "BLOCK_MAGIC = 0xDEADBEEF"
definition MULTIBOOT_INFO_MEMORY :: u32 where "MULTIBOOT_INFO_MEMORY = 1"

definition ALIGN :: "u32 \<Rightarrow> u32" where
  "ALIGN sz = (sz + 7) AND NOT 7"

text \<open>
  struct mem_block: size at offset 0, next at 4, free (one byte) at 8, magic at 12, and
  16 bytes in all.
\<close>

definition sizeof_mem_block :: u32 where "sizeof_mem_block = 16"

definition blk_size :: "mem \<Rightarrow> addr \<Rightarrow> u32" where "blk_size m b = load32 m b"
definition blk_next :: "mem \<Rightarrow> addr \<Rightarrow> addr" where "blk_next m b = load32 m (b + 4)"
definition blk_free :: "mem \<Rightarrow> addr \<Rightarrow> bool" where "blk_free m b \<longleftrightarrow> m (b + 8) \<noteq> 0"
definition blk_magic :: "mem \<Rightarrow> addr \<Rightarrow> u32" where "blk_magic m b = load32 m (b + 12)"

definition set_blk_size :: "mem \<Rightarrow> addr \<Rightarrow> u32 \<Rightarrow> mem" where
  "set_blk_size m b v = store32 m b v"
definition set_blk_next :: "mem \<Rightarrow> addr \<Rightarrow> addr \<Rightarrow> mem" where
  "set_blk_next m b v = store32 m (b + 4) v"
definition set_blk_free :: "mem \<Rightarrow> addr \<Rightarrow> bool \<Rightarrow> mem" where
  "set_blk_free m b v = m(b + 8 := (if v then 1 else 0))"
definition set_blk_magic :: "mem \<Rightarrow> addr \<Rightarrow> u32 \<Rightarrow> mem" where
  "set_blk_magic m b v = store32 m (b + 12) v"

lemmas blk_defs [layout_defs] = blk_size_def blk_next_def blk_free_def blk_magic_def
  set_blk_size_def set_blk_next_def set_blk_free_def set_blk_magic_def

subsection \<open>Initialisation\<close>

definition mb_flags :: "mem \<Rightarrow> addr \<Rightarrow> u32" where "mb_flags m i = load32 m i"
definition mb_mem_lower :: "mem \<Rightarrow> addr \<Rightarrow> u32" where "mb_mem_lower m i = load32 m (i + 4)"
definition mb_mem_upper :: "mem \<Rightarrow> addr \<Rightarrow> u32" where "mb_mem_upper m i = load32 m (i + 8)"

definition available_memory :: "mem \<Rightarrow> addr \<Rightarrow> u32" where
  "available_memory m mb_info =
     (if mb_flags m mb_info AND MULTIBOOT_INFO_MEMORY \<noteq> 0
      then (mb_mem_lower m mb_info + mb_mem_upper m mb_info) * 1024
      else 64 * 1024 * 1024)"

definition heap_base :: "addr \<Rightarrow> addr" where
  "heap_base kernel_end = (kernel_end + 4095) AND NOT 4095"

definition init_heap :: "addr \<Rightarrow> addr \<Rightarrow> 'a mm_state_scheme \<Rightarrow> 'a mm_state_scheme" where
  "init_heap kernel_end mb_info s =
     (let available = available_memory (mem s) mb_info;
          s = (if mb_flags (mem s) mb_info AND MULTIBOOT_INFO_MEMORY \<noteq> 0
               then printk (''Available memory: %u KB'' @ nl) s
               else printk (''No memory info available, assuming %u MB'' @ nl) s);
          start = heap_base kernel_end;
          max_heap_size = available - start;
          actual_heap_size = (if HEAP_SIZE > max_heap_size then max_heap_size else HEAP_SIZE);
          s = (if HEAP_SIZE > max_heap_size
               then printk (''Reducing heap size to %u KB due to memory constraints'' @ nl) s
               else s);
          m = mem s;
          m = set_blk_size m start (actual_heap_size - sizeof_mem_block);
          m = set_blk_next m start NULL;
          m = set_blk_free m start True;
          m = set_blk_magic m start BLOCK_MAGIC
      in printk (''Heap: 0x%x - 0x%x (%u KB)'' @ nl)
           (s\<lparr>mem := m, heap_start := start, heap_end := start + actual_heap_size,
              first_block := start,
              mm_stats := \<lparr>total_memory = available, heap_size = actual_heap_size,
                           allocated = 0, alloc_count = 0, free_count = 0\<rparr>\<rparr>))"

definition mm_init :: "addr \<Rightarrow> addr \<Rightarrow> 'a mm_state_scheme \<Rightarrow> 'a mm_state_scheme" where
  "mm_init kernel_end mb_info s =
     init_heap kernel_end mb_info (printk (''Initializing memory manager'' @ nl) s)"

subsection \<open>kmalloc\<close>

partial_function (option) kmalloc_scan :: "mem \<Rightarrow> u32 \<Rightarrow> addr \<Rightarrow> addr \<Rightarrow> addr option" where
  "kmalloc_scan m sz current best_fit =
     (if current = NULL then Some best_fit
      else kmalloc_scan m sz (blk_next m current)
        (if blk_free m current \<and> blk_size m current \<ge> sz
            \<and> (best_fit = NULL \<or> blk_size m current < blk_size m best_fit)
         then current else best_fit))"

definition kmalloc_split :: "mem \<Rightarrow> addr \<Rightarrow> u32 \<Rightarrow> mem" where
  "kmalloc_split m best_fit sz =
     (let remaining = blk_size m best_fit - sz in
      if remaining \<ge> sizeof_mem_block + MIN_BLOCK_SIZE
      then let new_block = best_fit + sizeof_mem_block + sz;
               m = set_blk_size m new_block (remaining - sizeof_mem_block);
               m = set_blk_free m new_block True;
               m = set_blk_next m new_block (blk_next m best_fit);
               m = set_blk_magic m new_block BLOCK_MAGIC;
               m = set_blk_next m best_fit new_block
           in set_blk_size m best_fit sz
      else m)"

definition kmalloc :: "u32 \<Rightarrow> 'a mm_state_scheme \<Rightarrow> (addr \<times> 'a mm_state_scheme) option" where
  "kmalloc sz s =
     (if sz = 0 then Some (NULL, s)
      else if heap_start s = NULL then Some (NULL, s)
      else do {
        let sz = ALIGN sz;
        best_fit \<leftarrow> kmalloc_scan (mem s) sz (first_block s) NULL;
        if best_fit = NULL
        then Some (NULL, printk (''kmalloc(%zu) failed! Out of memory'' @ nl) s)
        else let m = set_blk_free (kmalloc_split (mem s) best_fit sz) best_fit False;
                 st = mm_stats s;
                 st = st\<lparr>allocated := allocated st + (blk_size m best_fit + sizeof_mem_block),
                         alloc_count := alloc_count st + 1\<rparr>
             in Some (best_fit + sizeof_mem_block, s\<lparr>mem := m, mm_stats := st\<rparr>)
      })"

subsection \<open>kfree\<close>

definition is_valid_pointer :: "addr \<Rightarrow> 'a mm_state_scheme \<Rightarrow> bool" where
  "is_valid_pointer ptr s =
     (if ptr = NULL \<or> ptr < heap_start s \<or> ptr \<ge> heap_end s then False
      else blk_magic (mem s) (ptr - sizeof_mem_block) = BLOCK_MAGIC)"

partial_function (option) kfree_coalesce :: "mem \<Rightarrow> addr \<Rightarrow> mem option" where
  "kfree_coalesce m current =
     (if current = NULL then Some m
      else if blk_free m current \<and> blk_next m current \<noteq> NULL \<and> blk_free m (blk_next m current)
      then let m1 = set_blk_size m current
                 (blk_size m current + (sizeof_mem_block + blk_size m (blk_next m current)));
               m2 = set_blk_next m1 current (blk_next m1 (blk_next m1 current))
           in kfree_coalesce m2 (blk_next m2 current)
      else kfree_coalesce m (blk_next m current))"

definition kfree :: "addr \<Rightarrow> 'a mm_state_scheme \<Rightarrow> 'a mm_state_scheme option" where
  "kfree ptr s =
     (if ptr = NULL then Some s
      else if \<not> is_valid_pointer ptr s
      then Some (printk (''kfree: invalid pointer 0x%x'' @ nl) s)
      else do {
        let block = ptr - sizeof_mem_block;
        let m = set_blk_free (mem s) block True;
        let st = mm_stats s;
        let st = st\<lparr>allocated := allocated st - (blk_size m block + sizeof_mem_block),
                     free_count := free_count st + 1\<rparr>;
        m \<leftarrow> kfree_coalesce m (first_block s);
        Some (s\<lparr>mem := m, mm_stats := st\<rparr>)
      })"

subsection \<open>Reports\<close>

definition mm_print_stats :: "'a mm_state_scheme \<Rightarrow> 'a mm_state_scheme" where
  "mm_print_stats s =
     printk (''  Allocations: %u, Frees: %u'' @ nl)
       (printk (''  Total: %u KB, Heap: %u KB, Free: %u KB'' @ nl)
         (printk (''Memory stats:'' @ nl) s))"

partial_function (option) mm_dump_loop ::
  "addr \<Rightarrow> 'a mm_state_scheme \<Rightarrow> 'a mm_state_scheme option" where
  "mm_dump_loop current s =
     (if current = NULL then Some s
      else mm_dump_loop (blk_next (mem s) current)
             (printk (''  #%d: 0x%x size=%zu %s'' @ nl) s))"

definition mm_dump_blocks :: "'a mm_state_scheme \<Rightarrow> 'a mm_state_scheme option" where
  "mm_dump_blocks s = mm_dump_loop (first_block s) (printk (''Memory blocks:'' @ nl) s)"

definition memory_module_init :: "'a mm_state_scheme \<Rightarrow> int \<times> 'a mm_state_scheme" where
  "memory_module_init s =
     (0, printk (''Memory initialization is now handled by mm_init() in kernel_main'' @ nl)
           (printk (''WARNING: memory_module_init() is deprecated and should not be called'' @ nl) s))"

lemma mm_printk [simp]:
  "heap_start (printk f s) = heap_start s" "heap_end (printk f s) = heap_end s"
  "first_block (printk f s) = first_block s" "mm_stats (printk f s) = mm_stats s"
  "mm_state.more (printk f s) = mm_state.more s"
  by (simp_all add: printk_def)

subsection \<open>Reading and writing one header\<close>

lemma blk_same [simp]:
  "blk_size (set_blk_size m b v) b = v"
  "blk_size (set_blk_next m b v) b = blk_size m b"
  "blk_size (set_blk_free m b f) b = blk_size m b"
  "blk_size (set_blk_magic m b v) b = blk_size m b"
  "blk_next (set_blk_size m b v) b = blk_next m b"
  "blk_next (set_blk_next m b v) b = v"
  "blk_next (set_blk_free m b f) b = blk_next m b"
  "blk_next (set_blk_magic m b v) b = blk_next m b"
  "blk_free (set_blk_size m b v) b = blk_free m b"
  "blk_free (set_blk_next m b v) b = blk_free m b"
  "blk_free (set_blk_free m b f) b = f"
  "blk_free (set_blk_magic m b v) b = blk_free m b"
  "blk_magic (set_blk_size m b v) b = blk_magic m b"
  "blk_magic (set_blk_next m b v) b = blk_magic m b"
  "blk_magic (set_blk_free m b f) b = blk_magic m b"
  "blk_magic (set_blk_magic m b v) b = v"
  by (simp_all add: blk_defs mem_simps)

end
