(* ===== verification/Mm_Blocks.thy ===== *)
theory Mm_Blocks
  imports Mm
begin

text \<open>
  The abstract heap: the list of blocks, each with the size of its payload and whether it is
  free. The relation \<open>chain\<close> says that the headers in memory are such a list; the loops of
  mm.c refine functions on the list. Addresses of blocks are natural numbers here, because
  the blocks of a heap follow each other without wrapping around.
\<close>

datatype blk = Blk (bsize: nat) (bfree: bool)

subsection \<open>The list of blocks and where its blocks lie\<close>

text \<open>Bytes a list of blocks takes, headers included.\<close>

fun total :: "blk list \<Rightarrow> nat" where
  "total [] = 0"
| "total (b # bs) = 16 + bsize b + total bs"

definition hdr_at :: "mem \<Rightarrow> nat \<Rightarrow> blk \<Rightarrow> addr \<Rightarrow> bool" where
  "hdr_at m p b nx \<longleftrightarrow> blk_size m (of_nat p) = of_nat (bsize b) \<and> blk_next m (of_nat p) = nx
     \<and> blk_free m (of_nat p) = bfree b \<and> blk_magic m (of_nat p) = BLOCK_MAGIC"

text \<open>A piece of the list, each block linked to the one behind it.\<close>

fun seg :: "mem \<Rightarrow> nat \<Rightarrow> blk list \<Rightarrow> bool" where
  "seg m p [] \<longleftrightarrow> True"
| "seg m p (b # bs) \<longleftrightarrow> hdr_at m p b (of_nat (p + 16 + bsize b)) \<and> seg m (p + 16 + bsize b) bs"

text \<open>The whole list from \<open>p\<close> on: the last block has no successor.\<close>

fun chain :: "mem \<Rightarrow> nat \<Rightarrow> blk list \<Rightarrow> bool" where
  "chain m p [] \<longleftrightarrow> True"
| "chain m p (b # bs) \<longleftrightarrow> hdr_at m p b (if bs = [] then NULL else of_nat (p + 16 + bsize b))
     \<and> chain m (p + 16 + bsize b) bs"

text \<open>The addresses of header bytes, and the payloads of the blocks in use.\<close>

fun hdr_bytes :: "nat \<Rightarrow> blk list \<Rightarrow> nat set" where
  "hdr_bytes p [] = {}"
| "hdr_bytes p (b # bs) = {p ..< p + 16} \<union> hdr_bytes (p + 16 + bsize b) bs"

fun live :: "nat \<Rightarrow> blk list \<Rightarrow> (nat \<times> nat) set" where
  "live p [] = {}"
| "live p (b # bs) = (if bfree b then {} else {(p + 16, bsize b)}) \<union> live (p + 16 + bsize b) bs"

fun used_bytes :: "blk list \<Rightarrow> nat" where
  "used_bytes [] = 0"
| "used_bytes (b # bs) = (if bfree b then 0 else 16 + bsize b) + used_bytes bs"

lemma total_append [simp]: "total (xs @ ys) = total xs + total ys"
  by (induction xs) auto

lemma used_bytes_append [simp]: "used_bytes (xs @ ys) = used_bytes xs + used_bytes ys"
  by (induction xs) auto

lemma used_bytes_le: "used_bytes bs \<le> total bs"
  by (induction bs) auto

lemma hdr_bytes_append [simp]:
  "hdr_bytes p (xs @ ys) = hdr_bytes p xs \<union> hdr_bytes (p + total xs) ys"
  by (induction xs arbitrary: p) (auto simp: add.assoc)

lemma live_append [simp]: "live p (xs @ ys) = live p xs \<union> live (p + total xs) ys"
  by (induction xs arbitrary: p) (auto simp: add.assoc)

lemma seg_append [simp]: "seg m p (xs @ ys) \<longleftrightarrow> seg m p xs \<and> seg m (p + total xs) ys"
  by (induction xs arbitrary: p) (auto simp: add.assoc)

lemma chain_append: "ys \<noteq> [] \<Longrightarrow> chain m p (xs @ ys) \<longleftrightarrow> seg m p xs \<and> chain m (p + total xs) ys"
  by (induction xs arbitrary: p) (auto simp: add.assoc)

lemma chain_append_Cons [simp]:
  "chain m p (xs @ b # ys) \<longleftrightarrow> seg m p xs \<and> chain m (p + total xs) (b # ys)"
  by (simp add: chain_append del: chain.simps)

lemma hdr_bytes_range: "x \<in> hdr_bytes p bs \<Longrightarrow> p \<le> x \<and> x < p + total bs"
  by (induction bs arbitrary: p) fastforce+

lemma live_range: "(a, n) \<in> live p bs \<Longrightarrow> p + 16 \<le> a \<and> a + n \<le> p + total bs"
  by (induction bs arbitrary: p) (fastforce split: if_splits)+

text \<open>A payload in use holds no header byte, and two payloads in use do not overlap.\<close>

lemma live_hdr_disjoint: "(a, n) \<in> live p bs \<Longrightarrow> {a ..< a + n} \<inter> hdr_bytes p bs = {}"
proof (induction bs arbitrary: p)
  case Nil
  then show ?case by simp
next
  case (Cons b bs)
  let ?q = "p + 16 + bsize b"
  show ?case
  proof (cases "(a, n) \<in> live ?q bs")
    case True
    from Cons.IH [OF True] live_range [OF True] show ?thesis by auto
  next
    case False
    with Cons.prems have "a = p + 16" "n = bsize b" by (auto split: if_splits)
    then show ?thesis by (auto dest: hdr_bytes_range)
  qed
qed

lemma live_disjoint:
  "(a, n) \<in> live p bs \<Longrightarrow> (c, k) \<in> live p bs \<Longrightarrow> (a, n) = (c, k) \<or> a + n + 16 \<le> c \<or> c + k + 16 \<le> a"
proof (induction bs arbitrary: p)
  case Nil
  then show ?case by simp
next
  case (Cons b bs)
  let ?q = "p + 16 + bsize b"
  show ?case
  proof (cases "(a, n) \<in> live ?q bs \<and> (c, k) \<in> live ?q bs")
    case True
    then show ?thesis using Cons.IH by blast
  next
    case False
    with Cons.prems show ?thesis
      by (auto split: if_splits dest: live_range)
  qed
qed

subsection \<open>Headers and memory\<close>

text \<open>A header depends on its own 16 bytes only.\<close>

lemma hdr_at_span:
  assumes "\<And>x. x \<in> span (of_nat p) 16 \<Longrightarrow> m x = m' x"
  shows "hdr_at m p b nx \<longleftrightarrow> hdr_at m' p b nx"
proof -
  have sub: "span (of_nat p + d) i \<subseteq> span (of_nat p) 16" if "unat d + i \<le> 16" for d i
    using that by (rule span_offset_subset)
  have "load32 m (of_nat p) = load32 m' (of_nat p)"
    using sub [of 0 4] assms by (intro load32_span) auto
  moreover have "load32 m (of_nat p + 4) = load32 m' (of_nat p + 4)"
    using sub [of 4 4] assms by (intro load32_span) auto
  moreover have "load32 m (of_nat p + 12) = load32 m' (of_nat p + 12)"
    using sub [of 12 4] assms by (intro load32_span) auto
  moreover have "m (of_nat p + 8) = m' (of_nat p + 8)"
    using sub [of 8 1] assms by (auto simp: span_Suc)
  ultimately show ?thesis
    by (simp add: hdr_at_def blk_size_def blk_next_def blk_free_def blk_magic_def)
qed

lemma in_hdr_span:
  "p + 16 \<le> 4294967296 \<Longrightarrow> x \<in> span (of_nat p) 16 \<longleftrightarrow> unat x \<in> {p ..< p + 16}"
  by (simp add: in_span_nowrap)

lemma hdr_at_frame:
  assumes "p + 16 \<le> 4294967296" "\<And>x. unat x \<in> {p ..< p + 16} \<Longrightarrow> m x = m' x"
  shows "hdr_at m p b nx \<longleftrightarrow> hdr_at m' p b nx"
  using assms by (intro hdr_at_span) (simp add: in_hdr_span)

lemma chain_frame:
  "p + total bs \<le> 4294967296 \<Longrightarrow> (\<And>x. unat x \<in> hdr_bytes p bs \<Longrightarrow> m x = m' x)
   \<Longrightarrow> chain m p bs \<longleftrightarrow> chain m' p bs"
proof (induction bs arbitrary: p)
  case Nil
  show ?case by simp
next
  case (Cons b bs)
  have "hdr_at m p b nx \<longleftrightarrow> hdr_at m' p b nx" for nx
    using Cons.prems by (intro hdr_at_frame) auto
  moreover have "chain m (p + 16 + bsize b) bs \<longleftrightarrow> chain m' (p + 16 + bsize b) bs"
    using Cons.prems by (intro Cons.IH) auto
  ultimately show ?case by simp
qed

lemma seg_frame:
  "p + total bs \<le> 4294967296 \<Longrightarrow> (\<And>x. unat x \<in> hdr_bytes p bs \<Longrightarrow> m x = m' x)
   \<Longrightarrow> seg m p bs \<longleftrightarrow> seg m' p bs"
proof (induction bs arbitrary: p)
  case Nil
  show ?case by simp
next
  case (Cons b bs)
  have "hdr_at m p b nx \<longleftrightarrow> hdr_at m' p b nx" for nx
    using Cons.prems by (intro hdr_at_frame) auto
  moreover have "seg m (p + 16 + bsize b) bs \<longleftrightarrow> seg m' (p + 16 + bsize b) bs"
    using Cons.prems by (intro Cons.IH) auto
  ultimately show ?case by simp
qed

text \<open>Each field is written inside the header it belongs to.\<close>

lemma set_blk_other:
  assumes "p + 16 \<le> 4294967296" "unat x \<notin> {p ..< p + 16}"
  shows "set_blk_size m (of_nat p) v x = m x" "set_blk_next m (of_nat p) a x = m x"
    "set_blk_free m (of_nat p) f x = m x" "set_blk_magic m (of_nat p) v x = m x"
proof -
  have out: "x \<notin> span (of_nat p + d) i" if "unat d + i \<le> 16" for d i
    using span_offset_subset [OF that, of "of_nat p"] assms by (auto simp: in_hdr_span)
  show "set_blk_size m (of_nat p) v x = m x" "set_blk_next m (of_nat p) a x = m x"
    "set_blk_free m (of_nat p) f x = m x" "set_blk_magic m (of_nat p) v x = m x"
    using out [of 0 4] out [of 4 4] out [of 8 1] out [of 12 4]
    by (auto simp: set_blk_size_def set_blk_next_def set_blk_free_def set_blk_magic_def
        store32_other span_Suc)
qed

end
