(* ===== verification/Mm_Refine.thy ===== *)
theory Mm_Refine
  imports Mm_Blocks
begin

text \<open>
  The loops of mm.c on a well-formed list of blocks: they end, and what they do to memory is
  what the abstract functions below do to the list. \<open>best_scan\<close> is the search of
  \<open>kmalloc\<close>, \<open>carve\<close> the splitting of the block it found, \<open>merge_pass\<close> the
  coalescing loop of \<open>kfree\<close>.
\<close>

subsection \<open>The abstract operations\<close>

text \<open>The search: the address and size of the best block seen so far.\<close>

fun best_scan :: "nat \<Rightarrow> blk list \<Rightarrow> nat \<Rightarrow> (nat \<times> nat) option \<Rightarrow> (nat \<times> nat) option" where
  "best_scan n [] p best = best"
| "best_scan n (b # bs) p best =
     best_scan n bs (p + 16 + bsize b)
       (if bfree b \<and> n \<le> bsize b
           \<and> (case best of None \<Rightarrow> True | Some (q, k) \<Rightarrow> bsize b < k)
        then Some (p, bsize b) else best)"

definition fits :: "nat \<Rightarrow> blk \<Rightarrow> bool" where
  "fits n b \<longleftrightarrow> bfree b \<and> n \<le> bsize b"

text \<open>What becomes of the block chosen for \<open>n\<close> bytes.\<close>

definition carve :: "nat \<Rightarrow> blk \<Rightarrow> blk list" where
  "carve n b = (if n + 32 \<le> bsize b then [Blk n False, Blk (bsize b - n - 16) True]
                else [Blk (bsize b) False])"

fun carve_at :: "nat \<Rightarrow> nat \<Rightarrow> nat \<Rightarrow> blk list \<Rightarrow> blk list" where
  "carve_at q n p [] = []"
| "carve_at q n p (b # bs) = (if p = q then carve n b @ bs else b # carve_at q n (p + 16 + bsize b) bs)"

fun mark_free :: "nat \<Rightarrow> nat \<Rightarrow> blk list \<Rightarrow> blk list" where
  "mark_free q p [] = []"
| "mark_free q p (b # bs) =
     (if p = q then Blk (bsize b) True # bs else b # mark_free q (p + 16 + bsize b) bs)"

fun merge_pass :: "blk list \<Rightarrow> blk list" where
  "merge_pass [] = []"
| "merge_pass [b] = [b]"
| "merge_pass (a # b # bs) =
     (if bfree a \<and> bfree b then Blk (bsize a + (16 + bsize b)) True # merge_pass bs
      else a # merge_pass (b # bs))"

lemma carve_at_split [simp]:
  "q = p + total xs \<Longrightarrow> carve_at q n p (xs @ b # ys) = xs @ carve n b @ ys"
  by (induction xs arbitrary: p) (auto simp: add.assoc)

lemma mark_free_split [simp]:
  "q = p + total xs \<Longrightarrow> mark_free q p (xs @ b # ys) = xs @ Blk (bsize b) True # ys"
  by (induction xs arbitrary: p) (auto simp: add.assoc)

lemma total_carve [simp]: "total (carve n b) = 16 + bsize b"
  by (simp add: carve_def)

lemma merge_pass_eq_Nil [simp]: "merge_pass bs = [] \<longleftrightarrow> bs = []"
  by (induction bs rule: merge_pass.induct) auto

lemma total_merge_pass [simp]: "total (merge_pass bs) = total bs"
  by (induction bs rule: merge_pass.induct) auto

lemma used_bytes_merge_pass [simp]: "used_bytes (merge_pass bs) = used_bytes bs"
  by (induction bs rule: merge_pass.induct) auto

lemma live_merge_pass [simp]: "live p (merge_pass bs) = live p bs"
  by (induction bs arbitrary: p rule: merge_pass.induct) (auto simp: add.assoc)

lemma hdr_bytes_merge_pass: "hdr_bytes p (merge_pass bs) \<subseteq> hdr_bytes p bs"
proof (induction bs arbitrary: p rule: merge_pass.induct)
  case (3 a b bs)
  show ?case
  proof (cases "bfree a \<and> bfree b")
    case True
    then show ?thesis
      using 3(1) [OF True, of "p + 16 + bsize a + 16 + bsize b"] by (auto simp: ac_simps)
  next
    case False
    then show ?thesis
      using 3(2) [OF False, of "p + 16 + bsize a"] by auto
  qed
qed auto

subsection \<open>The search is a best-fit search\<close>

lemma best_scan_Some:
  "\<exists>best'. best_scan n bs p (Some best) = Some best'"
  by (induction bs arbitrary: p best) auto

text \<open>
  The result is a free block of the list that is large enough, no such block is smaller, and
  it is the first of that size; or it is the block given at the start, if none is better.
\<close>

definition best_of :: "nat \<Rightarrow> blk list \<Rightarrow> nat \<Rightarrow> nat \<times> nat \<Rightarrow> bool" where
  "best_of n bs p r \<longleftrightarrow>
     (\<exists>xs b ys. bs = xs @ b # ys \<and> r = (p + total xs, bsize b) \<and> fits n b
       \<and> (\<forall>c \<in> set xs. fits n c \<longrightarrow> bsize b < bsize c) \<and> (\<forall>c \<in> set ys. fits n c \<longrightarrow> bsize b \<le> bsize c))"

lemma best_of_Cons:
  "best_of n bs (p + 16 + bsize a) (q, k) \<Longrightarrow> (fits n a \<Longrightarrow> k < bsize a) \<Longrightarrow> best_of n (a # bs) p (q, k)"
  unfolding best_of_def
  by (elim exE conjE, rule_tac x = "a # xs" in exI) (auto simp: add.assoc)

lemma best_scan_spec:
  "best_scan n bs p best = Some (q, k) \<Longrightarrow>
     (best = Some (q, k) \<and> (\<forall>c \<in> set bs. fits n c \<longrightarrow> k \<le> bsize c))
     \<or> (best_of n bs p (q, k) \<and> (\<forall>q' k'. best = Some (q', k') \<longrightarrow> k < k'))"
proof (induction bs arbitrary: p best)
  case Nil
  then show ?case by simp
next
  case (Cons b bs)
  let ?p = "p + 16 + bsize b"
  let ?take = "fits n b \<and> (case best of None \<Rightarrow> True | Some (q, k) \<Rightarrow> bsize b < k)"
  show ?case
  proof (cases ?take)
    case True
    with Cons.prems have "best_scan n bs ?p (Some (p, bsize b)) = Some (q, k)"
      by (simp add: fits_def)
    from Cons.IH [OF this] show ?thesis
    proof
      assume "Some (p, bsize b) = Some (q, k) \<and> (\<forall>c \<in> set bs. fits n c \<longrightarrow> k \<le> bsize c)"
      then have "best_of n (b # bs) p (q, k)"
        using True unfolding best_of_def by (intro exI [of _ "[]"]) auto
      then show ?thesis
        using True \<open>Some (p, bsize b) = Some (q, k) \<and> _\<close> by (auto split: option.splits)
    next
      assume "best_of n bs ?p (q, k) \<and> (\<forall>q' k'. Some (p, bsize b) = Some (q', k') \<longrightarrow> k < k')"
      then have "best_of n (b # bs) p (q, k)" "k < bsize b"
        by (auto intro: best_of_Cons)
      then show ?thesis
        using True by (auto split: option.splits)
    qed
  next
    case False
    with Cons.prems have "best_scan n bs ?p best = Some (q, k)"
      by (auto simp: fits_def split: option.splits)
    from Cons.IH [OF this] False show ?thesis
      by (fastforce intro: best_of_Cons split: option.splits)
  qed
qed

lemma best_scan_None:
  "best_scan n bs p None = None \<longleftrightarrow> (\<forall>b \<in> set bs. \<not> fits n b)"
proof (induction bs arbitrary: p)
  case Nil
  show ?case by simp
next
  case (Cons b bs)
  then show ?case
    using best_scan_Some [of n bs "p + 16 + bsize b" "(p, bsize b)"]
    by (auto simp: fits_def)
qed

lemma best_scan_found:
  assumes "best_scan n bs p None = Some (q, k)"
  obtains xs b ys where "bs = xs @ b # ys" "q = p + total xs" "k = bsize b" "fits n b"
    "\<forall>c \<in> set xs. fits n c \<longrightarrow> bsize b < bsize c" "\<forall>c \<in> set ys. fits n c \<longrightarrow> bsize b \<le> bsize c"
  using best_scan_spec [OF assms] unfolding best_of_def by auto

subsection \<open>The search loop\<close>

lemma hdr_at_simps:
  "hdr_at m p b nx \<Longrightarrow> blk_size m (of_nat p) = of_nat (bsize b)"
  "hdr_at m p b nx \<Longrightarrow> blk_next m (of_nat p) = nx"
  "hdr_at m p b nx \<Longrightarrow> blk_free m (of_nat p) = bfree b"
  "hdr_at m p b nx \<Longrightarrow> blk_magic m (of_nat p) = BLOCK_MAGIC"
  by (simp_all add: hdr_at_def)

definition blk_ptr :: "(nat \<times> nat) option \<Rightarrow> addr" where
  "blk_ptr r = (case r of None \<Rightarrow> NULL | Some (q, k) \<Rightarrow> of_nat q)"

definition best_ok :: "mem \<Rightarrow> (nat \<times> nat) option \<Rightarrow> bool" where
  "best_ok m r \<longleftrightarrow> (\<forall>q k. r = Some (q, k) \<longrightarrow>
     0 < q \<and> q < 4294967296 \<and> k < 4294967296 \<and> blk_size m (of_nat q) = of_nat k)"

lemma kmalloc_scan_NULL: "kmalloc_scan m n NULL best = Some best"
  by (subst kmalloc_scan.simps) simp

lemma kmalloc_scan_chain:
  assumes "chain m p bs" "0 < p" "p + total bs < 4294967296" "n < 4294967296" "best_ok m r"
  shows "kmalloc_scan m (of_nat n) (if bs = [] then NULL else of_nat p) (blk_ptr r)
           = Some (blk_ptr (best_scan n bs p r))"
  using assms
proof (induction bs arbitrary: p r)
  case Nil
  then show ?case by (simp add: kmalloc_scan_NULL)
next
  case (Cons b bs)
  let ?p = "p + 16 + bsize b"
  let ?r = "if bfree b \<and> n \<le> bsize b \<and> (case r of None \<Rightarrow> True | Some (q, k) \<Rightarrow> bsize b < k)
            then Some (p, bsize b) else r"
  note hdr = hdr_at_simps [OF Cons.prems(1) [unfolded chain.simps, THEN conjunct1]]
  have pos: "(of_nat p :: addr) \<noteq> NULL" "bsize b < 4294967296"
    using Cons.prems by (simp_all add: of_nat_eq_NULL_iff)
  have step: "(if bfree b \<and> (of_nat n :: addr) \<le> of_nat (bsize b)
      \<and> (blk_ptr r = NULL \<or> of_nat (bsize b) < blk_size m (blk_ptr r))
     then of_nat p else blk_ptr r) = blk_ptr ?r"
    using Cons.prems(4,5) pos
    by (auto simp: blk_ptr_def best_ok_def addr_of_nat_le addr_of_nat_less of_nat_eq_NULL_iff
        split: option.splits)
  have "best_ok m ?r"
    using Cons.prems pos hdr by (auto simp: best_ok_def)
  then have IH: "kmalloc_scan m (of_nat n) (if bs = [] then NULL else of_nat ?p) (blk_ptr ?r)
      = Some (blk_ptr (best_scan n bs ?p ?r))"
    using Cons.prems by (intro Cons.IH) auto
  have "kmalloc_scan m (of_nat n) (of_nat p) (blk_ptr r)
      = kmalloc_scan m (of_nat n) (if bs = [] then NULL else of_nat ?p) (blk_ptr ?r)"
    using pos by (subst kmalloc_scan.simps) (simp only: hdr step if_False)
  then show ?case
    using IH by simp
qed


subsection \<open>Splitting the block that was found\<close>

text \<open>Two header writes at different blocks do not disturb each other.\<close>

lemma blk_other:
  assumes "\<And>x. x \<in> span b 16 \<Longrightarrow> m x = m' x"
  shows "blk_size m b = blk_size m' b" "blk_next m b = blk_next m' b"
    "blk_free m b \<longleftrightarrow> blk_free m' b" "blk_magic m b = blk_magic m' b"
proof -
  have *: "x \<in> span b 16" if "x \<in> span (b + d) i" "unat d + i \<le> 16" for x d i
    using span_offset_subset [OF that(2), of b] that(1) by blast
  show "blk_size m b = blk_size m' b"
    unfolding blk_size_def using assms * [of _ 0 4] by (intro load32_span) auto
  show "blk_next m b = blk_next m' b"
    unfolding blk_next_def using assms * [of _ 4 4] by (intro load32_span) auto
  show "blk_magic m b = blk_magic m' b"
    unfolding blk_magic_def using assms * [of _ 12 4] by (intro load32_span) auto
  show "blk_free m b \<longleftrightarrow> blk_free m' b"
    unfolding blk_free_def using assms * [of "b + 8" 8 1] by (auto simp: span_Suc)
qed

lemma set_blk_apart:
  assumes "span a 16 \<inter> span b 16 = {}" "x \<in> span b 16"
  shows "set_blk_size m a v x = m x" "set_blk_next m a c x = m x"
    "set_blk_free m a f x = m x" "set_blk_magic m a v x = m x"
proof -
  have out: "x \<notin> span (a + d) i" if "unat d + i \<le> 16" for d i
    using span_offset_subset [OF that, of a] assms by blast
  show "set_blk_size m a v x = m x" "set_blk_next m a c x = m x"
    "set_blk_free m a f x = m x" "set_blk_magic m a v x = m x"
    using out [of 0 4] out [of 4 4] out [of 8 1] out [of 12 4]
    by (auto simp: set_blk_size_def set_blk_next_def set_blk_free_def set_blk_magic_def
        store32_other span_Suc)
qed

lemma blk_apart:
  assumes "span a 16 \<inter> span b 16 = {}"
  shows
    "blk_size (set_blk_size m a v) b = blk_size m b" "blk_size (set_blk_next m a c) b = blk_size m b"
    "blk_size (set_blk_free m a f) b = blk_size m b" "blk_size (set_blk_magic m a v) b = blk_size m b"
    "blk_next (set_blk_size m a v) b = blk_next m b" "blk_next (set_blk_next m a c) b = blk_next m b"
    "blk_next (set_blk_free m a f) b = blk_next m b" "blk_next (set_blk_magic m a v) b = blk_next m b"
    "blk_free (set_blk_size m a v) b = blk_free m b" "blk_free (set_blk_next m a c) b = blk_free m b"
    "blk_free (set_blk_free m a f) b = blk_free m b" "blk_free (set_blk_magic m a v) b = blk_free m b"
    "blk_magic (set_blk_size m a v) b = blk_magic m b" "blk_magic (set_blk_next m a c) b = blk_magic m b"
    "blk_magic (set_blk_free m a f) b = blk_magic m b" "blk_magic (set_blk_magic m a v) b = blk_magic m b"
  using set_blk_apart [OF assms] by (auto intro!: blk_other)

lemma hdr_spans_disjoint:
  "p + 16 \<le> q \<Longrightarrow> q + 16 \<le> 4294967296 \<Longrightarrow>
   span (of_nat p) 16 \<inter> span (of_nat q) 16 = {}"
  by (rule span_disjoint_nowrap) auto

text \<open>
  \<open>kmalloc\<close> on the block at \<open>q\<close>: the headers of \<open>carve\<close> stand where the block was, and
  nothing but header bytes of the new list changed.
\<close>

definition take_block :: "mem \<Rightarrow> addr \<Rightarrow> u32 \<Rightarrow> mem" where
  "take_block m best_fit sz = set_blk_free (kmalloc_split m best_fit sz) best_fit False"

lemma take_block_split:
  assumes "hdr_at m q b nx" "0 < q" "q + 16 + bsize b < 4294967296" "n + 32 \<le> bsize b"
  defines "r \<equiv> q + 16 + n"
  shows "hdr_at (take_block m (of_nat q) (of_nat n)) q (Blk n False) (of_nat r)"
    and "hdr_at (take_block m (of_nat q) (of_nat n)) r (Blk (bsize b - n - 16) True) nx"
    and "unat x \<notin> {q ..< q + 16} \<Longrightarrow> unat x \<notin> {r ..< r + 16} \<Longrightarrow>
         take_block m (of_nat q) (of_nat n) x = m x"
proof -
  note hdr = hdr_at_simps [OF assms(1)]
  have d: "span (of_nat q) 16 \<inter> span (of_nat r) 16 = {}"
    using assms by (intro hdr_spans_disjoint) auto
  note ap = blk_apart [OF d] blk_apart [OF d [unfolded Int_commute [of "span (of_nat q) 16"]]]
  have rem: "blk_size m (of_nat q) - of_nat n = (of_nat (bsize b - n) :: addr)"
    using assms(4) by (simp add: hdr of_nat_diff)
  have rem2: "(of_nat (bsize b - n) - 16 :: addr) = of_nat (bsize b - n - 16)"
    using assms(4) by (simp add: of_nat_diff)
  have big: "(32 :: addr) \<le> of_nat (bsize b - n)"
    using addr_of_nat_le [of 32 "bsize b - n"] assms(3,4) by (simp del: of_nat_diff)
  have r: "(of_nat q + 16 + of_nat n :: addr) = of_nat r"
    by (simp add: r_def)
  define m1 where "m1 = set_blk_size m (of_nat r) (of_nat (bsize b - n - 16))"
  define m2 where "m2 = set_blk_free m1 (of_nat r) True"
  define m3 where "m3 = set_blk_next m2 (of_nat r) (blk_next m2 (of_nat q))"
  define m4 where "m4 = set_blk_magic m3 (of_nat r) BLOCK_MAGIC"
  define m5 where "m5 = set_blk_next m4 (of_nat q) (of_nat r)"
  define m6 where "m6 = set_blk_size m5 (of_nat q) (of_nat n)"
  have split: "take_block m (of_nat q) (of_nat n) = set_blk_free m6 (of_nat q) False"
    using big by (simp add: take_block_def kmalloc_split_def Let_def rem rem2 r sizeof_mem_block_def
        MIN_BLOCK_SIZE_def m1_def m2_def m3_def m4_def m5_def m6_def)
  note ms = m6_def m5_def m4_def m3_def m2_def m1_def
  show "hdr_at (take_block m (of_nat q) (of_nat n)) q (Blk n False) (of_nat r)"
    by (simp add: hdr_at_def split ms ap hdr)
  show "hdr_at (take_block m (of_nat q) (of_nat n)) r (Blk (bsize b - n - 16) True) nx"
    by (simp add: hdr_at_def split ms ap hdr)
  show "take_block m (of_nat q) (of_nat n) x = m x"
    if "unat x \<notin> {q ..< q + 16}" "unat x \<notin> {r ..< r + 16}"
  proof -
    have "q + 16 \<le> 4294967296" "r + 16 \<le> 4294967296"
      using assms by auto
    with that show ?thesis
      by (simp add: split ms set_blk_other)
  qed
qed

lemma take_block_whole:
  assumes "hdr_at m q b nx" "0 < q" "q + 16 + bsize b < 4294967296" "n \<le> bsize b" "bsize b < n + 32"
  shows "hdr_at (take_block m (of_nat q) (of_nat n)) q (Blk (bsize b) False) nx"
    and "unat x \<notin> {q ..< q + 16} \<Longrightarrow> take_block m (of_nat q) (of_nat n) x = m x"
proof -
  note hdr = hdr_at_simps [OF assms(1)]
  have rem: "blk_size m (of_nat q) - of_nat n = (of_nat (bsize b - n) :: addr)"
    using assms(4) by (simp add: hdr of_nat_diff)
  have small: "\<not> (32 :: addr) \<le> of_nat (bsize b - n)"
    using addr_of_nat_le [of 32 "bsize b - n"] assms(3-5) by (simp del: of_nat_diff)
  have whole: "take_block m (of_nat q) (of_nat n) = set_blk_free m (of_nat q) False"
    using small by (simp add: take_block_def kmalloc_split_def rem sizeof_mem_block_def MIN_BLOCK_SIZE_def)
  show "hdr_at (take_block m (of_nat q) (of_nat n)) q (Blk (bsize b) False) nx"
    by (simp add: hdr_at_def whole hdr)
  show "take_block m (of_nat q) (of_nat n) x = m x" if "unat x \<notin> {q ..< q + 16}"
    using that assms by (simp add: whole set_blk_other)
qed


subsection \<open>The coalescing loop\<close>

lemma kfree_coalesce_NULL: "kfree_coalesce m NULL = Some m"
  by (subst kfree_coalesce.simps) simp

text \<open>The body of the loop where it merges the block at \<open>p\<close> with its successor.\<close>

definition absorb :: "mem \<Rightarrow> addr \<Rightarrow> mem" where
  "absorb m current =
     (let m1 = set_blk_size m current
            (blk_size m current + (sizeof_mem_block + blk_size m (blk_next m current)))
      in set_blk_next m1 current (blk_next m1 (blk_next m1 current)))"

lemma kfree_coalesce_step:
  "current \<noteq> NULL \<Longrightarrow> kfree_coalesce m current =
     (let m' = (if blk_free m current \<and> blk_next m current \<noteq> NULL \<and> blk_free m (blk_next m current)
                then absorb m current else m)
      in kfree_coalesce m' (blk_next m' current))"
  by (subst kfree_coalesce.simps) (simp add: absorb_def Let_def)

lemma absorb_hdr:
  assumes "hdr_at m p a (of_nat r)" "hdr_at m r b nx" "r = p + 16 + bsize a" "bfree a" "bfree b"
    "0 < p" "r + 16 + bsize b < 4294967296"
  shows "hdr_at (absorb m (of_nat p)) p (Blk (bsize a + (16 + bsize b)) True) nx"
    and "unat x \<notin> {p ..< p + 16} \<Longrightarrow> absorb m (of_nat p) x = m x"
proof -
  note ha = hdr_at_simps [OF assms(1)] and hb = hdr_at_simps [OF assms(2)]
  have d: "span (of_nat p) 16 \<inter> span (of_nat r) 16 = {}"
    using assms by (intro hdr_spans_disjoint) auto
  note ap = blk_apart [OF d]
  have sz: "(of_nat (bsize a) + (16 + of_nat (bsize b)) :: addr) = of_nat (bsize a + (16 + bsize b))"
    by simp
  show "hdr_at (absorb m (of_nat p)) p (Blk (bsize a + (16 + bsize b)) True) nx"
    unfolding hdr_at_def absorb_def Let_def
    by (simp add: ha hb ap assms(4) sizeof_mem_block_def)
  show "absorb m (of_nat p) x = m x" if "unat x \<notin> {p ..< p + 16}"
    using that assms by (simp add: absorb_def Let_def set_blk_other)
qed

text \<open>
  The loop ends, leaves the list of \<open>merge_pass\<close>, and writes nothing but header bytes of
  the old list.
\<close>

lemma kfree_coalesce_chain:
  assumes "chain m p bs" "0 < p" "p + total bs < 4294967296" "bs \<noteq> []"
  shows "\<exists>m'. kfree_coalesce m (of_nat p) = Some m' \<and> chain m' p (merge_pass bs)
           \<and> (\<forall>x. unat x \<notin> hdr_bytes p bs \<longrightarrow> m' x = m x)"
  using assms
proof (induction bs arbitrary: m p rule: merge_pass.induct)
  case 1
  then show ?case by simp
next
  case (2 b)
  then have "blk_next m (of_nat p) = NULL" "(of_nat p :: addr) \<noteq> NULL"
    by (auto simp: hdr_at_def of_nat_eq_NULL_iff)
  with 2 show ?case
    by (auto simp: kfree_coalesce_step kfree_coalesce_NULL Let_def)
next
  case (3 a b bs)
  let ?r = "p + 16 + bsize a"
  let ?e = "?r + 16 + bsize b"
  from 3 have ha: "hdr_at m p a (of_nat ?r)"
    and hb: "hdr_at m ?r b (if bs = [] then NULL else of_nat ?e)"
    and rest: "chain m ?e bs"
    by auto
  note fa = hdr_at_simps [OF ha] and fb = hdr_at_simps [OF hb]
  have nz: "(of_nat p :: addr) \<noteq> NULL" "(of_nat ?r :: addr) \<noteq> NULL"
    using 3 by (auto simp: of_nat_eq_NULL_iff simp del: of_nat_add)
  show ?case
  proof (cases "bfree a \<and> bfree b")
    case True
    let ?m = "absorb m (of_nat p)"
    have ab: "hdr_at ?m p (Blk (bsize a + (16 + bsize b)) True) (if bs = [] then NULL else of_nat ?e)"
      and fr: "\<And>x. unat x \<notin> {p ..< p + 16} \<Longrightarrow> ?m x = m x"
      using absorb_hdr [OF ha hb refl] True 3 by auto
    have rest': "chain ?m ?e bs"
      using rest chain_frame [of ?e bs m ?m] fr 3(5) by (fastforce dest: hdr_bytes_range)
    have step: "kfree_coalesce m (of_nat p) = kfree_coalesce ?m (if bs = [] then NULL else of_nat ?e)"
      using True nz fa fb hdr_at_simps(2) [OF ab] by (simp add: kfree_coalesce_step Let_def)
    show ?thesis
    proof (cases "bs = []")
      case True
      with step ab fr \<open>bfree a \<and> bfree b\<close> show ?thesis
        by (auto simp: kfree_coalesce_NULL)
    next
      case False
      from 3(1) [OF True rest'] 3(4,5) False obtain m'
        where m': "kfree_coalesce ?m (of_nat ?e) = Some m'" "chain m' ?e (merge_pass bs)"
          "\<And>x. unat x \<notin> hdr_bytes ?e bs \<Longrightarrow> m' x = ?m x"
        by auto
      have "m' x = ?m x" if "unat x \<in> {p ..< p + 16}" for x
        using m'(3) [of x] hdr_bytes_range [of "unat x" ?e bs] that by fastforce
      then have "hdr_at m' p (Blk (bsize a + (16 + bsize b)) True) (of_nat ?e)"
        using ab False hdr_at_frame [of p m' ?m] 3(5) by simp
      then show ?thesis
        using step False True m' fr by (auto simp: ac_simps)
    qed
  next
    case False
    have step: "kfree_coalesce m (of_nat p) = kfree_coalesce m (of_nat ?r)"
      using False nz fa fb by (auto simp: kfree_coalesce_step Let_def)
    from 3(2) [OF False, of m ?r] 3(3-) obtain m'
      where m': "kfree_coalesce m (of_nat ?r) = Some m'" "chain m' ?r (merge_pass (b # bs))"
        "\<And>x. unat x \<notin> hdr_bytes ?r (b # bs) \<Longrightarrow> m' x = m x"
      by auto
    have "m' x = m x" if "unat x \<in> {p ..< p + 16}" for x
      using m'(3) [of x] hdr_bytes_range [of "unat x" ?r "b # bs"] that by fastforce
    then have "hdr_at m' p a (of_nat ?r)"
      using ha hdr_at_frame [of p m' m] 3(5) by simp
    then show ?thesis
      using step False m' by auto
  qed
qed

end
