(* ===== verification/Mm_Heap.thy ===== *)
theory Mm_Heap
  imports Mm_Refine
begin

text \<open>
  The heap invariant and the refinement theorems of mm.c: \<open>kmalloc\<close> and \<open>kfree\<close> on a
  well-formed heap return, keep it well formed and do to memory what \<open>alloc_abs\<close> and
  \<open>free_abs\<close> do to the list of blocks. Mm_Contract.thy turns this into the contract that the
  other components of the kernel rely on.
\<close>

subsection \<open>Alignment\<close>

definition align_nat :: "nat \<Rightarrow> nat" where "align_nat n = (n + 7) div 8 * 8"

lemma unat_and_not_7: "unat (x AND NOT 7 :: u32) = unat x div 8 * 8"
  using unat_and_not_mask [of x 3] by (simp add: mask_eq_exp_minus_1)

lemma unat_ALIGN: "unat (ALIGN n) = (unat n + 7) mod 4294967296 div 8 * 8"
  unfolding ALIGN_def unat_and_not_7 by (simp add: unat_word_ariths)

lemma unat_ALIGN_small: "unat n \<le> 4294967288 \<Longrightarrow> unat (ALIGN n) = align_nat (unat n)"
  by (simp add: unat_ALIGN align_nat_def)

lemma align_nat_bounds: "n \<le> align_nat n" "align_nat n < n + 8" "8 dvd align_nat n"
  by (simp_all add: align_nat_def)

lemma ALIGN_of_nat: "unat n \<le> 4294967288 \<Longrightarrow> ALIGN n = of_nat (align_nat (unat n))"
  using unat_ALIGN_small [of n] unat32_less [of "ALIGN n"] by (simp add: word_unat_eq_iff)

subsection \<open>The heap invariant\<close>

definition aligned :: "blk list \<Rightarrow> bool" where
  "aligned bs \<longleftrightarrow> (\<forall>b \<in> set bs. 8 dvd bsize b \<and> 0 < bsize b)"

definition heap_ok :: "'a mm_state_scheme \<Rightarrow> blk list \<Rightarrow> bool" where
  "heap_ok s bs \<longleftrightarrow> bs \<noteq> [] \<and> heap_start s \<noteq> NULL \<and> first_block s = heap_start s
     \<and> chain (mem s) (unat (heap_start s)) bs
     \<and> unat (heap_start s) + total bs = unat (heap_end s)
     \<and> 8 dvd unat (heap_start s) \<and> aligned bs"

text \<open>The allocation counter counts the bytes of the blocks in use, with their headers.\<close>

definition stats_ok :: "'a mm_state_scheme \<Rightarrow> blk list \<Rightarrow> bool" where
  "stats_ok s bs \<longleftrightarrow> allocated (mm_stats s) = of_nat (used_bytes bs)"

definition alloc_abs :: "nat \<Rightarrow> nat \<Rightarrow> blk list \<Rightarrow> nat option \<times> blk list" where
  "alloc_abs n p bs =
     (case best_scan n bs p None of
        None \<Rightarrow> (None, bs)
      | Some (q, k) \<Rightarrow> (Some (q + 16), carve_at q n p bs))"

definition free_abs :: "nat \<Rightarrow> nat \<Rightarrow> blk list \<Rightarrow> blk list" where
  "free_abs a p bs = merge_pass (mark_free (a - 16) p bs)"

lemma heap_okD:
  assumes "heap_ok s bs"
  shows "0 < unat (heap_start s)" "unat (heap_start s) + total bs < 4294967296"
    "chain (mem s) (unat (heap_start s)) bs" "first_block s = heap_start s" "bs \<noteq> []"
    "unat (heap_start s) + total bs = unat (heap_end s)" "heap_start s \<noteq> NULL"
    "8 dvd unat (heap_start s)" "aligned bs"
  using assms unat32_less [of "heap_end s"] by (auto simp: heap_ok_def unat_gt_0)

text \<open>The same list of blocks is found again after memory outside the headers changed.\<close>

lemma heap_ok_frame:
  assumes "heap_ok s bs" "\<And>x. unat x \<in> hdr_bytes (unat (heap_start s)) bs \<Longrightarrow> m x = mem s x"
  shows "heap_ok (s\<lparr>mem := m\<rparr>) bs"
  using assms chain_frame [of "unat (heap_start s)" bs "mem s" m] heap_okD [OF assms(1)]
  by (simp add: heap_ok_def)

lemma aligned_append [simp]: "aligned (xs @ ys) \<longleftrightarrow> aligned xs \<and> aligned ys"
  by (auto simp: aligned_def)

lemma aligned_Cons [simp]: "aligned (b # bs) \<longleftrightarrow> 8 dvd bsize b \<and> 0 < bsize b \<and> aligned bs"
  by (auto simp: aligned_def)

lemma aligned_Nil [simp]: "aligned []"
  by (simp add: aligned_def)

lemma aligned_carve: "8 dvd n \<Longrightarrow> 0 < n \<Longrightarrow> n \<le> bsize b \<Longrightarrow> 8 dvd bsize b \<Longrightarrow> aligned (carve n b)"
  by (auto simp: carve_def intro: dvd_diff_nat)

lemma carve_not_Nil [simp]: "carve n b \<noteq> []"
  by (simp add: carve_def)

lemma aligned_merge_pass: "aligned bs \<Longrightarrow> aligned (merge_pass bs)"
  by (induction bs rule: merge_pass.induct) auto

lemma aligned_total: "aligned bs \<Longrightarrow> 8 dvd total bs"
  by (induction bs) auto

text \<open>A block in use is found by the address of its payload.\<close>

lemma live_split:
  assumes "(a, n) \<in> live p bs"
  obtains xs ys where "bs = xs @ Blk n False # ys" "a = p + total xs + 16"
  using assms
proof (induction bs arbitrary: p thesis)
  case Nil
  then show ?case by simp
next
  case (Cons b bs)
  show ?case
  proof (cases "(a, n) \<in> live (p + 16 + bsize b) bs")
    case True
    then obtain xs ys where "bs = xs @ Blk n False # ys" "a = p + 16 + bsize b + total xs + 16"
      using Cons.IH by blast
    then show ?thesis
      using Cons.prems(1) [of "b # xs" ys] by simp
  next
    case False
    with Cons.prems(2) have "a = p + 16" "n = bsize b" "\<not> bfree b"
      by (auto split: if_splits)
    then show ?thesis
      using Cons.prems(1) [of "[]" bs] by (cases b) auto
  qed
qed

subsection \<open>kmalloc refines the abstract allocation\<close>

lemma take_block_chain:
  assumes "chain m p (xs @ b # ys)" "0 < p" "p + total (xs @ b # ys) < 4294967296" "n \<le> bsize b"
  defines "q \<equiv> p + total xs"
  shows "chain (take_block m (of_nat q) (of_nat n)) p (xs @ carve n b @ ys)"
    and "unat x \<notin> hdr_bytes p (xs @ carve n b @ ys) \<Longrightarrow> take_block m (of_nat q) (of_nat n) x = m x"
    and "blk_size (take_block m (of_nat q) (of_nat n)) (of_nat q) = of_nat (bsize (hd (carve n b)))"
proof -
  let ?m = "take_block m (of_nat q) (of_nat n)"
  let ?nx = "if ys = [] then NULL else of_nat (q + 16 + bsize b)"
  from assms have hb: "hdr_at m q b ?nx" and pre: "seg m p xs" and post: "chain m (q + 16 + bsize b) ys"
    by (simp_all add: add.assoc del: of_nat_add cong: if_cong)
  have rng: "0 < q" "q + 16 + bsize b < 4294967296" "q + 16 + bsize b + total ys < 4294967296"
    using assms by auto
  have main: "chain ?m q (carve n b @ ys) \<and> (\<forall>x. unat x \<notin> hdr_bytes q (carve n b) \<longrightarrow> ?m x = m x)
      \<and> blk_size ?m (of_nat q) = of_nat (bsize (hd (carve n b)))"
  proof (cases "n + 32 \<le> bsize b")
    case True
    note sp = take_block_split [OF hb rng(1,2) True]
    have "chain ?m (q + 16 + bsize b) ys"
      using post sp(3) rng True
      by (subst chain_frame [of _ _ ?m m]) (auto dest: hdr_bytes_range)
    with sp True show ?thesis
      by (auto simp: carve_def hdr_at_simps(1) [OF sp(1)] ac_simps)
  next
    case False
    then have lt: "bsize b < n + 32" by simp
    note sp = take_block_whole [OF hb rng(1,2) assms(4) lt]
    have "chain ?m (q + 16 + bsize b) ys"
      using post sp(2) rng
      by (subst chain_frame [of _ _ ?m m]) (auto dest: hdr_bytes_range)
    with sp False show ?thesis
      by (auto simp: carve_def hdr_at_simps(1) [OF sp(1)])
  qed
  have "seg ?m p xs \<longleftrightarrow> seg m p xs"
    using main rng hdr_bytes_range [of _ q "carve n b"] assms(3)
    by (intro seg_frame) (fastforce simp: q_def dest: hdr_bytes_range)+
  with main pre show "chain ?m p (xs @ carve n b @ ys)"
    by (subst chain_append) (auto simp: q_def carve_def)
  show "?m x = m x" if "unat x \<notin> hdr_bytes p (xs @ carve n b @ ys)"
    using main that by (auto simp: q_def)
  show "blk_size ?m (of_nat q) = of_nat (bsize (hd (carve n b)))"
    using main by simp
qed

text \<open>What both operations leave alone: the extent of the heap and the fixed statistics.\<close>

definition same_heap :: "'a mm_state_scheme \<Rightarrow> 'a mm_state_scheme \<Rightarrow> bool" where
  "same_heap s s' \<longleftrightarrow> heap_start s' = heap_start s \<and> heap_end s' = heap_end s
     \<and> first_block s' = first_block s \<and> mm_state.more s' = mm_state.more s
     \<and> total_memory (mm_stats s') = total_memory (mm_stats s)
     \<and> heap_size (mm_stats s') = heap_size (mm_stats s)"

lemma same_heap_printk [simp]: "same_heap s (printk f s)"
  by (simp add: same_heap_def printk_def)

lemma heap_ok_printk [simp]: "heap_ok (printk f s) bs \<longleftrightarrow> heap_ok s bs"
  by (simp add: heap_ok_def printk_def)

lemma kmalloc_scan_heap:
  assumes "heap_ok s bs" "unat sz \<le> 4294967288"
  shows "kmalloc_scan (mem s) (ALIGN sz) (first_block s) NULL
     = Some (blk_ptr (best_scan (align_nat (unat sz)) bs (unat (heap_start s)) None))"
proof -
  note h = heap_okD [OF assms(1)]
  have n: "align_nat (unat sz) < 4294967296"
    using unat_ALIGN_small [OF assms(2)] unat32_less [of "ALIGN sz"] by simp
  have "best_ok (mem s) None"
    by (simp add: best_ok_def)
  from kmalloc_scan_chain [OF h(3,1,2) n this] h(4,5) show ?thesis
    by (simp add: ALIGN_of_nat assms(2) blk_ptr_def)
qed

lemma kmalloc_no_fit:
  assumes "heap_ok s bs" "sz \<noteq> 0" "unat sz \<le> 4294967288"
    "best_scan (align_nat (unat sz)) bs (unat (heap_start s)) None = None"
  shows "kmalloc sz s = Some (NULL, printk (''kmalloc(%zu) failed! Out of memory'' @ nl) s)"
  using assms heap_okD(7) [OF assms(1)] kmalloc_scan_heap [OF assms(1,3)]
  by (simp add: kmalloc_def blk_ptr_def)

lemma kmalloc_fit:
  assumes ok: "heap_ok s bs" and sz: "sz \<noteq> 0" "unat sz \<le> 4294967288"
    and found: "best_scan (align_nat (unat sz)) bs (unat (heap_start s)) None = Some (q, k)"
  defines "bs' \<equiv> carve_at q (align_nat (unat sz)) (unat (heap_start s)) bs"
  shows "\<exists>s'. kmalloc sz s = Some (of_nat (q + 16), s') \<and> heap_ok s' bs' \<and> same_heap s s'
     \<and> klog s' = klog s
     \<and> (\<forall>x. unat x \<notin> hdr_bytes (unat (heap_start s)) bs' \<longrightarrow> mem s' x = mem s x)
     \<and> allocated (mm_stats s') + of_nat (used_bytes bs) = allocated (mm_stats s) + of_nat (used_bytes bs')
     \<and> alloc_count (mm_stats s') = alloc_count (mm_stats s) + 1
     \<and> free_count (mm_stats s') = free_count (mm_stats s)"
proof -
  let ?p = "unat (heap_start s)" and ?n = "align_nat (unat sz)"
  note h = heap_okD [OF ok]
  from best_scan_found [OF found] obtain xs b ys where
    bs: "bs = xs @ b # ys" and q: "q = ?p + total xs" and b: "fits ?n b" by metis
  have n: "?n \<le> bsize b"
    using b by (simp add: fits_def)
  have npos: "0 < ?n"
    using sz(1) align_nat_bounds(1) [of "unat sz"] unat_gt_0 [of sz] by linarith
  have bs': "bs' = xs @ carve ?n b @ ys"
    by (simp add: bs'_def bs q)
  have q0: "0 < q" "q < 4294967296" "(of_nat q :: addr) \<noteq> NULL"
    using h(1,2) q bs of_nat_eq_NULL_iff [of q] by auto
  let ?m = "take_block (mem s) (of_nat q) (of_nat ?n)"
  note tb = take_block_chain [OF h(3) [unfolded bs] h(1) h(2) [unfolded bs] n, folded q]
  define st where "st = (mm_stats s)\<lparr>allocated := allocated (mm_stats s)
       + (of_nat (bsize (hd (carve ?n b))) + 16), alloc_count := alloc_count (mm_stats s) + 1\<rparr>"
  define s' where "s' = s\<lparr>mem := ?m, mm_stats := st\<rparr>"
  have "kmalloc sz s = Some (of_nat q + sizeof_mem_block, s')"
    using kmalloc_scan_heap [OF ok sz(2)] q0(3) h(7) sz tb(3)
    by (simp add: kmalloc_def found blk_ptr_def take_block_def Let_def ALIGN_of_nat s'_def st_def
        sizeof_mem_block_def)
  moreover have "heap_ok s' bs'"
    using h tb(1) n npos by (auto simp: heap_ok_def s'_def bs' bs aligned_carve align_nat_bounds)
  moreover have "same_heap s s'" "klog s' = klog s"
    by (simp_all add: same_heap_def s'_def st_def)
  moreover have "mem s' x = mem s x" if "unat x \<notin> hdr_bytes ?p bs'" for x
    using tb(2) that by (simp add: s'_def bs')
  moreover have "allocated (mm_stats s') + of_nat (used_bytes bs)
      = allocated (mm_stats s) + of_nat (used_bytes bs')"
    using b by (simp add: s'_def st_def bs bs' carve_def fits_def)
  moreover have "alloc_count (mm_stats s') = alloc_count (mm_stats s) + 1"
    "free_count (mm_stats s') = free_count (mm_stats s)"
    by (simp_all add: s'_def st_def)
  ultimately show ?thesis
    by (intro exI [of _ s']) (simp add: sizeof_mem_block_def)
qed

subsection \<open>kfree refines the abstract release\<close>

lemma mark_chain:
  assumes "chain m p (xs @ b # ys)" "0 < p" "p + total (xs @ b # ys) < 4294967296"
  defines "q \<equiv> p + total xs"
  shows "chain (set_blk_free m (of_nat q) True) p (xs @ Blk (bsize b) True # ys)"
    and "unat x \<notin> hdr_bytes p (xs @ b # ys) \<Longrightarrow> set_blk_free m (of_nat q) True x = m x"
proof -
  let ?m = "set_blk_free m (of_nat q) True"
  let ?nx = "if ys = [] then NULL else of_nat (q + 16 + bsize b)"
  from assms have hb: "hdr_at m q b ?nx" and pre: "seg m p xs" and post: "chain m (q + 16 + bsize b) ys"
    by (simp_all add: add.assoc del: of_nat_add cong: if_cong)
  have fr: "?m x = m x" if "unat x \<notin> {q ..< q + 16}" for x
    using that assms by (intro set_blk_other) auto
  have "chain ?m (q + 16 + bsize b) ys"
    using post fr assms(3) by (subst chain_frame [of _ _ ?m m]) (auto simp: q_def dest: hdr_bytes_range)
  moreover have "seg ?m p xs"
    using pre fr assms(3) by (subst seg_frame [of _ _ ?m m]) (auto simp: q_def dest: hdr_bytes_range)
  moreover have "hdr_at ?m q (Blk (bsize b) True) ?nx"
    using hb by (simp add: hdr_at_def)
  ultimately show "chain ?m p (xs @ Blk (bsize b) True # ys)"
    by (cases "ys = []") (simp_all add: q_def)
  show "?m x = m x" if "unat x \<notin> hdr_bytes p (xs @ b # ys)"
    using that fr by (auto simp: q_def)
qed

lemma kfree_block:
  assumes ok: "heap_ok s (xs @ b # ys)"
  defines "bs \<equiv> xs @ b # ys" and "a \<equiv> unat (heap_start s) + total xs + 16"
    and "bs' \<equiv> merge_pass (xs @ Blk (bsize b) True # ys)"
  shows "\<exists>s'. kfree (of_nat a) s = Some s' \<and> heap_ok s' bs' \<and> same_heap s s' \<and> klog s' = klog s
     \<and> (\<forall>x. unat x \<notin> hdr_bytes (unat (heap_start s)) bs \<longrightarrow> mem s' x = mem s x)
     \<and> allocated (mm_stats s') = allocated (mm_stats s) - of_nat (bsize b + 16)
     \<and> alloc_count (mm_stats s') = alloc_count (mm_stats s)
     \<and> free_count (mm_stats s') = free_count (mm_stats s) + 1"
proof -
  let ?p = "unat (heap_start s)"
  let ?q = "?p + total xs"
  note h = heap_okD [OF ok]
  have tot: "total (xs @ b # ys) = total xs + 16 + bsize b + total ys" by simp
  have a: "(of_nat a - 16 :: addr) = of_nat ?q" "a < unat (heap_end s)"
    "a < 4294967296" "?p \<le> a" "0 < a"
    using h(2,6,9) by (auto simp: a_def)
  from h(3) have hb: "hdr_at (mem s) ?q b (if ys = [] then NULL else of_nat (?q + 16 + bsize b))"
    by (simp add: add.assoc)
  have valid: "is_valid_pointer (of_nat a) s" "(of_nat a :: addr) \<noteq> NULL"
    using a hdr_at_simps(4) [OF hb] of_nat_eq_NULL_iff [of a]
    by (auto simp: is_valid_pointer_def word32_less_nat word32_le_nat sizeof_mem_block_def)
  let ?m = "set_blk_free (mem s) (of_nat ?q) True"
  note mk = mark_chain [OF h(3,1,2)]
  obtain m' where m': "kfree_coalesce ?m (first_block s) = Some m'" "chain m' ?p bs'"
    "\<And>x. unat x \<notin> hdr_bytes ?p bs \<Longrightarrow> m' x = ?m x"
    using kfree_coalesce_chain [OF mk(1) h(1)] h(2,4) by (auto simp: bs'_def bs_def)
  define st where "st = (mm_stats s)\<lparr>allocated := allocated (mm_stats s) - (of_nat (bsize b) + 16),
       free_count := free_count (mm_stats s) + 1\<rparr>"
  define s' where "s' = s\<lparr>mem := m', mm_stats := st\<rparr>"
  have "kfree (of_nat a) s = Some s'"
    using valid m'(1) hdr_at_simps(1) [OF hb]
    by (simp add: kfree_def a(1) Let_def s'_def st_def sizeof_mem_block_def)
  moreover have "heap_ok s' bs'"
    using h m'(2) aligned_merge_pass [of "xs @ Blk (bsize b) True # ys"]
    by (auto simp: heap_ok_def s'_def bs'_def)
  moreover have "mem s' x = mem s x" if "unat x \<notin> hdr_bytes ?p bs" for x
    using m'(3) mk(2) that by (simp add: s'_def bs_def)
  ultimately show ?thesis
    by (intro exI [of _ s']) (simp add: same_heap_def s'_def st_def)
qed

end
