(* ===== verification/Mm_Contract.thy ===== *)
theory Mm_Contract
  imports Mm_Heap
begin

text \<open>
  The contract of the allocator, as the locale \<open>allocator\<close>: who holds the regions of memory
  that were handed out, what an allocation and a release do to them, and that writing inside
  one's own region disturbs nobody. The heap of mm.c is an interpretation of it. The IPC
  queues, the sandboxes, the interface registry and the ELF loader use the heap only through
  the facts proved here.
\<close>

definition region :: "nat \<Rightarrow> nat \<Rightarrow> addr set" where
  "region a n = {x. a \<le> unat x \<and> unat x < a + n}"

definition regions :: "(nat \<times> nat) set \<Rightarrow> addr set" where
  "regions L = (\<Union>(a, n) \<in> L. region a n)"

lemma in_region [simp]: "x \<in> region a n \<longleftrightarrow> a \<le> unat x \<and> unat x < a + n"
  by (simp add: region_def)

lemma region_subset_regions: "(a, n) \<in> L \<Longrightarrow> region a n \<subseteq> regions L"
  by (auto simp: regions_def)

lemma regions_insert [simp]: "regions (insert (a, n) L) = region a n \<union> regions L"
  by (auto simp: regions_def)

lemma regions_Un: "regions (A \<union> B) = regions A \<union> regions B"
  by (auto simp: regions_def)

lemma span_region: "unat r + k \<le> 4294967296 \<Longrightarrow> span r k = region (unat r) k"
  by (auto simp: in_span_nowrap)

subsection \<open>The interface\<close>

locale allocator =
  fixes alloc :: "u32 \<Rightarrow> 's \<Rightarrow> (addr \<times> 's) option"
    and release :: "addr \<Rightarrow> 's \<Rightarrow> 's option"
    and memory :: "'s \<Rightarrow> mem"
    and with_memory :: "mem \<Rightarrow> 's \<Rightarrow> 's"
    and arena :: "'s \<Rightarrow> addr set"
    and rest :: "'s \<Rightarrow> 'r"
    and owns :: "'s \<Rightarrow> (nat \<times> nat) set \<Rightarrow> bool"
  assumes memory_with_memory: "memory (with_memory m s) = m"
    and with_memory_twice: "with_memory m (with_memory m' s) = with_memory m s"
    and rest_with_memory: "rest (with_memory m s) = rest s"
    and arena_with_memory: "arena (with_memory m s) = arena s"
    and owns_bounds: "owns s L \<Longrightarrow> (a, n) \<in> L \<Longrightarrow> 0 < a \<and> 0 < n \<and> a + n < 4294967296 \<and> region a n \<subseteq> arena s"
    and owns_disjoint: "owns s L \<Longrightarrow> (a, n) \<in> L \<Longrightarrow> (c, k) \<in> L
      \<Longrightarrow> (a, n) = (c, k) \<or> a + n \<le> c \<or> c + k \<le> a"
    and owns_write: "owns s L \<Longrightarrow> (\<And>x. x \<in> arena s \<Longrightarrow> x \<notin> regions L \<Longrightarrow> m x = memory s x)
      \<Longrightarrow> owns (with_memory m s) L"
    and alloc_returns: "owns s L \<Longrightarrow> 0 < unat sz \<Longrightarrow> unat sz \<le> 4294967288
      \<Longrightarrow> \<exists>r s'. alloc sz s = Some (r, s')"
    and alloc_frame: "owns s L \<Longrightarrow> 0 < unat sz \<Longrightarrow> unat sz \<le> 4294967288
      \<Longrightarrow> alloc sz s = Some (r, s')
      \<Longrightarrow> arena s' = arena s \<and> rest s' = rest s
        \<and> (\<forall>x. x \<in> regions L \<or> x \<notin> arena s \<longrightarrow> memory s' x = memory s x)"
    and alloc_fails: "owns s L \<Longrightarrow> 0 < unat sz \<Longrightarrow> unat sz \<le> 4294967288
      \<Longrightarrow> alloc sz s = Some (NULL, s') \<Longrightarrow> owns s' L \<and> memory s' = memory s"
    and alloc_grants: "owns s L \<Longrightarrow> 0 < unat sz \<Longrightarrow> unat sz \<le> 4294967288
      \<Longrightarrow> alloc sz s = Some (r, s') \<Longrightarrow> r \<noteq> NULL
      \<Longrightarrow> \<exists>n. unat sz \<le> n \<and> (unat r, n) \<notin> L \<and> owns s' (insert (unat r, n) L)"
    and release_owned: "owns s L \<Longrightarrow> (unat r, n) \<in> L
      \<Longrightarrow> \<exists>s'. release r s = Some s' \<and> owns s' (L - {(unat r, n)}) \<and> arena s' = arena s
        \<and> rest s' = rest s
        \<and> (\<forall>x. x \<in> regions L \<or> x \<notin> arena s \<longrightarrow> memory s' x = memory s x)"
begin

lemma owned_span: "owns s L \<Longrightarrow> (unat r, n) \<in> L \<Longrightarrow> k \<le> n \<Longrightarrow> span r k = region (unat r) k"
  using owns_bounds [of s L "unat r" n] by (intro span_region) simp

lemma owned_span_subset: "owns s L \<Longrightarrow> (unat r, n) \<in> L \<Longrightarrow> k \<le> n \<Longrightarrow> span r k \<subseteq> regions L"
  using region_subset_regions [of "unat r" n L] by (auto simp: owned_span)

lemma owned_spans_disjoint:
  assumes "owns s L" "(unat r, n) \<in> L" "(unat q, k) \<in> L" "r \<noteq> q" "i \<le> n" "j \<le> k"
  shows "span r i \<inter> span q j = {}"
  using owns_disjoint [OF assms(1-3)] assms by (auto simp: owned_span word_unat_eq_iff)

lemma owned_arena: "owns s L \<Longrightarrow> regions L \<subseteq> arena s"
  using owns_bounds by (fastforce simp: regions_def)

lemma owned_nonnull: "owns s L \<Longrightarrow> (unat r, n) \<in> L \<Longrightarrow> r \<noteq> NULL"
  using owns_bounds [of s L "unat r" n] by auto

lemma owned_same_start:
  assumes "owns s L" "(a, n) \<in> L" "(a, k) \<in> L"
  shows "n = k"
  using owns_disjoint [OF assms] owns_bounds [OF assms(1,2)] owns_bounds [OF assms(1,3)] by auto

text \<open>The regions of two clients do not overlap.\<close>

lemma owned_regions_disjoint:
  assumes "owns s (A \<union> B)" "A \<inter> B = {}"
  shows "regions A \<inter> regions B = {}"
proof -
  have "region a n \<inter> region b k = {}" if "(a, n) \<in> A" "(b, k) \<in> B" for a n b k
  proof -
    have "(a, n) \<noteq> (b, k)"
      using that assms(2) by blast
    then have "a + n \<le> b \<or> b + k \<le> a"
      using owns_disjoint [OF assms(1), of a n b k] that by blast
    then show ?thesis by auto
  qed
  then show ?thesis
    unfolding regions_def by blast
qed

text \<open>Writing outside the arena, or inside regions one owns, keeps every region.\<close>

lemma owns_write_span:
  assumes "owns s L" "\<And>x. x \<notin> W \<Longrightarrow> m x = memory s x" "W \<inter> arena s \<subseteq> regions L"
  shows "owns (with_memory m s) L"
  using assms by (intro owns_write) auto

text \<open>An allocation followed by a write of \<open>bs\<close> to the start of the new region.\<close>

lemma alloc_fill:
  assumes "owns s L" "0 < unat sz" "unat sz \<le> 4294967288" "alloc sz s = Some (r, s')" "r \<noteq> NULL"
    and "\<And>x. x \<notin> span r (unat sz) \<Longrightarrow> m x = memory s' x"
  shows "\<exists>n. unat sz \<le> n \<and> (unat r, n) \<notin> L \<and> owns (with_memory m s') (insert (unat r, n) L)
    \<and> (\<forall>x. x \<in> regions L \<or> x \<notin> arena s \<longrightarrow> m x = memory s x)"
proof -
  obtain n where n: "unat sz \<le> n" "(unat r, n) \<notin> L" "owns s' (insert (unat r, n) L)"
    using alloc_grants [OF assms(1-5)] by blast
  note fr = alloc_frame [OF assms(1-4)]
  have sp: "span r (unat sz) = region (unat r) (unat sz)"
    using owned_span [OF n(3) _ n(1)] by simp
  have inside: "span r (unat sz) \<subseteq> region (unat r) n"
    using n(1) by (auto simp: sp)
  have fresh: "region (unat r) n \<inter> regions L = {}"
  proof -
    have "x \<notin> region c k" if "(c, k) \<in> L" "x \<in> region (unat r) n" for x c k
      using owns_disjoint [OF n(3), of "unat r" n c k] n(2) that by auto
    then show ?thesis by (auto simp: regions_def)
  qed
  have granted: "region (unat r) n \<subseteq> arena s"
    using owns_bounds [OF n(3), of "unat r" n] fr by simp
  have keep: "m x = memory s x" if x: "x \<in> regions L \<or> x \<notin> arena s" for x
  proof -
    have "x \<notin> span r (unat sz)"
      using x inside fresh granted by blast
    then have "m x = memory s' x"
      by (rule assms(6))
    with fr x show ?thesis by auto
  qed
  have "span r (unat sz) \<inter> arena s' \<subseteq> regions (insert (unat r, n) L)"
    using inside by auto
  with n(3) assms(6) have "owns (with_memory m s') (insert (unat r, n) L)"
    by (rule owns_write_span)
  with n keep show ?thesis by blast
qed

text \<open>Two regions handed out one after the other do not overlap.\<close>

lemma alloc_twice:
  assumes "owns s L" "0 < unat k1" "unat k1 \<le> 4294967288" "alloc k1 s = Some (r1, s1)" "r1 \<noteq> NULL"
    and "0 < unat k2" "unat k2 \<le> 4294967288" "alloc k2 s1 = Some (r2, s2)" "r2 \<noteq> NULL"
  shows "span r1 (unat k1) \<inter> span r2 (unat k2) = {}"
proof -
  obtain n1 where n1: "unat k1 \<le> n1" "owns s1 (insert (unat r1, n1) L)"
    using alloc_grants [OF assms(1-5)] by blast
  obtain n2 where n2: "unat k2 \<le> n2" "(unat r2, n2) \<notin> insert (unat r1, n1) L"
    "owns s2 (insert (unat r2, n2) (insert (unat r1, n1) L))"
    using alloc_grants [OF n1(2) assms(6-9)] by blast
  from owns_disjoint [OF n2(3), of "unat r1" n1 "unat r2" n2] n2 n1(1)
  have "unat r1 + n1 \<le> unat r2 \<or> unat r2 + n2 \<le> unat r1" by auto
  then show ?thesis
    using n1(1) n2(1) owned_span [OF n2(3), of r1 n1 "unat k1"] owned_span [OF n2(3), of r2 n2 "unat k2"]
    by auto
qed

end

subsection \<open>The heap of mm.c provides it\<close>

definition heap_arena :: "'a mm_state_scheme \<Rightarrow> addr set" where
  "heap_arena s = {x. heap_start s \<le> x \<and> x < heap_end s}"

definition heap_owns :: "'a mm_state_scheme \<Rightarrow> (nat \<times> nat) set \<Rightarrow> bool" where
  "heap_owns s L \<longleftrightarrow> (\<exists>bs. heap_ok s bs \<and> stats_ok s bs \<and> L = live (unat (heap_start s)) bs)"

definition with_mem :: "mem \<Rightarrow> 'a mm_state_scheme \<Rightarrow> 'a mm_state_scheme" where
  "with_mem m s = s\<lparr>mem := m\<rparr>"

lemma in_heap_arena: "x \<in> heap_arena s \<longleftrightarrow> unat (heap_start s) \<le> unat x \<and> unat x < unat (heap_end s)"
  by (simp add: heap_arena_def word32_le_nat word32_less_nat)

lemma live_aligned: "(a, n) \<in> live p bs \<Longrightarrow> aligned bs \<Longrightarrow> 0 < n \<and> 8 dvd n"
  by (induction bs arbitrary: p) (auto split: if_splits)

text \<open>The regions in use after an allocation and after a release.\<close>

lemma live_carve:
  "live p (xs @ carve n b @ ys) = (if bfree b
     then insert (p + total xs + 16, bsize (hd (carve n b))) (live p (xs @ b # ys))
     else live p (xs @ carve n b @ ys))"
  by (auto simp: carve_def add.assoc)

lemma live_mark:
  "live p (xs @ Blk k True # ys) = live p (xs @ Blk k False # ys) - {(p + total xs + 16, k)}"
  by (auto dest: live_range)

lemma hdr_bytes_outside:
  assumes "heap_ok s bs" "x \<notin> heap_arena s"
  shows "unat x \<notin> hdr_bytes (unat (heap_start s)) bs"
  using assms(2) heap_okD(6) [OF assms(1)] hdr_bytes_range [of "unat x" "unat (heap_start s)" bs]
  by (auto simp: in_heap_arena)

lemma hdr_bytes_not_live:
  "x \<in> regions (live p bs) \<Longrightarrow> unat x \<notin> hdr_bytes p bs"
  using live_hdr_disjoint by (fastforce simp: regions_def)

lemma same_heap_arena: "same_heap s s' \<Longrightarrow> heap_arena s' = heap_arena s"
  by (simp add: same_heap_def heap_arena_def)


text \<open>Whether a request is granted in a state. A client of the heap succeeds or fails with its
  request, so its specification refers to this; for the heap itself it says that some free block is
  large enough.\<close>

definition heap_grants :: "u32 \<Rightarrow> 'a mm_state_scheme \<Rightarrow> bool" where
  "heap_grants sz s \<longleftrightarrow> (case kmalloc sz s of None \<Rightarrow> False | Some (r, _) \<Rightarrow> r \<noteq> NULL)"

lemma heap_grants_result: "kmalloc sz s = Some (r, s') \<Longrightarrow> heap_grants sz s \<longleftrightarrow> r \<noteq> NULL"
  by (simp add: heap_grants_def)

lemma heap_grants_printk [simp]: "heap_grants sz (printk f s) = heap_grants sz s"
  by (auto simp: heap_grants_def kmalloc_def Let_def bind_eq_Some_conv split: option.splits)

lemma heap_grants_fits:
  assumes "heap_ok s bs" "0 < unat sz" "unat sz \<le> 4294967288"
  shows "heap_grants sz s \<longleftrightarrow> (\<exists>b \<in> set bs. fits (align_nat (unat sz)) b)"
proof -
  have nz: "sz \<noteq> 0"
    using assms(2) by auto
  note h = heap_okD [OF assms(1)]
  show ?thesis
  proof (cases "best_scan (align_nat (unat sz)) bs (unat (heap_start s)) None")
    case None
    with kmalloc_no_fit [OF assms(1) nz assms(3)] show ?thesis
      by (simp add: heap_grants_result best_scan_None)
  next
    case (Some qk)
    obtain q k where qk: "qk = (q, k)" by (cases qk)
    from best_scan_found [OF Some [unfolded qk]] obtain xs b ys where
      b: "bs = xs @ b # ys" "q = unat (heap_start s) + total xs" "fits (align_nat (unat sz)) b"
      by metis
    have "q + 16 < 4294967296"
      using h(2) b(1,2) by auto
    then have "(of_nat (q + 16) :: addr) \<noteq> NULL"
      using of_nat_eq_NULL_iff [of "q + 16"] by (simp del: of_nat_add)
    with kmalloc_fit [OF assms(1) nz assms(3) Some [unfolded qk]] b show ?thesis
      by (auto simp: heap_grants_result simp del: of_nat_add)
  qed
qed

text \<open>\<open>kmalloc\<close> either finds no block and changes nothing but the log, or grants a new region.\<close>

lemma kmalloc_owned:
  assumes "heap_owns s L" "0 < unat sz" "unat sz \<le> 4294967288"
  obtains (fail) "kmalloc sz s = Some (NULL, printk (''kmalloc(%zu) failed! Out of memory'' @ nl) s)"
  | (grant) r n s' where "kmalloc sz s = Some (r, s')" "r \<noteq> NULL" "unat sz \<le> n" "(unat r, n) \<notin> L"
      "heap_owns s' (insert (unat r, n) L)" "same_heap s s'" "8 dvd unat r"
      "\<And>x. x \<in> regions L \<or> x \<notin> heap_arena s \<Longrightarrow> mem s' x = mem s x"
proof -
  let ?p = "unat (heap_start s)" and ?n = "align_nat (unat sz)"
  from assms(1) obtain bs where bs: "heap_ok s bs" "stats_ok s bs" "L = live ?p bs"
    by (auto simp: heap_owns_def)
  note h = heap_okD [OF bs(1)]
  have nz: "sz \<noteq> 0"
    using assms(2) by auto
  show thesis
  proof (cases "best_scan ?n bs ?p None")
    case None
    then show ?thesis
      using fail kmalloc_no_fit [OF bs(1) nz assms(3)] by blast
  next
    case (Some r)
    obtain q k where r: "r = (q, k)" by (cases r)
    note found = Some [unfolded r]
    obtain xs b ys where sp: "bs = xs @ b # ys" "q = ?p + total xs" "fits ?n b"
      using best_scan_found [OF found] by metis
    let ?bs = "xs @ carve ?n b @ ys" and ?k = "bsize (hd (carve ?n b))"
    have q: "q + 16 < 4294967296" "q \<noteq> 0"
      using h(1,2) sp by auto
    have ptr: "unat (of_nat (q + 16) :: addr) = q + 16"
      using q by (intro unat_of_nat32)
    have carved: "carve_at q ?n ?p bs = ?bs"
      using sp by simp
    obtain s' where s': "kmalloc sz s = Some (of_nat (q + 16), s')" "heap_ok s' ?bs" "same_heap s s'"
      "\<And>x. unat x \<notin> hdr_bytes ?p ?bs \<Longrightarrow> mem s' x = mem s x"
      "allocated (mm_stats s') + of_nat (used_bytes bs) = allocated (mm_stats s) + of_nat (used_bytes ?bs)"
      using kmalloc_fit [OF bs(1) nz assms(3) found] unfolding carved by blast
    have free: "bfree b"
      using sp(3) by (simp add: fits_def)
    have live: "live ?p ?bs = insert (q + 16, ?k) L"
      using live_carve [of ?p xs ?n b ys] free sp(1,2) bs(3) by simp
    have stats: "stats_ok s' ?bs"
      using s'(5) bs(2) by (simp add: stats_ok_def)
    have own: "heap_owns s' (insert (unat (of_nat (q + 16) :: addr), ?k) L)"
      unfolding heap_owns_def ptr using s'(2,3) stats live by (auto simp: same_heap_def)
    have fresh: "(unat (of_nat (q + 16) :: addr), ?k) \<notin> L"
      unfolding ptr bs(3) sp(1) using free sp(2) by (auto dest: live_range)
    have size: "unat sz \<le> ?k"
      using align_nat_bounds(1) [of "unat sz"] sp(3) by (auto simp: carve_def fits_def)
    have "8 dvd q + 16"
      using h(8,9) aligned_total [of xs] sp(1,2) by auto
    then have al: "8 dvd unat (of_nat (q + 16) :: addr)"
      unfolding ptr .
    have start: "heap_start s' = heap_start s"
      using s'(3) by (simp add: same_heap_def)
    have keep: "mem s' x = mem s x" if x: "x \<in> regions L \<or> x \<notin> heap_arena s" for x
    proof (rule s'(4))
      have "regions L \<subseteq> regions (live ?p ?bs)"
        unfolding live by simp
      with x show "unat x \<notin> hdr_bytes ?p ?bs"
        using hdr_bytes_not_live [of x ?p ?bs] hdr_bytes_outside [OF s'(2), of x]
        unfolding start same_heap_arena [OF s'(3)] by blast
    qed
    have "(of_nat (q + 16) :: addr) \<noteq> NULL"
      using q(1) of_nat_eq_NULL_iff [of "q + 16"] by linarith
    from grant [OF s'(1) this size fresh own s'(3) al keep] show ?thesis .
  qed
qed

text \<open>\<open>kfree\<close> on the start of a region in use takes the region back.\<close>

lemma kfree_owned:
  assumes "heap_owns s L" "(unat r, n) \<in> L"
  obtains s' where "kfree r s = Some s'" "heap_owns s' (L - {(unat r, n)})" "same_heap s s'"
    "klog s' = klog s"
    "\<And>x. x \<in> regions L \<or> x \<notin> heap_arena s \<Longrightarrow> mem s' x = mem s x"
proof -
  let ?p = "unat (heap_start s)"
  from assms(1) obtain bs where bs: "heap_ok s bs" "stats_ok s bs" "L = live ?p bs"
    by (auto simp: heap_owns_def)
  from assms(2) bs(3) obtain xs ys where sp: "bs = xs @ Blk n False # ys" "unat r = ?p + total xs + 16"
    by (auto elim: live_split)
  let ?bs = "merge_pass (xs @ Blk n True # ys)"
  have r: "of_nat (?p + total xs + 16) = r"
    unfolding sp(2) [symmetric] by simp
  from kfree_block [OF bs(1) [unfolded sp(1)]] obtain s' where
    s': "kfree r s = Some s'" "heap_ok s' ?bs" "same_heap s s'" "klog s' = klog s"
      "\<And>x. unat x \<notin> hdr_bytes ?p bs \<Longrightarrow> mem s' x = mem s x"
      "allocated (mm_stats s') = allocated (mm_stats s) - of_nat (n + 16)"
    unfolding r blk.sel sp(1) [symmetric] by blast
  have "stats_ok s' ?bs"
    using s'(6) bs(2) by (simp add: stats_ok_def sp(1))
  moreover have "live ?p ?bs = L - {(unat r, n)}"
    using live_mark [of ?p xs n ys] bs(3) sp by simp
  ultimately have own: "heap_owns s' (L - {(unat r, n)})"
    unfolding heap_owns_def using s'(2,3) by (auto simp: same_heap_def)
  have "mem s' x = mem s x" if "x \<in> regions L \<or> x \<notin> heap_arena s" for x
    using that s'(5) hdr_bytes_not_live [of x ?p bs] hdr_bytes_outside [OF bs(1), of x] bs(3) by auto
  from that [OF s'(1) own s'(3,4) this] show thesis .
qed

lemma kfree_counts:
  assumes "heap_owns s L" "(unat r, n) \<in> L"
  shows "\<exists>s'. kfree r s = Some s' \<and> allocated (mm_stats s') = allocated (mm_stats s) - of_nat (n + 16)
    \<and> alloc_count (mm_stats s') = alloc_count (mm_stats s)
    \<and> free_count (mm_stats s') = free_count (mm_stats s) + 1"
proof -
  let ?p = "unat (heap_start s)"
  from assms obtain bs where bs: "heap_ok s bs" "(unat r, n) \<in> live ?p bs"
    by (auto simp: heap_owns_def)
  from bs(2) obtain xs ys where sp: "bs = xs @ Blk n False # ys" "unat r = ?p + total xs + 16"
    by (rule live_split)
  have r: "of_nat (?p + total xs + 16) = r"
    unfolding sp(2) [symmetric] by simp
  from kfree_block [OF bs(1) [unfolded sp(1)]] show ?thesis
    unfolding r blk.sel by blast
qed

text \<open>The header in front of a region in use, and the counter of allocated bytes.\<close>

lemma heap_owns_header:
  assumes "heap_owns s L" "(unat r, n) \<in> L"
  shows "is_valid_pointer r s" "\<not> blk_free (mem s) (r - 16)" "blk_size (mem s) (r - 16) = of_nat n"
    "unat (blk_size (mem s) (r - 16)) = n" "r \<noteq> NULL"
proof -
  let ?p = "unat (heap_start s)"
  from assms obtain bs where ok: "heap_ok s bs" and r: "(unat r, n) \<in> live ?p bs"
    by (auto simp: heap_owns_def)
  note h = heap_okD [OF ok]
  from r obtain xs ys where bs: "bs = xs @ Blk n False # ys" and a: "unat r = ?p + total xs + 16"
    by (rule live_split)
  have "of_nat (?p + total xs + 16) = r"
    unfolding a [symmetric] by simp
  then have q: "r - 16 = of_nat (?p + total xs)"
    by (auto simp: algebra_simps)
  from h(3) obtain nx where hb: "hdr_at (mem s) (?p + total xs) (Blk n False) nx"
    unfolding bs by auto
  show nn: "r \<noteq> NULL"
    using a by (auto simp: word_unat_eq_iff)
  have lt: "n < 4294967296" "unat r < unat (heap_end s)" "?p \<le> unat r"
    using h(2,6,9) bs a by (auto simp: bs)
  show "is_valid_pointer r s"
    using nn lt hdr_at_simps(4) [OF hb]
    by (simp add: is_valid_pointer_def word32_less_nat word32_le_nat sizeof_mem_block_def q)
  show "\<not> blk_free (mem s) (r - 16)" "blk_size (mem s) (r - 16) = of_nat n"
    "unat (blk_size (mem s) (r - 16)) = n"
    using hdr_at_simps(1,3) [OF hb] lt(1) by (simp_all add: q unat_of_nat32)
qed

lemma finite_live: "finite (live p bs)"
  by (induction bs arbitrary: p) auto

lemma used_bytes_live: "used_bytes bs = (\<Sum>(a, n) \<in> live p bs. n + 16)"
proof (induction bs arbitrary: p)
  case Nil
  then show ?case by simp
next
  case (Cons b bs)
  have "(p + 16, bsize b) \<notin> live (p + 16 + bsize b) bs"
    by (auto dest: live_range)
  with Cons.IH [of "p + 16 + bsize b"] show ?case
    by (auto simp: finite_live)
qed

lemma heap_owns_counter:
  assumes "heap_owns s L"
  shows "finite L" "allocated (mm_stats s) = of_nat (\<Sum>(a, n) \<in> L. n + 16)"
proof -
  from assms obtain bs where bs: "stats_ok s bs" "L = live (unat (heap_start s)) bs"
    by (auto simp: heap_owns_def)
  show "finite L"
    by (simp add: bs(2) finite_live)
  show "allocated (mm_stats s) = of_nat (\<Sum>(a, n) \<in> L. n + 16)"
    using bs(1) unfolding stats_ok_def bs(2) used_bytes_live [of bs "unat (heap_start s)"] .
qed

lemma heap_owns_bounds:
  assumes "heap_owns s L" "(a, n) \<in> L"
  shows "0 < a \<and> 0 < n \<and> a + n < 4294967296 \<and> region a n \<subseteq> heap_arena s"
proof -
  from assms obtain bs where bs: "heap_ok s bs" "(a, n) \<in> live (unat (heap_start s)) bs"
    by (auto simp: heap_owns_def)
  note h = heap_okD [OF bs(1)]
  show ?thesis
    using live_range [OF bs(2)] live_aligned [OF bs(2) h(9)] h(2,6) by (auto simp: in_heap_arena)
qed

lemma heap_owns_disjoint:
  assumes "heap_owns s L" "(a, n) \<in> L" "(c, k) \<in> L"
  shows "(a, n) = (c, k) \<or> a + n \<le> c \<or> c + k \<le> a"
  using assms live_disjoint [of a n _ _ c k] by (fastforce simp: heap_owns_def)

lemma heap_owns_write:
  assumes "heap_owns s L" "\<And>x. x \<in> heap_arena s \<Longrightarrow> x \<notin> regions L \<Longrightarrow> m x = mem s x"
  shows "heap_owns (with_mem m s) L"
proof -
  from assms(1) obtain bs where bs: "heap_ok s bs" "stats_ok s bs" "L = live (unat (heap_start s)) bs"
    by (auto simp: heap_owns_def)
  have "m x = mem s x" if "unat x \<in> hdr_bytes (unat (heap_start s)) bs" for x
    using that assms(2) [of x] hdr_bytes_not_live [of x "unat (heap_start s)" bs]
      hdr_bytes_outside [OF bs(1), of x] bs(3) by blast
  then have "heap_ok (s\<lparr>mem := m\<rparr>) bs"
    by (intro heap_ok_frame [OF bs(1)])
  with bs show ?thesis
    by (auto simp: heap_owns_def with_mem_def stats_ok_def)
qed

lemma heap_owns_printk [simp]: "heap_owns (printk f s) L \<longleftrightarrow> heap_owns s L"
  by (simp add: heap_owns_def heap_ok_def stats_ok_def)

lemma heap_arena_printk [simp]: "heap_arena (printk f s) = heap_arena s"
  by (simp add: heap_arena_def)

lemma with_mem_simps [simp]:
  "mem (with_mem m s) = m" "klog (with_mem m s) = klog s" "with_mem m (with_mem m' s) = with_mem m s"
  "heap_arena (with_mem m s) = heap_arena s" "mm_state.more (with_mem m s) = mm_state.more s"
  "heap_start (with_mem m s) = heap_start s" "heap_end (with_mem m s) = heap_end s"
  by (simp_all add: with_mem_def heap_arena_def)

interpretation mm: allocator kmalloc kfree mem with_mem heap_arena mm_state.more heap_owns
proof (unfold_locales, goal_cases)
  case (7 s L m)
  then show ?case by (rule heap_owns_write)
next
  case (8 s L sz)
  then show ?case by (rule kmalloc_owned) auto
next
  case (9 s L sz r s')
  from 9(1-3) show ?case
    by (rule kmalloc_owned) (use 9(4) in \<open>auto simp: same_heap_def heap_arena_def\<close>)
next
  case (10 s L sz s')
  from 10(1-3) show ?case
    by (rule kmalloc_owned) (use 10(1,4) in \<open>auto simp: heap_owns_def stats_ok_def\<close>)
next
  case (11 s L sz r s')
  from 11(1-3) show ?case
    by (rule kmalloc_owned) (use 11(4,5) in auto)
next
  case (12 s L r n)
  then obtain s' where s': "kfree r s = Some s'" "heap_owns s' (L - {(unat r, n)})" "same_heap s s'"
    "\<And>x. x \<in> regions L \<or> x \<notin> heap_arena s \<Longrightarrow> mem s' x = mem s x"
    using kfree_owned by metis
  have "heap_arena s' = heap_arena s" "mm_state.more s' = mm_state.more s"
    using same_heap_arena [OF s'(3)] s'(3) by (simp_all add: same_heap_def)
  with s' show ?case by blast
next
  case (5 s L a n)
  then show ?case by (rule heap_owns_bounds)
next
  case (6 s L a n c k)
  then show ?case by (rule heap_owns_disjoint)
qed (simp_all add: with_mem_def heap_arena_def)

end
