(* ===== verification/Mm_Props.thy ===== *)
theory Mm_Props
  imports Mm_Contract
begin

text \<open>
  The properties of the kernel heap (kernel/src/mm/mm.c), each with a witness on the heap that
  \<open>mm_init\<close> builds on a machine with 64 MB.
\<close>

subsection \<open>Initialisation\<close>

lemma unat_and_not_4095: "unat (x AND NOT 4095 :: u32) = unat x div 4096 * 4096"
  using unat_and_not_mask [of x 12] by (simp add: mask_eq_exp_minus_1)

lemma heap_base_aligned: "4096 dvd unat (heap_base k)"
  unfolding heap_base_def unat_and_not_4095 by simp

lemma available_memory_aligned: "1024 dvd unat (available_memory m i)"
proof -
  have "1024 dvd unat (x * 1024 :: u32)" for x
    by (simp add: unat_word_ariths dvd_mod)
  moreover have "1024 dvd unat (64 * 1024 * 1024 :: u32)"
    by simp
  ultimately show ?thesis
    unfolding available_memory_def by presburger
qed

text \<open>The size of the heap that \<open>mm_init\<close> sets up.\<close>

definition chosen_heap_size :: "mem \<Rightarrow> addr \<Rightarrow> addr \<Rightarrow> u32" where
  "chosen_heap_size m kernel_end mb_info =
     min HEAP_SIZE (available_memory m mb_info - heap_base kernel_end)"

lemma mm_init_fields:
  fixes s :: "'a mm_state_scheme" and kernel_end mb_info :: addr
  defines "s' \<equiv> mm_init kernel_end mb_info s" and "h \<equiv> heap_base kernel_end"
    and "n \<equiv> chosen_heap_size (mem s) kernel_end mb_info"
  shows "heap_start s' = h" "heap_end s' = h + n" "first_block s' = h"
    "mm_stats s' = \<lparr>total_memory = available_memory (mem s) mb_info, heap_size = n,
        allocated = 0, alloc_count = 0, free_count = 0\<rparr>"
    "mem s' = set_blk_magic (set_blk_free (set_blk_next (set_blk_size (mem s) h (n - 16)) h NULL) h True) h BLOCK_MAGIC"
    "mm_state.more s' = mm_state.more s"
  unfolding s'_def h_def n_def
  by (auto simp: mm_init_def init_heap_def Let_def chosen_heap_size_def min_def sizeof_mem_block_def)

lemma mm_init_other:
  assumes "unat (heap_base kernel_end) + 16 \<le> 4294967296"
    "unat x \<notin> {unat (heap_base kernel_end) ..< unat (heap_base kernel_end) + 16}"
  shows "mem (mm_init kernel_end mb_info s) x = mem s x"
  using set_blk_other [OF assms] by (simp add: mm_init_fields)

lemma mm_init_blocks:
  fixes s :: "'a mm_state_scheme" and kernel_end mb_info :: addr
  defines "s' \<equiv> mm_init kernel_end mb_info s"
    and "n \<equiv> unat (chosen_heap_size (mem s) kernel_end mb_info)"
  assumes base: "heap_base kernel_end \<noteq> NULL"
    and dvd: "1024 dvd n" and pos: "0 < n" and fits: "unat (heap_base kernel_end) + n < 4294967296"
  shows "heap_ok s' [Blk (n - 16) True]" "stats_ok s' [Blk (n - 16) True]"
proof -
  let ?h = "heap_base kernel_end" and ?n = "chosen_heap_size (mem s) kernel_end mb_info"
  from dvd pos have big: "1024 \<le> n"
    by (rule dvd_imp_le)
  have "8 dvd n"
    using dvd by (rule dvd_trans [rotated]) simp
  then have al: "8 dvd n - 16"
    by (intro dvd_diff_nat) auto
  have "(of_nat n :: addr) = ?n"
    by (simp add: n_def)
  then have n16: "?n - 16 = of_nat (n - 16)"
    using big by (simp add: of_nat_diff)
  have h0: "of_nat (unat ?h) = ?h"
    by simp
  have "hdr_at (mem s') (unat ?h) (Blk (n - 16) True) NULL"
    unfolding hdr_at_def s'_def mm_init_fields h0 n16 by simp
  moreover have "8 dvd unat ?h"
    using heap_base_aligned [of kernel_end] by (rule dvd_trans [rotated]) simp
  moreover have "unat (?h + ?n) = unat ?h + n"
    using fits by (simp add: n_def unat_add_nowrap)
  ultimately show "heap_ok s' [Blk (n - 16) True]"
    using base big al by (simp add: heap_ok_def s'_def mm_init_fields)
  show "stats_ok s' [Blk (n - 16) True]"
    by (simp add: stats_ok_def s'_def mm_init_fields)
qed

lemma mm_init_heap_ok:
  fixes s :: "'a mm_state_scheme" and kernel_end mb_info :: addr
  assumes base: "heap_base kernel_end \<noteq> NULL"
    and room: "heap_base kernel_end < available_memory (mem s) mb_info"
  defines "s' \<equiv> mm_init kernel_end mb_info s"
    and "n \<equiv> unat (chosen_heap_size (mem s) kernel_end mb_info)"
  shows "heap_ok s' [Blk (n - 16) True]" "stats_ok s' [Blk (n - 16) True]"
proof -
  let ?h = "heap_base kernel_end" and ?A = "available_memory (mem s) mb_info"
  have diff: "unat (?A - ?h) = unat ?A - unat ?h"
    using room by (intro unat_diff_le) simp
  have n: "n = min 2097152 (unat ?A - unat ?h)"
    unfolding n_def chosen_heap_size_def min_def word32_le_nat diff by (simp add: diff HEAP_SIZE_def)
  have "1024 dvd unat ?h"
    using heap_base_aligned [of kernel_end] by (rule dvd_trans [rotated]) simp
  then have "1024 dvd unat ?A - unat ?h"
    using available_memory_aligned by (rule dvd_diff_nat [rotated])
  then have "1024 dvd n"
    unfolding n by (auto simp: min_def)
  moreover have "0 < n"
    using room unfolding n by (simp add: word32_less_nat)
  moreover have "unat ?h + n < 4294967296"
    using room unat32_less [of ?A] unfolding n by (auto simp: word32_less_nat)
  ultimately show "heap_ok s' [Blk (n - 16) True]" "stats_ok s' [Blk (n - 16) True]"
    unfolding s'_def n_def by (rule mm_init_blocks [OF base])+
qed

text \<open>C1: \<open>mm_init\<close> builds a well-formed heap. When the memory the boot loader reports reaches
  beyond the page after the kernel, the heap starts on that page, holds one free block, its size
  is the smaller of 2 MB and what is left of memory, it ends inside the reported memory, and no
  byte outside the header of that block was written.\<close>

theorem mm_init_establishes_heap:
  fixes s :: "'a mm_state_scheme" and kernel_end mb_info :: addr
  assumes "heap_base kernel_end \<noteq> NULL" "heap_base kernel_end < available_memory (mem s) mb_info"
  defines "s' \<equiv> mm_init kernel_end mb_info s" and "h \<equiv> unat (heap_base kernel_end)"
    and "n \<equiv> min 2097152 (unat (available_memory (mem s) mb_info) - unat (heap_base kernel_end))"
  shows "heap_ok s' [Blk (n - 16) True] \<and> stats_ok s' [Blk (n - 16) True] \<and> heap_owns s' {}
    \<and> unat (heap_start s') = h \<and> unat (heap_end s') = h + n
    \<and> unat (heap_end s') \<le> unat (available_memory (mem s) mb_info)
    \<and> (\<forall>x. unat x \<notin> {h ..< h + 16} \<longrightarrow> mem s' x = mem s x)"
proof -
  have n: "n = unat (chosen_heap_size (mem s) kernel_end mb_info)"
    using assms(2) unfolding n_def chosen_heap_size_def min_def word32_le_nat
    by (simp add: unat_diff_le HEAP_SIZE_def)
  note ok = mm_init_heap_ok [OF assms(1,2), folded s'_def n]
  have start: "unat (heap_start s') = h"
    by (simp add: s'_def h_def mm_init_fields)
  have npos: "n - 16 + 16 = n"
    using heap_okD(9) [OF ok(1)] by auto
  have ende: "unat (heap_end s') = h + n"
    using heap_okD(6) [OF ok(1)] npos by (simp add: start)
  have keep: "mem s' x = mem s x" if "unat x \<notin> {h ..< h + 16}" for x
    using that heap_okD(6) [OF ok(1)] unat32_less [of "heap_end s'"] start
    unfolding s'_def h_def by (intro mm_init_other) auto
  have "heap_owns s' {}"
    unfolding heap_owns_def using ok by (intro exI [of _ "[Blk (n - 16) True]"]) simp
  moreover have "h + n \<le> unat (available_memory (mem s) mb_info)"
    using assms(2) by (auto simp: h_def n_def word32_less_nat)
  ultimately show ?thesis
    using ok start ende keep by simp
qed

text \<open>A machine whose boot loader left no memory map: mm.c then assumes 64 MB.\<close>

definition blank_mm_state :: mm_state where
  "blank_mm_state = \<lparr>mem = (\<lambda>_. 0), klog = [], io = [], heap_start = NULL, heap_end = NULL, first_block = NULL,
     mm_stats = \<lparr>total_memory = 0, heap_size = 0, allocated = 0, alloc_count = 0, free_count = 0\<rparr>\<rparr>"

definition booted :: mm_state where
  "booted = mm_init 0x120000 0x9000 blank_mm_state"

lemma blank_room:
  "heap_base 0x120000 \<noteq> NULL" "heap_base 0x120000 < available_memory (mem blank_mm_state) 0x9000"
  by (simp_all add: heap_base_def available_memory_def blank_mm_state_def mb_flags_def load32_def)

lemma booted_fields:
  "heap_start booted = 0x120000" "heap_end booted = 0x320000"
  by (simp_all add: booted_def mm_init_fields heap_base_def chosen_heap_size_def available_memory_def
      blank_mm_state_def mb_flags_def load32_def HEAP_SIZE_def)

lemma booted_stats:
  "mm_stats booted = \<lparr>total_memory = 0x4000000, heap_size = 0x200000, allocated = 0, alloc_count = 0, free_count = 0\<rparr>"
  by (simp add: booted_def mm_init_fields heap_base_def chosen_heap_size_def available_memory_def
      blank_mm_state_def mb_flags_def load32_def HEAP_SIZE_def)

lemma booted_ok: "heap_ok booted [Blk 2097136 True]" "stats_ok booted [Blk 2097136 True]"
  using mm_init_heap_ok [OF blank_room]
  by (simp_all add: booted_def chosen_heap_size_def heap_base_def available_memory_def
      blank_mm_state_def mb_flags_def load32_def HEAP_SIZE_def)

lemma booted_owns: "heap_owns booted {}"
  unfolding heap_owns_def using booted_ok by (intro exI [of _ "[Blk 2097136 True]"]) simp

text \<open>The same heap above any memory in which the boot loader reports no memory map at 0x9000; the
  witnesses of the other components use it.\<close>

lemma booted_over:
  fixes s :: "'a mm_state_scheme"
  assumes "load32 (mem s) 0x9000 = 0"
  defines "t \<equiv> mm_init 0x120000 0x9000 s"
  shows "heap_ok t [Blk 2097136 True]" "stats_ok t [Blk 2097136 True]" "heap_start t = 0x120000"
    "heap_arena t = {x. 0x120000 \<le> x \<and> x < 0x320000}" "mm_state.more t = mm_state.more s"
    "unat x < 0x120000 \<Longrightarrow> mem t x = mem s x"
proof -
  have room: "heap_base 0x120000 \<noteq> NULL" "heap_base 0x120000 < available_memory (mem s) 0x9000"
    "chosen_heap_size (mem s) 0x120000 0x9000 = 0x200000"
    using assms(1) by (simp_all add: heap_base_def available_memory_def mb_flags_def chosen_heap_size_def HEAP_SIZE_def)
  from mm_init_heap_ok [OF room(1,2)] show "heap_ok t [Blk 2097136 True]" "stats_ok t [Blk 2097136 True]"
    by (simp_all add: t_def room(3))
  show "heap_start t = 0x120000" "heap_arena t = {x. 0x120000 \<le> x \<and> x < 0x320000}"
    by (simp_all add: t_def heap_arena_def mm_init_fields room(3)) (simp_all add: heap_base_def)
  show "mm_state.more t = mm_state.more s"
    unfolding t_def by (rule mm_init_fields)
  assume "unat x < 0x120000"
  then show "mem t x = mem s x"
    unfolding t_def by (subst mm_init_other) (simp_all add: heap_base_def)
qed

theorem mm_init_establishes_heap_witness:
  "unat (heap_end (mm_init 0x120000 0x9000 blank_mm_state)) = 0x320000
   \<and> heap_owns (mm_init 0x120000 0x9000 blank_mm_state) {}"
  using mm_init_establishes_heap [OF blank_room]
  by (simp add: heap_base_def available_memory_def blank_mm_state_def mb_flags_def load32_def)

subsection \<open>kmalloc\<close>

text \<open>C2: \<open>kmalloc\<close> refines best-fit allocation on the list of blocks. On a well-formed heap and
  for every size from 1 to \<open>2^32 - 8\<close> it returns, the pointer is the one \<open>alloc_abs\<close> gives for
  the rounded size (NULL where it gives none), and the new heap is well formed with the list of
  blocks \<open>alloc_abs\<close> gives. Every field of the statistics is exact: the counter of allocated bytes
  is that of the blocks in use, the counter of allocations goes up by one with a block and stays
  without one, the counter of releases, the total and the heap size stay. Without a block nothing
  but the log changes.\<close>

theorem kmalloc_refines:
  assumes "heap_ok s bs" "stats_ok s bs" "0 < unat sz" "unat sz \<le> 4294967288"
  defines "r \<equiv> alloc_abs (align_nat (unat sz)) (unat (heap_start s)) bs"
  shows "\<exists>s'. kmalloc sz s = Some (case fst r of None \<Rightarrow> NULL | Some a \<Rightarrow> of_nat a, s')
    \<and> heap_ok s' (snd r) \<and> stats_ok s' (snd r) \<and> same_heap s s'
    \<and> alloc_count (mm_stats s') = alloc_count (mm_stats s) + (case fst r of None \<Rightarrow> 0 | Some a \<Rightarrow> 1)
    \<and> free_count (mm_stats s') = free_count (mm_stats s)
    \<and> (fst r = None \<longrightarrow> s' = printk (''kmalloc(%zu) failed! Out of memory'' @ nl) s)"
proof -
  have nz: "sz \<noteq> 0"
    using assms(3) by auto
  show ?thesis
  proof (cases "best_scan (align_nat (unat sz)) bs (unat (heap_start s)) None")
    case None
    with kmalloc_no_fit [OF assms(1) nz assms(4)] assms(1,2) show ?thesis
      by (simp add: r_def alloc_abs_def stats_ok_def)
  next
    case (Some qk)
    obtain q k where qk: "qk = (q, k)" by (cases qk)
    from kmalloc_fit [OF assms(1) nz assms(4) Some [unfolded qk]] obtain s' where
      "kmalloc sz s = Some (of_nat (q + 16), s')"
      "heap_ok s' (carve_at q (align_nat (unat sz)) (unat (heap_start s)) bs)" "same_heap s s'"
      "allocated (mm_stats s') + of_nat (used_bytes bs) = allocated (mm_stats s)
         + of_nat (used_bytes (carve_at q (align_nat (unat sz)) (unat (heap_start s)) bs))"
      "alloc_count (mm_stats s') = alloc_count (mm_stats s) + 1"
      "free_count (mm_stats s') = free_count (mm_stats s)"
      by blast
    with assms(2) Some qk show ?thesis
      by (auto simp: r_def alloc_abs_def stats_ok_def)
  qed
qed

theorem kmalloc_refines_witness:
  "\<exists>s'. kmalloc 100 booted = Some (0x120010, s') \<and> heap_ok s' [Blk 104 False, Blk 2097016 True]
     \<and> alloc_count (mm_stats s') = 1"
  using kmalloc_refines [OF booted_ok, of 100]
  by (auto simp: alloc_abs_def align_nat_def booted_fields carve_def booted_stats)

text \<open>\<open>kmalloc\<close> is best fit. It returns NULL exactly when no free block is large enough for
  the rounded size; otherwise the block it returns is free, large enough and the smallest such
  block, and the first of that size.\<close>

theorem kmalloc_best_fit:
  assumes "heap_ok s bs" "0 < unat sz" "unat sz \<le> 4294967288" "kmalloc sz s = Some (r, s')"
  defines "n \<equiv> align_nat (unat sz)"
  shows "(r = NULL \<longleftrightarrow> (\<forall>b \<in> set bs. \<not> fits n b))
    \<and> (r \<noteq> NULL \<longrightarrow> (\<exists>xs b ys. bs = xs @ b # ys \<and> unat r = unat (heap_start s) + total xs + 16
          \<and> fits n b \<and> (\<forall>c \<in> set bs. fits n c \<longrightarrow> bsize b \<le> bsize c)
          \<and> (\<forall>c \<in> set xs. fits n c \<longrightarrow> bsize b < bsize c)))"
proof -
  have nz: "sz \<noteq> 0"
    using assms(2) by auto
  note h = heap_okD [OF assms(1)]
  show ?thesis
  proof (cases "best_scan n bs (unat (heap_start s)) None")
    case None
    with kmalloc_no_fit [OF assms(1) nz assms(3)] assms(4) have "r = NULL"
      by (simp add: n_def)
    with None show ?thesis
      by (simp add: best_scan_None)
  next
    case (Some qk)
    obtain q k where qk: "qk = (q, k)" by (cases qk)
    from best_scan_found [OF Some [unfolded qk]] obtain xs b ys where
      b: "bs = xs @ b # ys" "q = unat (heap_start s) + total xs" "fits n b"
        "\<forall>c \<in> set xs. fits n c \<longrightarrow> bsize b < bsize c" "\<forall>c \<in> set ys. fits n c \<longrightarrow> bsize b \<le> bsize c"
      by metis
    from kmalloc_fit [OF assms(1) nz assms(3), folded n_def, OF Some [unfolded qk]] assms(4)
    have r: "r = of_nat (q + 16)" by auto
    have "q + 16 < 4294967296"
      using h(2) b(1,2) by auto
    then have r': "unat r = q + 16" "r \<noteq> NULL"
      using of_nat_eq_NULL_iff [of "q + 16"] by (simp_all add: r del: of_nat_add)
    have "\<forall>c \<in> set bs. fits n c \<longrightarrow> bsize b \<le> bsize c"
      using b by auto
    with b r' show ?thesis
      by (intro conjI impI exI [of _ xs] exI [of _ b] exI [of _ ys]) auto
  qed
qed

theorem kmalloc_best_fit_witness:
  "\<exists>r s'. kmalloc 100 booted = Some (r, s') \<and> r \<noteq> NULL"
proof -
  obtain r s' where k: "kmalloc 100 booted = Some (r, s')"
    using mm.alloc_returns [OF booted_owns, of 100] by auto
  have "fits (align_nat (unat (100 :: u32))) (Blk 2097136 True)"
    by (simp add: fits_def align_nat_def)
  with k kmalloc_best_fit [OF booted_ok(1) _ _ k] show ?thesis
    by auto
qed

text \<open>C3: What a caller of \<open>kmalloc\<close> may rely on. On a heap with the regions \<open>L\<close> in use and for every
  size from 1 to \<open>2^32 - 8\<close> it returns. NULL means that no free block of the heap is large enough,
  and then nothing but the log has changed. Any other result is 8-byte aligned and points to at
  least the requested bytes inside the heap, these bytes overlap no region in use, the regions in
  use afterwards are \<open>L\<close> and the new one, and no byte of a region in use and no byte outside the
  heap has changed.\<close>

theorem kmalloc_contract:
  assumes "heap_owns s L" "0 < unat sz" "unat sz \<le> 4294967288"
  shows "\<exists>r s'. kmalloc sz s = Some (r, s')
    \<and> (\<forall>bs. heap_ok s bs \<longrightarrow> (r = NULL \<longleftrightarrow> (\<forall>b \<in> set bs. \<not> fits (align_nat (unat sz)) b)))
    \<and> (if r = NULL then s' = printk (''kmalloc(%zu) failed! Out of memory'' @ nl) s
       else \<exists>n. unat sz \<le> n \<and> 8 dvd unat r \<and> heap_owns s' (insert (unat r, n) L)
         \<and> region (unat r) n \<subseteq> heap_arena s \<and> region (unat r) n \<inter> regions L = {}
         \<and> (\<forall>x. x \<in> regions L \<or> x \<notin> heap_arena s \<longrightarrow> mem s' x = mem s x))"
  using assms
proof (cases rule: kmalloc_owned)
  case fail
  with heap_grants_fits [OF _ assms(2,3), of s] heap_grants_result [OF fail] show ?thesis
    by auto
next
  case (grant r n s')
  have sub: "region (unat r) n \<subseteq> heap_arena s"
    using heap_owns_bounds [OF grant(5), of "unat r" n] same_heap_arena [OF grant(6)] by simp
  have "x \<notin> region (unat r) n" if "x \<in> regions L" for x
  proof -
    from that obtain c k where ck: "(c, k) \<in> L" "x \<in> region c k"
      by (auto simp: regions_def)
    with grant(4) heap_owns_disjoint [OF grant(5), of "unat r" n c k] show ?thesis
      by auto
  qed
  then have "region (unat r) n \<inter> regions L = {}" by blast
  with grant sub have "\<exists>n. unat sz \<le> n \<and> 8 dvd unat r \<and> heap_owns s' (insert (unat r, n) L)
      \<and> region (unat r) n \<subseteq> heap_arena s \<and> region (unat r) n \<inter> regions L = {}
      \<and> (\<forall>x. x \<in> regions L \<or> x \<notin> heap_arena s \<longrightarrow> mem s' x = mem s x)"
    by blast
  moreover have "\<forall>bs. heap_ok s bs \<longrightarrow> (r = NULL \<longleftrightarrow> (\<forall>b \<in> set bs. \<not> fits (align_nat (unat sz)) b))"
    using heap_grants_fits [OF _ assms(2,3), of s] heap_grants_result [OF grant(1)] by auto
  ultimately show ?thesis
    using grant(1,2) by auto
qed

theorem kmalloc_contract_witness:
  "(\<exists>r s' n. kmalloc 100 booted = Some (r, s') \<and> 100 \<le> n \<and> heap_owns s' {(unat r, n)})
   \<and> (\<exists>s'. kmalloc 0x200000 booted = Some (NULL, s') \<and> mem s' = mem booted)"
proof (rule conjI)
  have "\<not> (\<forall>b \<in> set [Blk 2097136 True]. \<not> fits (align_nat (unat (100 :: u32))) b)"
    by (simp add: fits_def align_nat_def)
  with kmalloc_contract [OF booted_owns, of 100] booted_ok(1)
  show "\<exists>r s' n. kmalloc 100 booted = Some (r, s') \<and> 100 \<le> n \<and> heap_owns s' {(unat r, n)}"
    by (auto split: if_splits)
  have "\<forall>b \<in> set [Blk 2097136 True]. \<not> fits (align_nat (unat (0x200000 :: u32))) b"
    by (simp add: fits_def align_nat_def)
  with kmalloc_contract [OF booted_owns, of "0x200000"] booted_ok(1)
  show "\<exists>s'. kmalloc 0x200000 booted = Some (NULL, s') \<and> mem s' = mem booted"
    by (auto split: if_splits)
qed

text \<open>A step of \<open>kmalloc\<close> or \<open>kfree\<close> on a heap whose blocks are known.\<close>

lemma kmalloc_blocks:
  assumes "heap_ok s bs" "stats_ok s bs" "0 < unat sz" "unat sz \<le> 4294967288"
    "alloc_abs (align_nat (unat sz)) (unat (heap_start s)) bs = (Some a, bs')"
  obtains s' where "kmalloc sz s = Some (of_nat a, s')" "heap_ok s' bs'" "stats_ok s' bs'"
    "heap_start s' = heap_start s"
  using kmalloc_fit [OF assms(1) _ assms(4)] assms(2,3,5)
  by (fastforce simp: alloc_abs_def stats_ok_def same_heap_def split: option.splits)

lemma kfree_blocks:
  assumes "heap_ok s (xs @ Blk k False # ys)" "stats_ok s (xs @ Blk k False # ys)"
    "a = unat (heap_start s) + total xs + 16" "bs' = merge_pass (xs @ Blk k True # ys)"
  obtains s' where "kfree (of_nat a) s = Some s'" "heap_ok s' bs'" "stats_ok s' bs'"
    "heap_start s' = heap_start s"
proof -
  from kfree_block [OF assms(1)] obtain s' where s': "kfree (of_nat a) s = Some s'" "heap_ok s' bs'"
    "same_heap s s'" "allocated (mm_stats s') = allocated (mm_stats s) - of_nat (k + 16)"
    unfolding assms(3,4) blk.sel by blast
  moreover have "stats_ok s' bs'"
    using s'(4) assms(2) by (simp add: stats_ok_def assms(4))
  ultimately show thesis
    using that by (simp add: same_heap_def)
qed

lemma booted_alloc100:
  "\<exists>s1. kmalloc 100 booted = Some (0x120010, s1)
    \<and> heap_ok s1 [Blk 104 False, Blk 2097016 True] \<and> stats_ok s1 [Blk 104 False, Blk 2097016 True]
    \<and> heap_start s1 = 0x120000"
proof -
  obtain s1 where "kmalloc 100 booted = Some (0x120010, s1)"
    "heap_ok s1 [Blk 104 False, Blk 2097016 True]" "stats_ok s1 [Blk 104 False, Blk 2097016 True]"
    "heap_start s1 = 0x120000"
    using kmalloc_blocks [OF booted_ok, where sz = 100 and a = "0x120010" and bs' = "[Blk 104 False, Blk 2097016 True]"]
    by (auto simp: alloc_abs_def align_nat_def booted_fields carve_def)
  then show ?thesis by blast
qed

subsection \<open>kfree\<close>

text \<open>C4: \<open>kfree\<close> on a pointer that \<open>kmalloc\<close> returned and that is still in use returns, removes
  exactly this region from the regions in use, keeps the heap well formed and its statistics
  exact, and changes no byte of any region (not even of the one released) and none outside the
  heap.\<close>

theorem kfree_contract:
  assumes "heap_owns s L" "(unat r, n) \<in> L"
  shows "\<exists>s'. kfree r s = Some s' \<and> heap_owns s' (L - {(unat r, n)}) \<and> same_heap s s'
    \<and> (\<forall>x. x \<in> regions L \<or> x \<notin> heap_arena s \<longrightarrow> mem s' x = mem s x)"
  using assms
proof (cases rule: kfree_owned)
  case (1 s')
  then show ?thesis by blast
qed

theorem kfree_contract_witness:
  "\<exists>r s1 s2. kmalloc 100 booted = Some (r, s1) \<and> kfree r s1 = Some s2 \<and> heap_owns s2 {}"
proof -
  obtain s1 where k: "kmalloc 100 booted = Some (0x120010, s1)"
    using booted_alloc100 by blast
  with mm.alloc_grants [OF booted_owns _ _ k] obtain r n where
    "kmalloc 100 booted = Some (r, s1)" "heap_owns s1 {(unat r, n)}"
    by auto
  with kfree_contract [of s1 "{(unat r, n)}" r n] show ?thesis
    by auto
qed

text \<open>\<open>kfree\<close> refuses what is not a pointer into the heap with a magic number in front of it:
  NULL is ignored, anything else is reported and nothing but the log changes.\<close>

theorem kfree_rejects:
  assumes "\<not> is_valid_pointer r s"
  shows "kfree r s = Some (if r = NULL then s else printk (''kfree: invalid pointer 0x%x'' @ nl) s)"
  using assms by (simp add: kfree_def)

theorem kfree_rejects_witness:
  "kfree 0x9000 booted = Some (printk (''kfree: invalid pointer 0x%x'' @ nl) booted)"
proof -
  have "\<not> is_valid_pointer 0x9000 booted"
    by (simp add: is_valid_pointer_def booted_fields)
  from kfree_rejects [OF this] show ?thesis by simp
qed

subsection \<open>Coalescing\<close>

text \<open>No two neighbouring blocks are both free.\<close>

fun coalesced :: "blk list \<Rightarrow> bool" where
  "coalesced [] \<longleftrightarrow> True"
| "coalesced [a] \<longleftrightarrow> True"
| "coalesced (a # b # bs) \<longleftrightarrow> \<not> (bfree a \<and> bfree b) \<and> coalesced (b # bs)"

lemma coalesced_append:
  "coalesced (xs @ ys) \<longleftrightarrow> coalesced xs \<and> coalesced ys
     \<and> (xs \<noteq> [] \<and> ys \<noteq> [] \<longrightarrow> \<not> (bfree (last xs) \<and> bfree (hd ys)))"
proof (induction xs rule: coalesced.induct)
  case 1
  show ?case by simp
next
  case (2 a)
  show ?case by (cases ys) auto
next
  case (3 a b bs)
  then show ?case by auto
qed

lemma merge_pass_coalesced: "coalesced bs \<Longrightarrow> merge_pass bs = bs"
  by (induction bs rule: merge_pass.induct) auto

lemma merge_pass_append:
  "coalesced xs \<Longrightarrow> xs = [] \<or> \<not> bfree (last xs) \<Longrightarrow> merge_pass (xs @ ys) = xs @ merge_pass ys"
proof (induction xs rule: coalesced.induct)
  case 1
  show ?case by simp
next
  case (2 a)
  then show ?case by (cases ys) auto
next
  case (3 a b bs)
  then show ?case by auto
qed

lemma merge_pass_freed:
  assumes "coalesced (xs @ Blk k False # ys)"
  shows "coalesced (merge_pass (xs @ Blk k True # ys))
    \<longleftrightarrow> \<not> (xs \<noteq> [] \<and> bfree (last xs) \<and> ys \<noteq> [] \<and> bfree (hd ys))"
proof (cases "xs \<noteq> [] \<and> bfree (last xs)")
  case True
  then obtain zs z where xs: "xs = zs @ [z]" "bfree z"
    by (cases xs rule: rev_cases) auto
  with assms have "coalesced zs" "zs = [] \<or> \<not> bfree (last zs)" "coalesced ys"
    by (auto simp: coalesced_append) (cases ys; auto)+
  then have "merge_pass (xs @ Blk k True # ys) = zs @ Blk (bsize z + (16 + k)) True # ys"
    using merge_pass_append [of zs "z # Blk k True # ys"] xs by (simp add: merge_pass_coalesced)
  with True \<open>coalesced zs\<close> \<open>zs = [] \<or> _\<close> \<open>coalesced ys\<close> show ?thesis
    by (cases ys) (auto simp: coalesced_append)
next
  case False
  then have xs: "coalesced xs" "xs = [] \<or> \<not> bfree (last xs)"
    using assms by (auto simp: coalesced_append)
  show ?thesis
  proof (cases "ys \<noteq> [] \<and> bfree (hd ys)")
    case True
    then obtain y zs where ys: "ys = y # zs" "bfree y" by (cases ys) auto
    with assms have "coalesced (y # zs)"
      by (auto simp: coalesced_append)
    with ys have zs: "coalesced zs" "zs = [] \<or> \<not> bfree (hd zs)"
      by (cases zs; auto)+
    have "merge_pass (xs @ Blk k True # ys) = xs @ Blk (k + (16 + bsize y)) True # zs"
      using merge_pass_append [OF xs, of "Blk k True # ys"] ys zs by (simp add: merge_pass_coalesced)
    with False xs zs show ?thesis
      by (cases zs) (auto simp: coalesced_append)
  next
    case no: False
    from assms have "coalesced ys"
      by (cases ys) (auto simp: coalesced_append)
    with no have "coalesced (xs @ Blk k True # ys)"
      using xs by (cases ys) (auto simp: coalesced_append)
    with False show ?thesis
      by (auto simp: merge_pass_coalesced)
  qed
qed

text \<open>One pass of \<open>kfree\<close> restores full coalescing except in one case. If no two neighbouring
  blocks were free before, then after the release there are two neighbouring free blocks exactly
  when both neighbours of the released block were free: the loop merges the released block into
  the one before it and then steps over the block behind it.\<close>

theorem kfree_coalescing:
  assumes "heap_ok s (xs @ Blk k False # ys)" "coalesced (xs @ Blk k False # ys)"
  shows "\<exists>s' bs'. kfree (of_nat (unat (heap_start s) + total xs + 16)) s = Some s' \<and> heap_ok s' bs'
    \<and> (coalesced bs' \<longleftrightarrow> \<not> (xs \<noteq> [] \<and> bfree (last xs) \<and> ys \<noteq> [] \<and> bfree (hd ys)))"
  using kfree_block [OF assms(1)] merge_pass_freed [OF assms(2)] unfolding blk.sel by blast

theorem kfree_coalescing_witness:
  "\<exists>(s :: mm_state) bs s'. heap_ok s bs \<and> kfree 0x120010 s = Some s' \<and> (\<exists>bs'. heap_ok s' bs' \<and> coalesced bs')"
proof -
  obtain s where s: "heap_ok s [Blk 104 False, Blk 2097016 True]" "same_heap booted s"
    using kmalloc_refines [OF booted_ok, of 100]
    by (auto simp: alloc_abs_def align_nat_def booted_fields carve_def)
  then have "unat (heap_start s) = 0x120000"
    by (simp add: same_heap_def booted_fields)
  with kfree_coalescing [of s "[]" 104 "[Blk 2097016 True]"] s
  obtain s' bs' where "kfree 0x120010 s = Some s'" "heap_ok s' bs'" "coalesced bs'"
    by auto
  with s show ?thesis by blast
qed

text \<open>C15: \<open>kmalloc\<close> followed by \<open>kfree\<close> of its result is the identity on the list of blocks of a
  fully coalesced heap, and \<open>kmalloc\<close> itself keeps the heap fully coalesced.\<close>

theorem kmalloc_kfree_roundtrip:
  assumes "heap_ok s bs" "coalesced bs" "0 < unat sz" "unat sz \<le> 4294967288"
    "kmalloc sz s = Some (r, s1)" "r \<noteq> NULL"
  shows "\<exists>bs1 s2. heap_ok s1 bs1 \<and> coalesced bs1 \<and> kfree r s1 = Some s2 \<and> heap_ok s2 bs"
proof -
  let ?n = "align_nat (unat sz)" and ?p = "unat (heap_start s)"
  have nz: "sz \<noteq> 0"
    using assms(3) by auto
  obtain q k where found: "best_scan ?n bs ?p None = Some (q, k)"
    using kmalloc_no_fit [OF assms(1) nz assms(4)] assms(5,6) by (cases "best_scan ?n bs ?p None") auto
  obtain xs b ys where sp: "bs = xs @ b # ys" "q = ?p + total xs" "fits ?n b"
    using best_scan_found [OF found] by metis
  let ?bs1 = "xs @ carve ?n b @ ys"
  have carved: "carve_at q ?n ?p bs = ?bs1"
    using sp by simp
  from kmalloc_fit [OF assms(1) nz assms(4) found] assms(5)
  have ok1: "heap_ok s1 ?bs1" and r: "r = of_nat (q + 16)" and start: "heap_start s1 = heap_start s"
    unfolding carved by (auto simp: same_heap_def)
  from sp assms(2) have free: "bfree b" and nice: "coalesced xs" "xs = [] \<or> \<not> bfree (last xs)"
    "coalesced ys" "ys = [] \<or> \<not> bfree (hd ys)"
    by (auto simp: fits_def coalesced_append) (cases ys; auto)+
  have co1: "coalesced ?bs1"
    using nice by (cases ys) (auto simp: carve_def coalesced_append)
  have rejoined: "merge_pass (xs @ Blk (bsize (hd (carve ?n b))) True # tl (carve ?n b) @ ys) = bs"
    using merge_pass_append [OF nice(1,2)] merge_pass_coalesced [OF assms(2)] merge_pass_coalesced [OF nice(3)]
      sp(1,3) free
    by (cases b) (auto simp: carve_def fits_def)
  have shape: "?bs1 = xs @ hd (carve ?n b) # tl (carve ?n b) @ ys"
    by (simp add: carve_def)
  obtain s2 where "kfree r s1 = Some s2" "heap_ok s2 bs"
    using kfree_block [OF ok1 [unfolded shape]] unfolding start rejoined r sp(2) by blast
  with ok1 co1 show ?thesis by blast
qed

theorem kmalloc_kfree_roundtrip_witness:
  "\<exists>s1 s2. kmalloc 100 booted = Some (0x120010, s1) \<and> kfree 0x120010 s1 = Some s2
    \<and> heap_ok s2 [Blk 2097136 True]"
proof -
  obtain s1 where k: "kmalloc 100 booted = Some (0x120010, s1)"
    using kmalloc_refines [OF booted_ok, of 100]
    by (auto simp: alloc_abs_def align_nat_def booted_fields)
  with kmalloc_kfree_roundtrip [OF booted_ok(1) _ _ _ k] show ?thesis
    by auto
qed


text \<open>The missed merge loses memory for good. From the heap as booted, which can serve a request
  for all of its 2097136 bytes, allocate two blocks of 100 bytes and release them in the order of
  allocation: nothing is in use any more, but the heap is left in two free blocks and the same
  request fails.\<close>

theorem kfree_fragments:
  "(\<exists>r s. kmalloc 2097136 booted = Some (r, s) \<and> r \<noteq> NULL)
   \<and> (\<exists>p q s1 s2 s3 s4. kmalloc 100 booted = Some (p, s1) \<and> kmalloc 100 s1 = Some (q, s2)
       \<and> kfree p s2 = Some s3 \<and> kfree q s3 = Some s4
       \<and> heap_owns s4 {} \<and> heap_ok s4 [Blk 224 True, Blk 2096896 True]
       \<and> (\<exists>s5. kmalloc 2097136 s4 = Some (NULL, s5)))"
proof
  show "\<exists>r s. kmalloc 2097136 booted = Some (r, s) \<and> r \<noteq> NULL"
  proof -
    obtain s where "kmalloc 2097136 booted = Some (0x120010, s)"
      using kmalloc_blocks [OF booted_ok, where sz = 2097136 and a = "0x120010" and bs' = "[Blk 2097136 False]"]
      by (auto simp: alloc_abs_def align_nat_def booted_fields carve_def)
    then show ?thesis by auto
  qed
next
  note booted_alloc100
  then obtain s1 where s1: "kmalloc 100 booted = Some (0x120010, s1)"
    "heap_ok s1 [Blk 104 False, Blk 2097016 True]" "stats_ok s1 [Blk 104 False, Blk 2097016 True]"
    "heap_start s1 = 0x120000" by blast
  obtain s2 where s2: "kmalloc 100 s1 = Some (0x120088, s2)"
    "heap_ok s2 [Blk 104 False, Blk 104 False, Blk 2096896 True]"
    "stats_ok s2 [Blk 104 False, Blk 104 False, Blk 2096896 True]" "heap_start s2 = 0x120000"
    using kmalloc_blocks [OF s1(2,3), where sz = 100 and a = "0x120088" and bs' = "[Blk 104 False, Blk 104 False, Blk 2096896 True]"]
    by (auto simp: alloc_abs_def align_nat_def s1(4) carve_def)
  obtain s3 where s3: "kfree 0x120010 s2 = Some s3"
    "heap_ok s3 [Blk 104 True, Blk 104 False, Blk 2096896 True]"
    "stats_ok s3 [Blk 104 True, Blk 104 False, Blk 2096896 True]" "heap_start s3 = 0x120000"
    using kfree_blocks [where s = s2 and xs = "[]" and k = 104 and ys = "[Blk 104 False, Blk 2096896 True]" and a = "0x120010"] s2 by auto
  obtain s4 where s4: "kfree 0x120088 s3 = Some s4"
    "heap_ok s4 [Blk 224 True, Blk 2096896 True]" "stats_ok s4 [Blk 224 True, Blk 2096896 True]"
    using kfree_blocks [where s = s3 and xs = "[Blk 104 True]" and k = 104 and ys = "[Blk 2096896 True]" and a = "0x120088"] s3 by auto
  have own: "heap_owns s4 {}"
    unfolding heap_owns_def using s4 by (intro exI [of _ "[Blk 224 True, Blk 2096896 True]"]) simp
  have "\<exists>s5. kmalloc 2097136 s4 = Some (NULL, s5)"
    using kmalloc_no_fit [OF s4(2), of 2097136] by (simp add: align_nat_def)
  with s1 s2 s3 s4 own show "\<exists>p q s1 s2 s3 s4. kmalloc 100 booted = Some (p, s1) \<and> kmalloc 100 s1 = Some (q, s2)
       \<and> kfree p s2 = Some s3 \<and> kfree q s3 = Some s4
       \<and> heap_owns s4 {} \<and> heap_ok s4 [Blk 224 True, Blk 2096896 True]
       \<and> (\<exists>s5. kmalloc 2097136 s4 = Some (NULL, s5))"
    by blast
qed

subsection \<open>Sizes near the top of the address space\<close>

text \<open>C18: The rounding of \<open>kmalloc\<close> wraps around. A request for one of the seven largest sizes is
  rounded to 0, so on a well-formed heap with a free block the request succeeds, although no heap
  can hold it: the result is the payload of the first of the smallest free blocks of the list
  (whatever their size), which is smaller than the request.\<close>

theorem kmalloc_size_wraps:
  assumes "heap_ok s bs" "4294967288 < unat sz" "\<exists>b \<in> set bs. bfree b"
  shows "ALIGN sz = 0
    \<and> (\<exists>r s' xs b ys. kmalloc sz s = Some (r, s') \<and> r \<noteq> NULL
         \<and> bs = xs @ b # ys \<and> unat r = unat (heap_start s) + total xs + 16
         \<and> bfree b \<and> bsize b < unat sz
         \<and> (\<forall>c \<in> set bs. bfree c \<longrightarrow> bsize b \<le> bsize c)
         \<and> (\<forall>c \<in> set xs. bfree c \<longrightarrow> bsize b < bsize c))"
proof
  let ?p = "unat (heap_start s)"
  note h = heap_okD [OF assms(1)]
  have "unat sz + 7 - 4294967296 < 8" "4294967296 \<le> unat sz + 7"
    using assms(2) unat32_less [of sz] by simp_all
  then have "unat (ALIGN sz) = 0"
    unfolding unat_ALIGN by (simp add: le_mod_geq)
  then show al: "ALIGN sz = 0"
    by (simp add: unat_0_iff)
  have nz: "sz \<noteq> 0"
    using assms(2) by auto
  have scan: "kmalloc_scan (mem s) (ALIGN sz) (first_block s) NULL
      = Some (blk_ptr (best_scan 0 bs ?p None))"
    using kmalloc_scan_chain [OF h(3,1,2), of 0 None] h(4,5) by (simp add: al best_ok_def blk_ptr_def)
  have "best_scan 0 bs ?p None \<noteq> None"
    using assms(3) by (auto simp: best_scan_None fits_def)
  then obtain q k where found: "best_scan 0 bs ?p None = Some (q, k)" by auto
  from best_scan_found [OF found] obtain xs b ys where
    b: "bs = xs @ b # ys" "q = ?p + total xs" "fits 0 b"
      "\<forall>c \<in> set xs. fits 0 c \<longrightarrow> bsize b < bsize c" "\<forall>c \<in> set ys. fits 0 c \<longrightarrow> bsize b \<le> bsize c"
    by metis
  have q: "q + 16 < 4294967296" "0 < q"
    using h(1,2) b(1,2) by auto
  then have nn: "(of_nat q :: addr) \<noteq> NULL" "(of_nat (q + 16) :: addr) \<noteq> NULL"
    using of_nat_eq_NULL_iff [of q] of_nat_eq_NULL_iff [of "q + 16"] by (simp_all del: of_nat_add)
  then obtain s' where "kmalloc sz s = Some (of_nat (q + 16), s')"
    using scan found nz h(7) by (simp add: kmalloc_def blk_ptr_def sizeof_mem_block_def Let_def)
  moreover have "unat (of_nat (q + 16) :: addr) = q + 16"
    using q by (intro unat_of_nat32)
  moreover have "bsize b < unat sz"
    using h(1,2,8) assms(2) b(1) by (auto elim!: dvdE)
  moreover have "bfree b" "\<forall>c \<in> set bs. bfree c \<longrightarrow> bsize b \<le> bsize c"
    "\<forall>c \<in> set xs. bfree c \<longrightarrow> bsize b < bsize c"
    using b by (auto simp: fits_def)
  ultimately show "\<exists>r s' xs b ys. kmalloc sz s = Some (r, s') \<and> r \<noteq> NULL
         \<and> bs = xs @ b # ys \<and> unat r = unat (heap_start s) + total xs + 16
         \<and> bfree b \<and> bsize b < unat sz
         \<and> (\<forall>c \<in> set bs. bfree c \<longrightarrow> bsize b \<le> bsize c)
         \<and> (\<forall>c \<in> set xs. bfree c \<longrightarrow> bsize b < bsize c)"
    using nn(2) b(1,2)
    by (intro exI [of _ "of_nat (q + 16)"] exI [of _ s'] exI [of _ xs] exI [of _ b] exI [of _ ys])
      simp
qed

theorem kmalloc_size_wraps_witness:
  "\<exists>r s'. kmalloc 0xFFFFFFFF booted = Some (r, s') \<and> unat r = 0x120010"
  using kmalloc_size_wraps [OF booted_ok(1), of "0xFFFFFFFF"]
  by (auto simp: booted_fields Cons_eq_append_conv)

subsection \<open>Releases that are not allowed\<close>

text \<open>C35. Releasing a block twice is accepted. The second release of a free block that is still in
  the list counts its bytes as released once more, so the counter of allocated bytes no longer
  counts the bytes in use: it is short by the block and its header. The list of blocks stays well formed.\<close>

theorem kfree_double_free:
  assumes "heap_ok s (xs @ Blk k True # ys)" "stats_ok s (xs @ Blk k True # ys)"
  shows "\<exists>s'. kfree (of_nat (unat (heap_start s) + total xs + 16)) s = Some s'
    \<and> heap_ok s' (merge_pass (xs @ Blk k True # ys))
    \<and> \<not> stats_ok s' (merge_pass (xs @ Blk k True # ys))
    \<and> allocated (mm_stats s') = of_nat (used_bytes (xs @ ys)) - of_nat (k + 16)"
proof -
  let ?bs = "merge_pass (xs @ Blk k True # ys)"
  obtain s' where s': "kfree (of_nat (unat (heap_start s) + total xs + 16)) s = Some s'" "heap_ok s' ?bs"
    "allocated (mm_stats s') = allocated (mm_stats s) - of_nat (k + 16)"
    using kfree_block [OF assms(1)] unfolding blk.sel by blast
  have "k + 16 < 4294967296"
    using heap_okD(2) [OF assms(1)] by simp
  then have "(of_nat (k + 16) :: addr) \<noteq> 0"
    using of_nat_eq_NULL_iff [of "k + 16"] by linarith
  moreover have "allocated (mm_stats s') = of_nat (used_bytes (xs @ ys)) - of_nat (k + 16)"
    using s'(3) assms(2) by (simp add: stats_ok_def)
  ultimately show ?thesis
    using s' by (auto simp: stats_ok_def simp del: of_nat_add)
qed

theorem kfree_double_free_witness:
  "\<exists>s'. kfree 0x120010 booted = Some s' \<and> allocated (mm_stats s') = - 2097152"
  using kfree_double_free [of booted "[]" 2097136 "[]"] booted_ok by (auto simp: booted_fields)

text \<open>\<open>kfree\<close> accepts any pointer behind the right four bytes. If the owner of a region has
  stored the magic number in it, then \<open>kfree\<close> of the address behind that number succeeds, writes
  a byte of the owner's data and counts a release, although the pointer was never handed out and
  the list of blocks stays as it is (up to merging).\<close>

theorem kfree_accepts_forged:
  assumes "heap_ok s bs" "(a, n) \<in> live (unat (heap_start s)) bs" "a \<le> d" "d + 16 \<le> a + n"
    "d + 16 < unat (heap_end s)" "load32 (mem s) (of_nat (d + 12)) = BLOCK_MAGIC"
  shows "\<exists>s'. kfree (of_nat (d + 16)) s = Some s' \<and> heap_ok s' (merge_pass bs)
    \<and> mem s' (of_nat (d + 8)) = 1 \<and> free_count (mm_stats s') = free_count (mm_stats s) + 1
    \<and> allocated (mm_stats s') = allocated (mm_stats s) - (load32 (mem s) (of_nat d) + 16)"
proof -
  let ?p = "unat (heap_start s)"
  note h = heap_okD [OF assms(1)]
  note rng = live_range [OF assms(2)]
  have bound: "d + 16 < 4294967296"
    using assms(5) unat32_less [of "heap_end s"] by simp
  have blk: "(of_nat (d + 16) - 16 :: addr) = of_nat d"
    by simp
  have ptr: "unat (of_nat (d + 16) :: addr) = d + 16"
    using bound by (rule unat_of_nat32)
  have nonnull: "(of_nat (d + 16) :: addr) \<noteq> NULL"
    using of_nat_eq_NULL_iff [OF bound] by linarith
  have inside: "\<not> of_nat (d + 16) < heap_start s" "\<not> heap_end s \<le> of_nat (d + 16)"
    unfolding word32_less_nat word32_le_nat ptr using rng assms(3,5) by simp_all
  have "blk_magic (mem s) (of_nat (d + 16) - sizeof_mem_block) = BLOCK_MAGIC"
    unfolding sizeof_mem_block_def blk blk_magic_def using assms(6) by (simp add: ac_simps)
  with nonnull inside have valid: "is_valid_pointer (of_nat (d + 16)) s"
    unfolding is_valid_pointer_def by (simp only: if_False de_Morgan_disj simp_thms)
  let ?m = "set_blk_free (mem s) (of_nat d) True"
  have out: "unat x \<notin> hdr_bytes ?p bs" if "unat x \<in> {d ..< d + 16}" for x :: addr
  proof -
    have "unat x \<in> {a ..< a + n}"
      using that assms(3,4) by auto
    then show ?thesis
      using live_hdr_disjoint [OF assms(2)] by blast
  qed
  have fr: "?m x = mem s x" if "unat x \<in> hdr_bytes ?p bs" for x
    using that out [of x] bound by (intro set_blk_other) auto
  have "chain ?m ?p bs"
    using h(2,3) fr by (subst chain_frame [of _ _ ?m "mem s"]) auto
  from kfree_coalesce_chain [OF this h(1,2,5)] obtain m' where
    m': "kfree_coalesce ?m (first_block s) = Some m'" "chain m' ?p (merge_pass bs)"
      "\<And>x. unat x \<notin> hdr_bytes ?p bs \<Longrightarrow> m' x = ?m x"
    using h(4) by auto
  have "unat (of_nat (d + 8) :: addr) = d + 8"
    using bound by (intro unat_of_nat32) simp
  then have one: "m' (of_nat (d + 8)) = 1"
    using m'(3) [of "of_nat (d + 8)"] out [of "of_nat (d + 8)"] by (simp add: set_blk_free_def)
  define st where "st = (mm_stats s)\<lparr>allocated := allocated (mm_stats s) - (blk_size ?m (of_nat d) + 16),
       free_count := free_count (mm_stats s) + 1\<rparr>"
  define s' where "s' = s\<lparr>mem := m', mm_stats := st\<rparr>"
  have "kfree (of_nat (d + 16)) s = Some s'"
    using valid nonnull m'(1) unfolding kfree_def Let_def sizeof_mem_block_def blk s'_def st_def
    by (simp del: of_nat_add)
  moreover have "heap_ok s' (merge_pass bs)"
    using h m'(2) aligned_merge_pass [OF h(9)] by (simp add: heap_ok_def s'_def)
  ultimately show ?thesis
    using one by (intro exI [of _ s']) (simp add: s'_def st_def blk_size_def [symmetric])
qed

theorem kfree_accepts_forged_witness:
  "\<exists>(s :: mm_state) s'. heap_owns s {(0x120010, 104)} \<and> kfree 0x120020 s = Some s'
     \<and> mem s 0x120018 = 0xAB \<and> mem s' 0x120018 = 1"
proof -
  let ?bs = "[Blk 104 False, Blk 2097016 True]"
  obtain s1 :: mm_state where s1: "heap_ok s1 ?bs" "stats_ok s1 ?bs" "heap_start s1 = 0x120000"
    using booted_alloc100 by blast
  let ?m = "(store32 (mem s1) 0x12001C BLOCK_MAGIC)(0x120018 := 0xAB)"
  let ?s = "with_mem ?m s1"
  have own: "heap_owns s1 {(0x120010, 104)}"
    unfolding heap_owns_def using s1 by (intro exI [of _ ?bs]) simp
  have "?m x = mem s1 x" if "unat x \<in> hdr_bytes (unat (heap_start s1)) ?bs" for x
    using that s1(3) by (auto simp: store32_other in_span_nowrap)
  then have ok: "heap_ok ?s ?bs"
    unfolding with_mem_def by (intro heap_ok_frame [OF s1(1)])
  have own: "heap_owns ?s {(0x120010, 104)}"
    unfolding heap_owns_def using ok s1 by (intro exI [of _ ?bs]) (simp add: stats_ok_def with_mem_def)
  have start: "heap_start ?s = 0x120000" "heap_end ?s = heap_end s1" "mem ?s = ?m"
    by (simp_all add: with_mem_def s1(3))
  have ende: "unat (heap_end ?s) = 0x320000"
    using heap_okD(6) [OF ok] by (simp add: start s1(3))
  have "\<exists>s'. kfree (of_nat (0x120010 + 16)) ?s = Some s' \<and> mem s' (of_nat (0x120010 + 8)) = 1"
    using kfree_accepts_forged [OF ok, where a = "0x120010" and n = 104 and d = "0x120010"] ende s1(3)
    by (auto simp: start mem_simps)
  then obtain s' where "kfree 0x120020 ?s = Some s'" "mem s' 0x120018 = 1"
    by auto
  moreover have "mem ?s 0x120018 = 0xAB"
    by (simp add: start)
  ultimately show ?thesis
    using own by blast
qed

end
