(* ===== verification/Mm_Runs.thy ===== *)
theory Mm_Runs
  imports Mm_Props
begin

text \<open>
  The heap of mm.c as a state machine. A state is the state of the memory manager and the set
  of regions its clients hold, each by the pointer and the size of the request; a step is a
  request, a release of a held pointer, a release of a pointer that is not valid, or a write
  of a client inside a region it holds. \<open>heap_reach\<close> are the states reachable after
  \<open>mm_init\<close>.
\<close>

datatype heap_event = Request u32 | Release addr | Poke addr u8

type_synonym held = "(addr \<times> nat) set"

inductive heap_step :: "mm_state \<times> held \<Rightarrow> heap_event \<Rightarrow> mm_state \<times> held \<Rightarrow> bool" where
  request: "unat sz \<le> 4294967288 \<Longrightarrow> kmalloc sz s = Some (r, s')
    \<Longrightarrow> heap_step (s, H) (Request sz) (s', if r = NULL then H else insert (r, unat sz) H)"
| release: "(r, k) \<in> H \<Longrightarrow> kfree r s = Some s'
    \<Longrightarrow> heap_step (s, H) (Release r) (s', H - {(r, k)})"
| reject: "\<not> is_valid_pointer r s \<Longrightarrow> kfree r s = Some s'
    \<Longrightarrow> heap_step (s, H) (Release r) (s', H)"
| poke: "(r, k) \<in> H \<Longrightarrow> a \<in> span r k \<Longrightarrow> heap_step (s, H) (Poke a v) (with_mem ((mem s)(a := v)) s, H)"

inductive_cases heap_stepE: "heap_step (s, H) e (s', H')"

inductive heap_reach :: "mm_state \<times> held \<Rightarrow> bool" where
  boot: "heap_base kernel_end \<noteq> NULL \<Longrightarrow> heap_base kernel_end < available_memory (mem s) mb_info
    \<Longrightarrow> heap_reach (mm_init kernel_end mb_info s, {})"
| step: "heap_reach c \<Longrightarrow> heap_step c e c' \<Longrightarrow> heap_reach c'"

text \<open>The held regions are regions the allocator granted, one for one.\<close>

definition holds :: "mm_state \<Rightarrow> held \<Rightarrow> (nat \<times> nat) set \<Rightarrow> bool" where
  "holds s H L \<longleftrightarrow> heap_owns s L \<and> inj_on fst H \<and> (\<lambda>(r, k). unat r) ` H = fst ` L
     \<and> (\<forall>(r, k) \<in> H. 8 dvd unat r \<and> (\<exists>n \<ge> k. (unat r, n) \<in> L))"

lemma holdsD:
  assumes "holds s H L" "(r, k) \<in> H"
  obtains n where "(unat r, n) \<in> L" "k \<le> n" "8 dvd unat r" "span r k = region (unat r) k"
    "span r k \<subseteq> regions L"
proof -
  from assms obtain n where n: "(unat r, n) \<in> L" "k \<le> n" "8 dvd unat r" "heap_owns s L"
    by (auto simp: holds_def)
  with mm.owned_span [of s L r n k] mm.owned_span_subset [of s L r n k] show thesis
    by (intro that) auto
qed

lemma owns_fst_inj: "heap_owns s L \<Longrightarrow> inj_on fst L"
  using mm.owned_same_start by (fastforce simp: inj_on_def)

lemma kfree_invalid: "\<not> is_valid_pointer r s \<Longrightarrow> \<exists>f. kfree r s = Some (if r = NULL then s else printk f s)"
  by (auto simp: kfree_def)

lemma holds_request:
  assumes "holds s H L" "unat sz \<le> 4294967288" "kmalloc sz s = Some (r, s')"
  shows "\<exists>L'. holds s' (if r = NULL then H else insert (r, unat sz) H) L'
    \<and> (\<forall>x. x \<in> regions L \<longrightarrow> mem s' x = mem s x)"
proof (cases "sz = 0")
  case True
  with assms show ?thesis
    by (auto simp: kmalloc_def)
next
  case False
  then have pos: "0 < unat sz"
    by (simp add: unat_gt_0)
  have own: "heap_owns s L"
    using assms(1) by (simp add: holds_def)
  from own pos assms(2) show ?thesis
  proof (cases rule: kmalloc_owned)
    case fail
    from mm.alloc_fails [OF own pos assms(2) fail] assms(1,3) fail show ?thesis
      by (intro exI [of _ L]) (auto simp: holds_def)
  next
    case (grant q n s2)
    with assms(3) have eq: "q = r" "s2 = s'" by simp_all
    have new: "unat r \<notin> fst ` L"
    proof
      assume "unat r \<in> fst ` L"
      then obtain k where k: "(unat r, k) \<in> L" by force
      have "inj_on fst (insert (unat r, n) L)"
        using grant(5) unfolding eq by (rule owns_fst_inj)
      then have "(unat r, k) = (unat r, n)"
        using k by (intro inj_onD [of fst "insert (unat r, n) L"]) auto
      with k grant(4) show False by (simp add: eq)
    qed
    then have "r \<notin> fst ` H"
      using assms(1) by (force simp: holds_def)
    moreover have "inj_on fst H" "(\<lambda>(r, k). unat r) ` H = fst ` L"
      "\<forall>(r, k) \<in> H. 8 dvd unat r \<and> (\<exists>n \<ge> k. (unat r, n) \<in> L)"
      using assms(1) by (simp_all add: holds_def)
    ultimately have "holds s' (insert (r, unat sz) H) (insert (unat r, n) L)"
      using grant(3,5,7) unfolding eq holds_def by auto
    with grant(2,8) show ?thesis
      unfolding eq by auto
  qed
qed

lemma holds_release:
  assumes "holds s H L" "(r, k) \<in> H"
  obtains s' L' where "kfree r s = Some s'" "holds s' (H - {(r, k)}) L'"
    "\<And>x. x \<in> regions L \<Longrightarrow> mem s' x = mem s x"
proof -
  have own: "heap_owns s L"
    using assms(1) by (simp add: holds_def)
  from assms obtain n where n: "(unat r, n) \<in> L"
    by (rule holdsD)
  from kfree_owned [OF own n] obtain s' where s': "kfree r s = Some s'" "heap_owns s' (L - {(unat r, n)})"
    "\<And>x. x \<in> regions L \<or> x \<notin> heap_arena s \<Longrightarrow> mem s' x = mem s x"
    by metis
  have others: "unat q \<noteq> unat r" if "(q, j) \<in> H - {(r, k)}" for q j
  proof
    assume "unat q = unat r"
    then have "fst (q, j) = fst (r, k)" by (simp add: word_unat_eq_iff)
    moreover have "inj_on fst H" using assms(1) by (simp add: holds_def)
    ultimately have "(q, j) = (r, k)"
      using that assms(2) by (intro inj_onD [of fst H]) auto
    with that show False by simp
  qed
  have img: "(\<lambda>(r, k). unat r) ` (H - {(r, k)}) = fst ` (L - {(unat r, n)})"
  proof -
    have "(\<lambda>(r, k). unat r) ` (H - {(r, k)}) = (\<lambda>(r, k). unat r) ` H - {unat r}"
      using others assms(2) by force
    moreover have "fst ` (L - {(unat r, n)}) = fst ` L - {unat r}"
      using owns_fst_inj [OF own] n by (force simp: inj_on_def)
    ultimately show ?thesis
      using assms(1) by (simp add: holds_def)
  qed
  have "\<exists>n' \<ge> j. (unat q, n') \<in> L - {(unat r, n)}" "8 dvd unat q" if "(q, j) \<in> H - {(r, k)}" for q j
    using assms(1) that others [OF that] by (auto simp: holds_def)
  then have "holds s' (H - {(r, k)}) (L - {(unat r, n)})"
    using s'(2) img assms(1) unfolding holds_def by (auto intro: inj_on_subset)
  with that s' show thesis by blast
qed

lemma holds_poke:
  assumes "holds s H L" "(r, k) \<in> H" "a \<in> span r k"
  shows "holds (with_mem ((mem s)(a := v)) s) H L"
proof -
  have "a \<in> regions L"
    using assms by (auto elim: holdsD)
  with assms(1) have "heap_owns (with_mem ((mem s)(a := v)) s) L"
    unfolding holds_def by (intro mm.owns_write) auto
  with assms(1) show ?thesis
    by (simp add: holds_def)
qed

lemma holds_step:
  assumes "heap_step (s, H) e (s', H')" "holds s H L"
  shows "\<exists>L'. holds s' H' L'"
  using assms(1)
proof (elim heap_stepE, goal_cases)
  case (1 sz r)
  from holds_request [OF assms(2) 1(3,4)] show ?case
    unfolding 1(2) by blast
next
  case (2 r k)
  from holds_release [OF assms(2) 2(3)] 2(4) show ?case
    unfolding 2(2) by (metis option.inject)
next
  case (3 r)
  from kfree_invalid [OF 3(3)] obtain f where f: "kfree r s = Some (if r = NULL then s else printk f s)" ..
  have "heap_owns (printk f s) L"
    using assms(2) by (auto simp: holds_def heap_owns_def heap_ok_def stats_ok_def)
  with f 3 assms(2) show ?case
    by (intro exI [of _ L]) (auto simp: holds_def split: if_splits)
next
  case (4 r k a v)
  with assms(2) holds_poke show ?case by blast
qed

lemma holds_reach: "heap_reach (s, H) \<Longrightarrow> \<exists>L. holds s H L"
proof (induction "(s, H)" arbitrary: s H rule: heap_reach.induct)
  case (boot kernel_end s mb_info)
  have "heap_owns (mm_init kernel_end mb_info s) {}"
    unfolding heap_owns_def using mm_init_heap_ok [OF boot]
    by (intro exI [of _ "[Blk (unat (chosen_heap_size (mem s) kernel_end mb_info) - 16) True]"]) simp
  then show ?case
    by (intro exI [of _ "{}"]) (simp add: holds_def)
next
  case (step c e)
  obtain s0 H0 where c: "c = (s0, H0)" by (cases c)
  from step(2) [OF c] obtain L where "holds s0 H0 L" ..
  with step(3) show ?case
    unfolding c by (rule holds_step)
qed

lemma holds_disjoint:
  assumes "holds s H L" "(r, k) \<in> H" "(q, j) \<in> H" "r \<noteq> q"
  shows "span r k \<inter> span q j = {}"
proof -
  from assms(1,2) obtain n where n: "(unat r, n) \<in> L" "k \<le> n"
    by (rule holdsD)
  from assms(1,3) obtain i where i: "(unat q, i) \<in> L" "j \<le> i"
    by (rule holdsD)
  from assms(1) have "heap_owns s L"
    by (simp add: holds_def)
  from mm.owned_spans_disjoint [OF this n(1) i(1) assms(4) n(2) i(2)] show ?thesis .
qed

lemma holds_regions: "holds s H L \<Longrightarrow> (r, k) \<in> H \<Longrightarrow> x \<in> span r k \<Longrightarrow> x \<in> regions L"
  by (erule (1) holdsD) blast

text \<open>The counter of allocated bytes, read off the headers of the held regions.\<close>

lemma holds_counter:
  assumes "holds s H L"
  shows "finite H" "allocated (mm_stats s)
    = (\<Sum>(r, k) \<in> H. blk_size (mem s) (r - sizeof_mem_block) + sizeof_mem_block)"
proof -
  let ?w = "\<lambda>a. blk_size (mem s) (of_nat a - 16) + 16 :: u32" and ?st = "\<lambda>(r :: addr, k :: nat). unat r"
  have own: "heap_owns s L" and img: "?st ` H = fst ` L" and inj: "inj_on fst H"
    using assms by (simp_all add: holds_def)
  have st: "inj_on ?st H"
  proof (rule inj_onI)
    fix x y
    assume "x \<in> H" "y \<in> H" "?st x = ?st y"
    then show "x = y"
      using inj_onD [OF inj, of x y] by (auto simp: word_unat_eq_iff case_prod_beta)
  qed
  note cnt = heap_owns_counter [OF own]
  show "finite H"
    using cnt(1) img st by (metis finite_imageI finite_imageD)
  have "(of_nat (n + 16) :: u32) = ?w a" if "(a, n) \<in> L" for a n
  proof -
    have "a < 4294967296"
      using heap_owns_bounds [OF own that] by simp
    then have "unat (of_nat a :: addr) = a"
      by (rule unat_of_nat32)
    with heap_owns_header(3) [OF own, of "of_nat a" n] that show ?thesis by simp
  qed
  then have "(\<Sum>(a, n) \<in> L. of_nat (n + 16) :: u32) = (\<Sum>x \<in> L. ?w (fst x))"
    by (intro sum.cong) auto
  also have "\<dots> = (\<Sum>a \<in> fst ` L. ?w a)"
    using owns_fst_inj [OF own] by (simp add: sum.reindex)
  also have "\<dots> = (\<Sum>x \<in> H. ?w (?st x))"
    unfolding img [symmetric] using st by (simp add: sum.reindex)
  also have "\<dots> = (\<Sum>(r, k) \<in> H. blk_size (mem s) (r - sizeof_mem_block) + sizeof_mem_block)"
    by (intro sum.cong) (auto simp: sizeof_mem_block_def)
  finally show "allocated (mm_stats s)
      = (\<Sum>(r, k) \<in> H. blk_size (mem s) (r - sizeof_mem_block) + sizeof_mem_block)"
    unfolding cnt(2) by (simp add: case_prod_beta)
qed

text \<open>C5: The heap is safe in every state reachable after \<open>mm_init\<close>, whatever the clients
  request (of a size up to \<open>2^32 - 8\<close>), release (also pointers that are not valid) and write into
  what they hold. The held regions are not null, 8-byte aligned, inside the heap and pairwise
  disjoint. Each of them is a block in use of at least the requested size behind a valid header, and
  its release returns, counts one release, takes exactly the block and its header off the counter
  of allocated bytes and leads to the reachable state in which everything else is still held. Every
  request of such a size returns. The counter of allocated bytes is exact: it is the sum over the
  held regions of the size of the block and its header.\<close>

theorem heap_reach_safe:
  assumes "heap_reach (s, H)"
  shows "(\<forall>(r, k) \<in> H. r \<noteq> NULL \<and> 8 dvd unat r \<and> span r k \<subseteq> heap_arena s)
    \<and> (\<forall>(r, k) \<in> H. \<forall>(q, j) \<in> H. r \<noteq> q \<longrightarrow> span r k \<inter> span q j = {})
    \<and> (\<forall>(r, k) \<in> H. is_valid_pointer r s \<and> \<not> blk_free (mem s) (r - sizeof_mem_block)
         \<and> k \<le> unat (blk_size (mem s) (r - sizeof_mem_block))
         \<and> (\<exists>s'. kfree r s = Some s' \<and> heap_reach (s', H - {(r, k)})
              \<and> free_count (mm_stats s') = free_count (mm_stats s) + 1
              \<and> allocated (mm_stats s') = allocated (mm_stats s)
                  - (blk_size (mem s) (r - sizeof_mem_block) + sizeof_mem_block)))
    \<and> (\<forall>sz. unat sz \<le> 4294967288 \<longrightarrow> (\<exists>r s'. kmalloc sz s = Some (r, s')))
    \<and> finite H
    \<and> allocated (mm_stats s) = (\<Sum>(r, k) \<in> H. blk_size (mem s) (r - sizeof_mem_block) + sizeof_mem_block)"
proof (intro conjI)
  obtain L where L: "holds s H L"
    using holds_reach [OF assms] ..
  then have own: "heap_owns s L"
    by (simp add: holds_def)
  have "r \<noteq> NULL \<and> 8 dvd unat r \<and> span r k \<subseteq> heap_arena s" if "(r, k) \<in> H" for r k
    using L that
    by (rule holdsD) (use mm.owned_arena [OF own] mm.owned_nonnull [OF own] in blast)
  then show "\<forall>(r, k) \<in> H. r \<noteq> NULL \<and> 8 dvd unat r \<and> span r k \<subseteq> heap_arena s"
    by blast
  show "\<forall>(r, k) \<in> H. \<forall>(q, j) \<in> H. r \<noteq> q \<longrightarrow> span r k \<inter> span q j = {}"
    using holds_disjoint [OF L] by blast
  have "is_valid_pointer r s \<and> \<not> blk_free (mem s) (r - sizeof_mem_block)
      \<and> k \<le> unat (blk_size (mem s) (r - sizeof_mem_block))
      \<and> (\<exists>s'. kfree r s = Some s' \<and> heap_reach (s', H - {(r, k)})
           \<and> free_count (mm_stats s') = free_count (mm_stats s) + 1
           \<and> allocated (mm_stats s') = allocated (mm_stats s)
               - (blk_size (mem s) (r - sizeof_mem_block) + sizeof_mem_block))"
    if rk: "(r, k) \<in> H" for r k
    using L rk
  proof (rule holdsD)
    fix n
    assume n: "(unat r, n) \<in> L" "k \<le> n"
    note hd = heap_owns_header [OF own n(1), folded sizeof_mem_block_def]
    from kfree_counts [OF own n(1)] obtain s' where s': "kfree r s = Some s'"
      "allocated (mm_stats s') = allocated (mm_stats s) - of_nat (n + 16)"
      "free_count (mm_stats s') = free_count (mm_stats s) + 1"
      by blast
    have "heap_reach (s', H - {(r, k)})"
      using assms heap_step.release [OF rk s'(1)] by (rule heap_reach.step)
    with hd n(2) s' show ?thesis
      by (simp add: sizeof_mem_block_def)
  qed
  then show "\<forall>(r, k) \<in> H. is_valid_pointer r s \<and> \<not> blk_free (mem s) (r - sizeof_mem_block)
         \<and> k \<le> unat (blk_size (mem s) (r - sizeof_mem_block))
         \<and> (\<exists>s'. kfree r s = Some s' \<and> heap_reach (s', H - {(r, k)})
              \<and> free_count (mm_stats s') = free_count (mm_stats s) + 1
              \<and> allocated (mm_stats s') = allocated (mm_stats s)
                  - (blk_size (mem s) (r - sizeof_mem_block) + sizeof_mem_block))"
    by blast
  show "\<forall>sz. unat sz \<le> 4294967288 \<longrightarrow> (\<exists>r s'. kmalloc sz s = Some (r, s'))"
  proof (intro allI impI)
    fix sz :: u32
    assume "unat sz \<le> 4294967288"
    then show "\<exists>r s'. kmalloc sz s = Some (r, s')"
      using mm.alloc_returns [OF own, of sz] by (cases "sz = 0") (auto simp: kmalloc_def unat_gt_0)
  qed
  show "finite H" "allocated (mm_stats s)
      = (\<Sum>(r, k) \<in> H. blk_size (mem s) (r - sizeof_mem_block) + sizeof_mem_block)"
    by (rule holds_counter [OF L])+
qed

lemma booted_reach: "heap_reach (booted, {})"
  unfolding booted_def by (rule heap_reach.boot [OF blank_room])

theorem heap_reach_safe_witness:
  "\<exists>s. heap_reach (s, {(0x120010, 100)}) \<and> is_valid_pointer 0x120010 s
     \<and> allocated (mm_stats s) = blk_size (mem s) 0x120000 + 16
     \<and> (\<exists>s'. kfree 0x120010 s = Some s' \<and> heap_reach (s', {}) \<and> allocated (mm_stats s') = 0)"
proof -
  obtain s :: mm_state where s: "kmalloc 100 booted = Some (0x120010, s)"
    using booted_alloc100 by blast
  have "heap_step (booted, {}) (Request 100) (s, {(0x120010, 100)})"
    using heap_step.request [OF _ s, of "{}"] by simp
  with booted_reach have reach: "heap_reach (s, {(0x120010, 100)})"
    by (rule heap_reach.step)
  from heap_reach_safe [OF reach] reach show ?thesis
    by (intro exI [of _ s]) (auto simp: sizeof_mem_block_def)
qed

text \<open>C6: Nobody else changes held data. In a reachable state, a step other than a write of the
  holder keeps every byte of a region that is held before the step and still held after it; in
  particular neither an allocation nor a release of another region writes into it.\<close>

theorem heap_step_keeps_data:
  assumes "heap_reach (s, H)" "heap_step (s, H) e (s', H')" "(r, k) \<in> H" "(r, k) \<in> H'"
    and "\<And>a v. e = Poke a v \<Longrightarrow> a \<notin> span r k"
  shows "bytes_at (mem s') r k = bytes_at (mem s) r k"
proof (rule bytes_at_span)
  obtain L where L: "holds s H L"
    using holds_reach [OF assms(1)] ..
  fix x
  assume x: "x \<in> span r k"
  then have inL: "x \<in> regions L"
    by (rule holds_regions [OF L assms(3)])
  show "mem s' x = mem s x"
    using assms(2)
  proof (elim heap_stepE, goal_cases)
    case (1 sz q)
    from holds_request [OF L 1(3,4)] inL show ?case by blast
  next
    case (2 q j)
    from holds_release [OF L 2(3)] obtain s2 where
      s2: "kfree q s = Some s2" "\<And>x. x \<in> regions L \<Longrightarrow> mem s2 x = mem s x"
      by metis
    with 2(4) inL show ?case by simp
  next
    case (3 q)
    with kfree_invalid [OF 3(3)] show ?case by auto
  next
    case (4 q j a v)
    then show ?case
      using assms(5) [of a v] x by (auto simp: with_mem_def)
  qed
qed

theorem heap_step_keeps_data_witness:
  "\<exists>s1 s2 q. kmalloc 100 booted = Some (0x120010, s1) \<and> kmalloc 8 s1 = Some (q, s2)
    \<and> bytes_at (mem s2) 0x120010 100 = bytes_at (mem s1) 0x120010 100"
proof -
  obtain s1 :: mm_state where s1: "kmalloc 100 booted = Some (0x120010, s1)"
    using booted_alloc100 by blast
  have "heap_step (booted, {}) (Request 100) (s1, {(0x120010, 100)})"
    using heap_step.request [OF _ s1, of "{}"] by simp
  with booted_reach have reach: "heap_reach (s1, {(0x120010, 100)})"
    by (rule heap_reach.step)
  obtain L where "holds s1 {(0x120010, 100)} L"
    using holds_reach [OF reach] ..
  then obtain q s2 where s2: "kmalloc 8 s1 = Some (q, s2)"
    using mm.alloc_returns [of s1 L 8] by (auto simp: holds_def)
  then have step: "heap_step (s1, {(0x120010, 100)}) (Request 8)
      (s2, if q = NULL then {(0x120010, 100)} else insert (q, unat (8 :: u32)) {(0x120010, 100)})"
    by (rule heap_step.request [rotated]) simp
  have "bytes_at (mem s2) 0x120010 100 = bytes_at (mem s1) 0x120010 100"
    by (rule heap_step_keeps_data [OF reach step]) auto
  with s1 s2 show ?thesis by blast
qed

subsection \<open>Memory that ends below the heap\<close>

text \<open>C19: \<open>init_heap\<close> compares sizes after an unsigned subtraction. When the memory reported by the
  boot loader ends below the page after the kernel (and that page is not within the last 2 MB of the
  address space), the subtraction wraps: the heap gets its full 2 MB, one free block from that page
  on, all of it beyond the reported memory, and it is a working heap. Every request of at most
  2097136 bytes succeeds, and every byte handed out lies beyond the reported memory.\<close>

theorem init_heap_beyond_memory:
  fixes s :: "'a mm_state_scheme" and kernel_end mb_info :: addr
  assumes "available_memory (mem s) mb_info < heap_base kernel_end"
    "unat (heap_base kernel_end) < 0xFFE00000" "0 < unat sz" "unat sz \<le> 2097136"
  defines "s' \<equiv> mm_init kernel_end mb_info s"
  shows "heap_size (mm_stats s') = HEAP_SIZE \<and> heap_ok s' [Blk 2097136 True]
    \<and> heap_start s' = heap_base kernel_end \<and> heap_end s' = heap_base kernel_end + HEAP_SIZE
    \<and> (\<forall>x. x \<in> heap_arena s' \<longrightarrow> available_memory (mem s) mb_info < x)
    \<and> (\<exists>r s2. kmalloc sz s' = Some (r, s2) \<and> r \<noteq> NULL \<and> span r (unat sz) \<subseteq> heap_arena s')"
proof -
  let ?A = "available_memory (mem s) mb_info" and ?h = "heap_base kernel_end"
  have "unat (?A - ?h) = unat ?A + 4294967296 - unat ?h"
    using assms(1) unat_sub_if' [of ?A ?h] by (auto simp: word32_less_nat)
  then have "2097152 \<le> unat (?A - ?h)"
    using assms(2) by simp
  then have n: "chosen_heap_size (mem s) kernel_end mb_info = 2097152"
    by (simp add: chosen_heap_size_def min_def word32_le_nat HEAP_SIZE_def)
  have base: "?h \<noteq> NULL"
    using assms(1) by auto
  have ok: "heap_ok s' [Blk 2097136 True]" "stats_ok s' [Blk 2097136 True]"
    using mm_init_blocks [OF base, of s mb_info] assms(2) unfolding n s'_def by simp_all
  then have own: "heap_owns s' {}"
    unfolding heap_owns_def by (intro exI [of _ "[Blk 2097136 True]"]) simp
  have sz: "unat sz \<le> 4294967288"
    using assms(4) by simp
  have "align_nat (unat sz) \<le> 2097136"
    using assms(4) by (simp add: align_nat_def)
  then have grants: "heap_grants sz s'"
    using heap_grants_fits [OF ok(1) assms(3) sz] by (simp add: fits_def)
  have "\<exists>r s2. kmalloc sz s' = Some (r, s2) \<and> r \<noteq> NULL \<and> span r (unat sz) \<subseteq> heap_arena s'"
    using own assms(3) sz
  proof (cases rule: kmalloc_owned)
    case fail
    with grants show ?thesis by (simp add: heap_grants_def)
  next
    case (grant r m s2)
    then have r: "(unat r, m) \<in> insert (unat r, m) {}" by simp
    have "span r (unat sz) \<subseteq> region (unat r) m"
      using mm.owned_span [OF grant(5) r grant(3)] grant(3) by auto
    with heap_owns_bounds [OF grant(5) r] grant(1,2) show ?thesis
      unfolding same_heap_arena [OF grant(6)] by blast
  qed
  moreover have "?A < x" if "x \<in> heap_arena s'" for x
    using that order.strict_trans2 [OF assms(1), of x] by (simp add: s'_def heap_arena_def mm_init_fields)
  ultimately show ?thesis
    using ok(1) by (simp add: s'_def mm_init_fields n HEAP_SIZE_def)
qed

text \<open>A machine whose boot loader reports 640 KB in all, while the kernel ends above 1 MB.\<close>

definition small_mm_state :: mm_state where
  "small_mm_state = blank_mm_state\<lparr>mem := store32 (store32 (\<lambda>_. 0) 0x9000 1) 0x9004 640\<rparr>"

theorem init_heap_beyond_memory_witness:
  "unat (available_memory (mem small_mm_state) 0x9000) = 655360
   \<and> heap_start (mm_init 0x120000 0x9000 small_mm_state) = 0x120000
   \<and> (\<exists>r s. kmalloc 100 (mm_init 0x120000 0x9000 small_mm_state) = Some (r, s) \<and> r \<noteq> NULL)"
proof -
  have avail: "available_memory (mem small_mm_state) 0x9000 = 655360"
    by (simp add: available_memory_def small_mm_state_def mb_flags_def mb_mem_lower_def mb_mem_upper_def
        mem_simps MULTIBOOT_INFO_MEMORY_def) (simp add: load32_def store32_def)
  have base: "heap_base 0x120000 = 0x120000"
    by (simp add: heap_base_def)
  show ?thesis
    using init_heap_beyond_memory [of small_mm_state "0x9000" "0x120000" 100] unfolding avail base
    by auto
qed

end
