(* ===== verification/Klist.thy ===== *)
theory Klist
  imports Machine
begin

text \<open>
  include/kernel/list.h: doubly linked rings of \<open>struct list_head\<close> in memory (next at offset
  0, prev at offset 4). The relation \<open>ring\<close> says which nodes a ring holds, in order. The
  operations implement the queue interface \<open>node_queue\<close>, which is what the IPC queues rely on.
\<close>

subsection \<open>struct list_head and its operations\<close>

definition lnext :: "mem \<Rightarrow> addr \<Rightarrow> addr" where "lnext m p = load32 m p"
definition lprev :: "mem \<Rightarrow> addr \<Rightarrow> addr" where "lprev m p = load32 m (p + 4)"
definition set_lnext :: "mem \<Rightarrow> addr \<Rightarrow> addr \<Rightarrow> mem" where "set_lnext m p v = store32 m p v"
definition set_lprev :: "mem \<Rightarrow> addr \<Rightarrow> addr \<Rightarrow> mem" where "set_lprev m p v = store32 m (p + 4) v"

lemmas link_defs [layout_defs] = lnext_def lprev_def set_lnext_def set_lprev_def

definition INIT_LIST_HEAD :: "mem \<Rightarrow> addr \<Rightarrow> mem" where
  "INIT_LIST_HEAD m h = set_lprev (set_lnext m h h) h h"

definition list_add_between :: "mem \<Rightarrow> addr \<Rightarrow> addr \<Rightarrow> addr \<Rightarrow> mem" where
  "list_add_between m new prev next =
     (let m = set_lprev m next new;
          m = set_lnext m new next;
          m = set_lprev m new prev
      in set_lnext m prev new)"

definition list_add_tail :: "mem \<Rightarrow> addr \<Rightarrow> addr \<Rightarrow> mem" where
  "list_add_tail m new head = list_add_between m new (lprev m head) head"

definition list_del_between :: "mem \<Rightarrow> addr \<Rightarrow> addr \<Rightarrow> mem" where
  "list_del_between m prev next =
     (let m = set_lprev m next prev in set_lnext m prev next)"

definition list_del :: "mem \<Rightarrow> addr \<Rightarrow> mem" where
  "list_del m entry =
     (let m = list_del_between m (lprev m entry) (lnext m entry);
          m = set_lnext m entry NULL
      in set_lprev m entry NULL)"

definition list_empty :: "mem \<Rightarrow> addr \<Rightarrow> bool" where
  "list_empty m head \<longleftrightarrow> lnext m head = head"

text \<open>\<open>list_for_each\<close> from \<open>pos\<close> on, as the list of the nodes it visits.\<close>

partial_function (option) list_for_each :: "mem \<Rightarrow> addr \<Rightarrow> addr \<Rightarrow> addr list option" where
  "list_for_each m pos head =
     (if pos = head then Some []
      else do { rest \<leftarrow> list_for_each m (lnext m pos) head; Some (pos # rest) })"

subsection \<open>Cells\<close>

text \<open>The eight bytes of a node, and the cells of several nodes.\<close>

definition cell :: "addr \<Rightarrow> addr set" where "cell p = span p 8"

definition cells :: "addr list \<Rightarrow> addr set" where "cells ps = (\<Union>p \<in> set ps. cell p)"

definition apart :: "addr \<Rightarrow> addr \<Rightarrow> bool" where
  "apart p q \<longleftrightarrow> cell p \<inter> cell q = {}"

lemma cells_simps [simp]:
  "cells [] = {}" "cells (p # ps) = cell p \<union> cells ps" "cells (xs @ ys) = cells xs \<union> cells ys"
  by (auto simp: cells_def)

lemma cell_subset_cells: "p \<in> set ps \<Longrightarrow> cell p \<subseteq> cells ps"
  by (auto simp: cells_def)

lemma apart_sym: "apart p q \<Longrightarrow> apart q p"
  by (auto simp: apart_def)

lemma apart_ne: "apart p q \<Longrightarrow> p \<noteq> q"
  by (auto simp: apart_def cell_def span_Suc numeral_eq_Suc)

lemma next_in_cell: "span p 4 \<subseteq> cell p"
  unfolding cell_def by (rule span_mono) simp

lemma prev_in_cell: "span (p + 4) 4 \<subseteq> cell p"
  unfolding cell_def by (rule span_offset_subset) simp

lemma cell_split: "cell p = span p 4 \<union> span (p + 4) 4"
  using span_split [of p 4 4] by (simp add: cell_def)

lemma link_same [simp]:
  "lnext (set_lnext m p v) p = v" "lprev (set_lnext m p v) p = lprev m p"
  "lprev (set_lprev m p v) p = v" "lnext (set_lprev m p v) p = lnext m p"
  by (simp_all add: link_defs mem_simps)

lemma link_apart:
  assumes "apart p q"
  shows "lnext (set_lnext m p v) q = lnext m q" "lprev (set_lnext m p v) q = lprev m q"
    "lprev (set_lprev m p v) q = lprev m q" "lnext (set_lprev m p v) q = lnext m q"
  using assms next_in_cell [of p] next_in_cell [of q] prev_in_cell [of p] prev_in_cell [of q]
  unfolding link_defs apart_def by (auto intro!: load32_store32_disjoint)

lemma set_link_other [frame]:
  "x \<notin> cell p \<Longrightarrow> set_lnext m p v x = m x" "x \<notin> cell p \<Longrightarrow> set_lprev m p v x = m x"
  by (auto simp: cell_split link_defs store32_other)

lemma link_cell:
  assumes "\<And>x. x \<in> cell p \<Longrightarrow> m x = m' x"
  shows "lnext m p = lnext m' p" "lprev m p = lprev m' p"
  unfolding link_defs by (rule load32_span, rule assms, simp add: cell_split)+

subsection \<open>Rings\<close>

text \<open>\<open>links m a ps b\<close>: the nodes \<open>ps\<close> are linked, in this order, between \<open>a\<close> and \<open>b\<close>.\<close>

fun links :: "mem \<Rightarrow> addr \<Rightarrow> addr list \<Rightarrow> addr \<Rightarrow> bool" where
  "links m a [] b \<longleftrightarrow> lnext m a = b \<and> lprev m b = a"
| "links m a (p # ps) b \<longleftrightarrow> lnext m a = p \<and> lprev m p = a \<and> links m p ps b"

definition ring :: "mem \<Rightarrow> addr \<Rightarrow> addr list \<Rightarrow> bool" where
  "ring m h ps \<longleftrightarrow> links m h ps h \<and> sorted_wrt apart (h # ps)"

lemma links_append [simp]: "links m a (xs @ p # ys) b \<longleftrightarrow> links m a xs p \<and> links m p ys b"
  by (induction xs arbitrary: a) auto

lemma links_ends: "links m a ps b \<Longrightarrow> lnext m a = hd (ps @ [b]) \<and> lprev m b = last (a # ps)"
  by (induction ps arbitrary: a) auto

text \<open>Linking depends on the next field of the first node, on the prev field of the last one and
  on the nodes between them.\<close>

lemma links_frame:
  assumes "links m a ps b" "lnext m' a = lnext m a" "lprev m' b = lprev m b"
    "\<And>p. p \<in> set ps \<Longrightarrow> lnext m' p = lnext m p \<and> lprev m' p = lprev m p"
  shows "links m' a ps b"
  using assms by (induction ps arbitrary: a) auto

lemma ring_frame:
  assumes "ring m h ps" "\<And>x. x \<in> cells (h # ps) \<Longrightarrow> m' x = m x"
  shows "ring m' h ps"
proof -
  have keep: "lnext m' p = lnext m p \<and> lprev m' p = lprev m p" if "p \<in> set (h # ps)" for p
  proof -
    have "\<And>x. x \<in> cell p \<Longrightarrow> m' x = m x"
      using assms(2) cell_subset_cells [OF that] by blast
    then show ?thesis
      using link_cell(1) [of p m' m] link_cell(2) [of p m' m] by simp
  qed
  have "links m h ps h"
    using assms(1) by (simp add: ring_def)
  then have "links m' h ps h"
    by (rule links_frame) (simp_all add: keep)
  with assms(1) show ?thesis
    by (simp add: ring_def)
qed

lemma sorted_wrt_apart_middle:
  "sorted_wrt apart (xs @ p # ys) \<longleftrightarrow> sorted_wrt apart (xs @ ys) \<and> (\<forall>q \<in> set (xs @ ys). apart p q)"
  by (auto simp: sorted_wrt_append intro: apart_sym)

lemma list_add_between_other:
  "x \<notin> cell new \<Longrightarrow> x \<notin> cell p \<Longrightarrow> x \<notin> cell q \<Longrightarrow> list_add_between m new p q x = m x"
  by (simp add: list_add_between_def Let_def set_link_other)

lemma list_del_between_other:
  "x \<notin> cell p \<Longrightarrow> x \<notin> cell q \<Longrightarrow> list_del_between m p q x = m x"
  by (simp add: list_del_between_def Let_def set_link_other)

text \<open>Two nodes of a ring are the same node or do not overlap; an update of one field is then
  visible in that field only.\<close>

lemma ring_apart:
  assumes "sorted_wrt apart ps" "p \<in> set ps" "q \<in> set ps"
  shows "p = q \<or> apart p q"
  using assms by (induction ps) (auto intro: apart_sym)

lemma link_upd:
  assumes "p = q \<or> apart p q"
  shows "lnext (set_lnext m p v) q = (if p = q then v else lnext m q)"
    "lprev (set_lprev m p v) q = (if p = q then v else lprev m q)"
    "lprev (set_lnext m p v) q = lprev m q" "lnext (set_lprev m p v) q = lnext m q"
  using assms by (auto simp: link_apart)

lemma links_retarget:
  assumes "links m a ps p" "lnext m' (last (a # ps)) = b" "lprev m' b = last (a # ps)"
    "\<And>q. q \<in> set (butlast (a # ps)) \<Longrightarrow> lnext m' q = lnext m q"
    "\<And>q. q \<in> set ps \<Longrightarrow> lprev m' q = lprev m q"
  shows "links m' a ps b"
  using assms
proof (induction ps arbitrary: a)
  case Nil
  then show ?case by simp
next
  case (Cons q qs)
  then have "links m' q qs b"
    by (intro Cons.IH) auto
  with Cons.prems show ?case by simp
qed

lemma ring_INIT_LIST_HEAD: "ring (INIT_LIST_HEAD m h) h []"
  by (simp add: ring_def INIT_LIST_HEAD_def)

lemma ring_empty: "ring m h ps \<Longrightarrow> list_empty m h \<longleftrightarrow> ps = []"
  by (cases ps) (auto simp: ring_def list_empty_def dest: apart_ne)

lemma ring_first: "ring m h (p # ps) \<Longrightarrow> lnext m h = p"
  by (simp add: ring_def)

lemma butlast_distinct_last: "distinct xs \<Longrightarrow> q \<in> set (butlast xs) \<Longrightarrow> q \<noteq> last xs"
  by (induction xs) (auto split: if_splits)

lemma sorted_wrt_apart_distinct: "sorted_wrt apart ps \<Longrightarrow> distinct ps"
  by (induction ps) (auto dest: apart_ne)

lemma ring_list_add_tail:
  assumes "ring m h ps" "\<And>q. q \<in> set (h # ps) \<Longrightarrow> apart p q"
  shows "ring (list_add_tail m p h) h (ps @ [p])"
proof -
  define l where "l = last (h # ps)"
  define m' where "m' = list_add_tail m p h"
  from assms(1) have lk: "links m h ps h" "lprev m h = l" and s: "sorted_wrt apart (h # ps)"
    by (auto simp: ring_def l_def dest: links_ends)
  have s': "sorted_wrt apart (h # ps @ [p])"
    using s assms(2) by (auto simp: sorted_wrt_append intro: apart_sym)
  define N where "N = set (h # ps @ [p])"
  note near = ring_apart [OF s', folded N_def] and dist = sorted_wrt_apart_distinct [OF s']
  have "l \<in> set (h # ps)"
    unfolding l_def by (rule last_in_set) simp
  then have inN: "l \<in> N" "h \<in> N" "p \<in> N" "\<And>q. q \<in> set ps \<Longrightarrow> q \<in> N" and np: "p \<noteq> l" "p \<noteq> h" "p \<notin> set ps"
    using dist by (auto simp: N_def)
  have m: "m' = set_lnext (set_lprev (set_lnext (set_lprev m h p) p h) p l) l p"
    by (simp add: m'_def list_add_tail_def list_add_between_def lk(2))
  have nx: "lnext m' q = (if q = l then p else if q = p then h else lnext m q)"
    and pv: "lprev m' q = (if q = h then p else if q = p then l else lprev m q)" if "q \<in> N" for q
    using that inN np unfolding m by (simp_all add: link_upd [OF near])
  have "links m' h ps p"
  proof (rule links_retarget [OF lk(1)], unfold l_def [symmetric])
    show "lnext m' q = lnext m q" if "q \<in> set (butlast (h # ps))" for q
      using that nx [of q] butlast_distinct_last [of "h # ps" q] dist inN np
      by (auto simp: l_def dest: in_set_butlastD split: if_splits)
    show "lprev m' q = lprev m q" if "q \<in> set ps" for q
      using that pv [of q] inN dist np by auto
  qed (use nx pv inN np in simp_all)
  then show ?thesis
    using s' nx pv inN np by (simp add: ring_def m'_def [symmetric])
qed

lemma list_add_tail_other:
  assumes "ring m h ps" "x \<notin> cell p" "x \<notin> cells (h # ps)"
  shows "list_add_tail m p h x = m x"
proof -
  have "lprev m h = last (h # ps)"
    using assms(1) by (auto simp: ring_def dest: links_ends)
  moreover have "cell (last (h # ps)) \<subseteq> cells (h # ps)"
    by (intro cell_subset_cells last_in_set) simp
  ultimately show ?thesis
    using assms(2,3) by (auto simp: list_add_tail_def intro!: list_add_between_other)
qed

lemma ring_list_del:
  assumes "ring m h (xs @ p # ys)"
  shows "ring (list_del m p) h (xs @ ys)"
proof -
  define a where "a = last (h # xs)"
  define b where "b = hd (ys @ [h])"
  define m' where "m' = list_del m p"
  from assms have lk: "links m h xs p" "links m p ys h" and s: "sorted_wrt apart (h # xs @ p # ys)"
    by (auto simp: ring_def)
  have ab: "lprev m p = a" "lnext m p = b"
    using links_ends [OF lk(1)] links_ends [OF lk(2)] by (simp_all add: a_def b_def)
  define N where "N = set (h # xs @ p # ys)"
  note near = ring_apart [OF s, folded N_def] and dist = sorted_wrt_apart_distinct [OF s]
  have a: "a \<in> set (h # xs)"
    unfolding a_def by (rule last_in_set) simp
  have b: "b \<in> set (ys @ [h])"
    unfolding b_def by (rule hd_in_set) simp
  have inN: "a \<in> N" "b \<in> N" "h \<in> N" "p \<in> N" "\<And>q. q \<in> set xs \<union> set ys \<Longrightarrow> q \<in> N"
    and np: "p \<noteq> a" "p \<noteq> b" "p \<noteq> h" "p \<notin> set xs" "p \<notin> set ys"
    using a b dist by (auto simp: N_def)
  have m: "m' = set_lprev (set_lnext (set_lnext (set_lprev m b a) a b) p NULL) p NULL"
    by (simp add: m'_def list_del_def list_del_between_def Let_def ab)
  have nx: "lnext m' q = (if q = p then NULL else if q = a then b else lnext m q)"
    and pv: "lprev m' q = (if q = p then NULL else if q = b then a else lprev m q)" if "q \<in> N" for q
    using that inN np unfolding m by (simp_all add: link_upd [OF near])
  have "links m' h xs b"
  proof (rule links_retarget [OF lk(1)], unfold a_def [symmetric])
    show "lnext m' q = lnext m q" if "q \<in> set (butlast (h # xs))" for q
      using that nx [of q] butlast_distinct_last [of "h # xs" q] dist inN np
      by (auto simp: a_def dest: in_set_butlastD split: if_splits)
    show "lprev m' q = lprev m q" if "q \<in> set xs" for q
    proof -
      have "q \<noteq> b" using that b dist by auto
      with that pv [of q] inN np show ?thesis by auto
    qed
  qed (use nx pv inN np in simp_all)
  moreover have "sorted_wrt apart (h # xs @ ys)"
    using s by (simp add: sorted_wrt_append)
  moreover have "links m' h (xs @ ys) h"
  proof (cases ys)
    case Nil
    with \<open>links m' h xs b\<close> show ?thesis by (simp add: b_def)
  next
    case (Cons c zs)
    then have c: "b = c" by (simp add: b_def)
    have "links m' b zs h"
    proof (rule links_frame)
      show "links m b zs h"
        using lk(2) by (simp add: Cons c)
      have "a \<notin> set ys" "h \<noteq> b"
        using a dist by (auto simp: Cons c)
      then show "lnext m' b = lnext m b" "lprev m' h = lprev m h"
        using nx [of b] pv [of h] inN np by (auto simp: Cons c)
      fix q
      assume "q \<in> set zs"
      moreover from this have "q \<noteq> a" "q \<noteq> b" "q \<noteq> p"
        using a dist np by (auto simp: Cons c)
      ultimately show "lnext m' q = lnext m q \<and> lprev m' q = lprev m q"
        using nx [of q] pv [of q] inN by (simp add: Cons)
    qed
    with \<open>links m' h xs b\<close> show ?thesis
      by (simp add: Cons c)
  qed
  ultimately show ?thesis
    by (simp add: ring_def m'_def)
qed

lemma list_del_other:
  assumes "ring m h (xs @ p # ys)" "x \<notin> cells (h # xs @ p # ys)"
  shows "list_del m p x = m x"
proof -
  from assms(1) have "links m h xs p" "links m p ys h"
    by (auto simp: ring_def)
  then have "lprev m p = last (h # xs)" "lnext m p = hd (ys @ [h])"
    using links_ends by fastforce+
  moreover have "last (h # xs) \<in> set (h # xs)" "hd (ys @ [h]) \<in> set (ys @ [h])"
    by (rule last_in_set, simp) (rule hd_in_set, simp)
  then have "cell (last (h # xs)) \<subseteq> cells (h # xs)" "cell (hd (ys @ [h])) \<subseteq> cells (ys @ [h])"
    by (blast intro!: cell_subset_cells)+
  moreover have "list_del_between m (last (h # xs)) (hd (ys @ [h])) x = m x"
    using calculation assms(2) by (intro list_del_between_other) auto
  ultimately show ?thesis
    using assms(2) by (simp add: list_del_def Let_def set_link_other)
qed

text \<open>A walk over a ring visits its nodes in order and returns.\<close>

lemma list_for_each_links:
  "links m a ps h \<Longrightarrow> h \<notin> set ps \<Longrightarrow> list_for_each m (lnext m a) h = Some ps"
proof (induction ps arbitrary: a)
  case Nil
  then show ?case by (subst list_for_each.simps) simp
next
  case (Cons p ps)
  then show ?case by (subst list_for_each.simps) auto
qed

lemma ring_for_each: "ring m h ps \<Longrightarrow> list_for_each m (lnext m h) h = Some ps"
  by (intro list_for_each_links) (auto simp: ring_def dest: apart_ne)

subsection \<open>The interface of queues of nodes\<close>

text \<open>
  A queue whose links live in its nodes: \<open>rep m h ps\<close> says that the queue with head \<open>h\<close>
  holds the nodes \<open>ps\<close>, first to last, and \<open>foot p\<close> are the bytes of \<open>p\<close> that the queue uses.
\<close>

locale node_queue =
  fixes init :: "mem \<Rightarrow> addr \<Rightarrow> mem"
    and enq :: "mem \<Rightarrow> addr \<Rightarrow> addr \<Rightarrow> mem"
    and del :: "mem \<Rightarrow> addr \<Rightarrow> mem"
    and empty :: "mem \<Rightarrow> addr \<Rightarrow> bool"
    and front :: "mem \<Rightarrow> addr \<Rightarrow> addr"
    and rep :: "mem \<Rightarrow> addr \<Rightarrow> addr list \<Rightarrow> bool"
    and foot :: "addr \<Rightarrow> addr set"
  assumes rep_init: "rep (init m h) h []"
    and init_frame: "x \<notin> foot h \<Longrightarrow> init m h x = m x"
    and rep_empty: "rep m h ps \<Longrightarrow> empty m h \<longleftrightarrow> ps = []"
    and rep_front: "rep m h (p # ps) \<Longrightarrow> front m h = p"
    and rep_enq: "rep m h ps \<Longrightarrow> (\<And>q. q \<in> set (h # ps) \<Longrightarrow> foot p \<inter> foot q = {})
      \<Longrightarrow> rep (enq m p h) h (ps @ [p])"
    and enq_frame: "rep m h ps \<Longrightarrow> x \<notin> foot p \<Longrightarrow> x \<notin> \<Union> (foot ` set (h # ps)) \<Longrightarrow> enq m p h x = m x"
    and rep_del: "rep m h (xs @ p # ys) \<Longrightarrow> rep (del m p) h (xs @ ys)"
    and del_frame: "rep m h (xs @ p # ys) \<Longrightarrow> x \<notin> \<Union> (foot ` set (h # xs @ p # ys)) \<Longrightarrow> del m p x = m x"
    and rep_frame: "rep m h ps \<Longrightarrow> (\<And>x. x \<in> \<Union> (foot ` set (h # ps)) \<Longrightarrow> m' x = m x) \<Longrightarrow> rep m' h ps"
    and rep_apart: "rep m h ps \<Longrightarrow> p \<in> set (h # ps) \<Longrightarrow> q \<in> set (h # ps) \<Longrightarrow> p \<noteq> q
      \<Longrightarrow> foot p \<inter> foot q = {}"
begin

text \<open>Two queues that share no byte: an operation on one leaves the other alone.\<close>

lemma enq_other:
  assumes "rep m h ps" "rep m k qs" "\<Union> (foot ` set (h # p # ps)) \<inter> \<Union> (foot ` set (k # qs)) = {}"
  shows "rep (enq m p h) k qs"
  using assms(2) by (rule rep_frame) (rule enq_frame [OF assms(1)], use assms(3) in auto)

lemma del_other:
  assumes "rep m h (xs @ p # ys)" "rep m k qs"
    "\<Union> (foot ` set (h # xs @ p # ys)) \<inter> \<Union> (foot ` set (k # qs)) = {}"
  shows "rep (del m p) k qs"
  using assms(2) by (rule rep_frame) (rule del_frame [OF assms(1)], use assms(3) in auto)

lemma rep_del_front:
  assumes "rep m h (p # ps)"
  shows "rep (del m (front m h)) h ps"
  using rep_del [of m h "[]" p ps] rep_front [OF assms] assms by simp

text \<open>First in, first out: what was appended leaves the queue in the order of arrival.\<close>

lemma rep_enq_all:
  assumes "rep m h ps" "\<And>p q. p \<in> set qs \<Longrightarrow> q \<in> set (h # ps @ qs) \<Longrightarrow> p \<noteq> q \<Longrightarrow> foot p \<inter> foot q = {}"
    "distinct (h # ps @ qs)"
  shows "rep (fold (\<lambda>p m. enq m p h) qs m) h (ps @ qs)"
  using assms
proof (induction qs arbitrary: m ps)
  case Nil
  then show ?case by simp
next
  case (Cons q qs)
  have "rep (enq m q h) h (ps @ [q])"
    using Cons.prems(1) by (rule rep_enq) (use Cons.prems(2) [of q] Cons.prems(3) in auto)
  then have "rep (fold (\<lambda>p m. enq m p h) qs (enq m q h)) h ((ps @ [q]) @ qs)"
    by (rule Cons.IH) (use Cons.prems in auto)
  then show ?case by simp
qed

lemma rep_drain: "rep m h (ps @ qs) \<Longrightarrow> rep (((\<lambda>m. del m (front m h)) ^^ length ps) m) h qs"
proof (induction ps arbitrary: m)
  case Nil
  then show ?case by simp
next
  case (Cons p ps)
  then have "rep (del m (front m h)) h (ps @ qs)"
    by (intro rep_del_front) simp
  from Cons.IH [OF this] show ?case
    by (simp add: funpow_Suc_right del: funpow.simps)
qed

end

lemma cells_eq: "cells ps = \<Union> (cell ` set ps)"
  by (auto simp: cells_def)

interpretation kq: node_queue INIT_LIST_HEAD list_add_tail list_del list_empty lnext ring cell
proof unfold_locales
  fix m h p x and ps xs ys :: "addr list"
  show "ring (INIT_LIST_HEAD m h) h []"
    by (rule ring_INIT_LIST_HEAD)
  show "x \<notin> cell h \<Longrightarrow> INIT_LIST_HEAD m h x = m x"
    by (simp add: INIT_LIST_HEAD_def set_link_other)
  show "ring m h ps \<Longrightarrow> list_empty m h \<longleftrightarrow> ps = []"
    by (rule ring_empty)
  show "ring m h (p # ps) \<Longrightarrow> lnext m h = p"
    by (rule ring_first)
  show "ring m h ps \<Longrightarrow> (\<And>q. q \<in> set (h # ps) \<Longrightarrow> cell p \<inter> cell q = {}) \<Longrightarrow> ring (list_add_tail m p h) h (ps @ [p])"
    by (rule ring_list_add_tail) (simp_all add: apart_def)
  show "ring m h ps \<Longrightarrow> x \<notin> cell p \<Longrightarrow> x \<notin> \<Union> (cell ` set (h # ps)) \<Longrightarrow> list_add_tail m p h x = m x"
    unfolding cells_eq [symmetric] by (rule list_add_tail_other)
  show "ring m h (xs @ p # ys) \<Longrightarrow> ring (list_del m p) h (xs @ ys)"
    by (rule ring_list_del)
  show "ring m h (xs @ p # ys) \<Longrightarrow> x \<notin> \<Union> (cell ` set (h # xs @ p # ys)) \<Longrightarrow> list_del m p x = m x"
    unfolding cells_eq [symmetric] by (rule list_del_other)
  show "ring m h ps \<Longrightarrow> (\<And>x. x \<in> \<Union> (cell ` set (h # ps)) \<Longrightarrow> m' x = m x) \<Longrightarrow> ring m' h ps" for m'
    unfolding cells_eq [symmetric] by (rule ring_frame)
  show "ring m h ps \<Longrightarrow> p \<in> set (h # ps) \<Longrightarrow> q \<in> set (h # ps) \<Longrightarrow> p \<noteq> q \<Longrightarrow> cell p \<inter> cell q = {}" for q
    using ring_apart [of "h # ps" p q] by (auto simp: ring_def apart_def)
qed

end
