(* ===== verification/Ipc.thy ===== *)
theory Ipc
  imports Klist Mm_Contract
begin

text \<open>
  kernel/src/ipc/ipc.c: 32 queues of messages, one per process. The heads of the queues are
  the static array \<open>message_queues\<close>, at the address \<open>mq\<close> the linker gives it; the messages
  are nodes on the kernel heap, linked through list.h. The abstract mailbox is a list of
  messages per process, and the operations refine appending to it and taking from it.
\<close>

subsection \<open>Data\<close>

text \<open>
  struct ipc_message_node: the list node at offset 0, from_pid at 8, to_pid at 12, type at
  16, size at 20, and the data from 24 on (a zero-length array, so sizeof is 24).
\<close>

definition sizeof_ipc_message_node :: u32 where "sizeof_ipc_message_node = 24"

definition msg_from :: "mem \<Rightarrow> addr \<Rightarrow> u32" where "msg_from m p = load32 m (p + 8)"
definition msg_to :: "mem \<Rightarrow> addr \<Rightarrow> u32" where "msg_to m p = load32 m (p + 12)"
definition msg_type :: "mem \<Rightarrow> addr \<Rightarrow> u32" where "msg_type m p = load32 m (p + 16)"
definition msg_size :: "mem \<Rightarrow> addr \<Rightarrow> u32" where "msg_size m p = load32 m (p + 20)"
definition msg_data :: "addr \<Rightarrow> addr" where "msg_data p = p + 24"

lemmas msg_defs [layout_defs] = msg_from_def msg_to_def msg_type_def msg_size_def msg_data_def

definition queue_head :: "addr \<Rightarrow> u32 \<Rightarrow> addr" where "queue_head mq pid = mq + 8 * pid"

definition IPC_TYPE_SYSTEM :: u32 where "IPC_TYPE_SYSTEM = 0"
definition IPC_TYPE_DATA :: u32 where "IPC_TYPE_DATA = 1"
definition IPC_TYPE_COMMAND :: u32 where "IPC_TYPE_COMMAND = 2"

text \<open>The stub of include/kernel/ipc.h: there is one process, number 0.\<close>

definition get_current_pid :: u32 where "get_current_pid = 0"

subsection \<open>Operations\<close>

definition ipc_init :: "addr \<Rightarrow> 'a mm_state_scheme \<Rightarrow> 'a mm_state_scheme" where
  "ipc_init mq s =
     printk (''IPC system initialized'' @ nl)
       (with_mem (fold (\<lambda>i m. INIT_LIST_HEAD m (queue_head mq (of_nat i))) [0..<32] (mem s)) s)"

definition ipc_fill :: "mem \<Rightarrow> addr \<Rightarrow> u32 \<Rightarrow> addr \<Rightarrow> u32 \<Rightarrow> u32 \<Rightarrow> mem" where
  "ipc_fill m node to_pid data sz type =
     (let m = store32 m (node + 8) get_current_pid;
          m = store32 m (node + 12) to_pid;
          m = store32 m (node + 16) type;
          m = store32 m (node + 20) sz;
          m = memcpy m (msg_data node) data sz
      in INIT_LIST_HEAD m node)"

definition ipc_send :: "addr \<Rightarrow> u32 \<Rightarrow> addr \<Rightarrow> u32 \<Rightarrow> u32 \<Rightarrow> 'a mm_state_scheme
    \<Rightarrow> (int \<times> 'a mm_state_scheme) option" where
  "ipc_send mq to_pid data sz type s =
     (if to_pid \<ge> 32 then Some (0, s)
      else do {
        (node, s) \<leftarrow> kmalloc (sizeof_ipc_message_node + sz) s;
        if node = NULL then Some (0, s)
        else let m = ipc_fill (mem s) node to_pid data sz type;
                 m = list_add_tail m node (queue_head mq to_pid)
             in Some (1, printk (''IPC message sent from %d to %d, type %d, size %d'' @ nl) (with_mem m s))
      })"

text \<open>The copies to the caller: where a pointer is null, nothing is stored.\<close>

definition store_out :: "mem \<Rightarrow> addr \<Rightarrow> u32 \<Rightarrow> mem" where
  "store_out m p v = (if p \<noteq> NULL then store32 m p v else m)"

definition ipc_copy_out :: "mem \<Rightarrow> addr \<Rightarrow> addr \<Rightarrow> addr \<Rightarrow> u32 \<Rightarrow> addr \<Rightarrow> u32 \<times> mem" where
  "ipc_copy_out m node from_pid buffer sz type =
     (let m = store_out m from_pid (msg_from m node);
          m = store_out m type (msg_type m node);
          copy_size = (if sz < msg_size m node then sz else msg_size m node)
      in (copy_size,
          if copy_size > 0 \<and> buffer \<noteq> NULL then memcpy m buffer (msg_data node) copy_size else m))"

definition ipc_receive :: "addr \<Rightarrow> addr \<Rightarrow> addr \<Rightarrow> u32 \<Rightarrow> addr \<Rightarrow> 'a mm_state_scheme
    \<Rightarrow> (int \<times> 'a mm_state_scheme) option" where
  "ipc_receive mq from_pid buffer sz type s =
     (let pid = get_current_pid in
      if pid \<ge> 32 then Some (0, s)
      else if list_empty (mem s) (queue_head mq pid) then Some (0, s)
      else do {
        let node = lnext (mem s) (queue_head mq pid);
        let m = list_del (mem s) node;
        let (copy_size, m) = ipc_copy_out m node from_pid buffer sz type;
        s \<leftarrow> kfree node (with_mem m s);
        Some (sint copy_size,
          printk (''IPC message received by %d from %d, type %d, size %d'' @ nl) s)
      })"

text \<open>The line \<open>ipc_process_messages\<close> logs for a message of a type.\<close>

definition process_line :: "u32 \<Rightarrow> string" where
  "process_line type =
     (if type = IPC_TYPE_SYSTEM then ''System IPC message from PID %d: %s'' @ nl
      else if type = IPC_TYPE_DATA then ''Data IPC message from PID %d, size: %d'' @ nl
      else if type = IPC_TYPE_COMMAND then ''Command IPC message from PID %d: %d'' @ nl
      else ''Unknown IPC message type %d from PID %d'' @ nl)"

definition ipc_process_messages :: "addr \<Rightarrow> 'a mm_state_scheme \<Rightarrow> 'a mm_state_scheme option" where
  "ipc_process_messages mq s =
     (let current_pid = get_current_pid; head = queue_head mq current_pid in
      if current_pid \<ge> 32 then Some s
      else if list_empty (mem s) head then Some s
      else let pos = lnext (mem s) head in
        if pos = head then Some s
        else let s = printk (process_line (msg_type (mem s) pos)) s
             in kfree pos (with_mem (list_del (mem s) pos) s))"

subsection \<open>Mailboxes\<close>

datatype ipc_msg = Msg (mfrom: u32) (mto: u32) (mtype: u32) (mdata: "u8 list")

text \<open>The message in the node at \<open>p\<close>, whose region on the heap has \<open>n\<close> bytes.\<close>

definition node_ok :: "mem \<Rightarrow> addr \<Rightarrow> nat \<Rightarrow> ipc_msg \<Rightarrow> bool" where
  "node_ok m p n msg \<longleftrightarrow> 24 + length (mdata msg) \<le> n
     \<and> msg_from m p = mfrom msg \<and> msg_to m p = mto msg \<and> msg_type m p = mtype msg
     \<and> msg_size m p = of_nat (length (mdata msg))
     \<and> bytes_at m (msg_data p) (length (mdata msg)) = mdata msg"

type_synonym queues = "nat \<Rightarrow> (addr \<times> nat \<times> ipc_msg) list"

definition nodes :: "queues \<Rightarrow> nat \<Rightarrow> addr list" where "nodes Q i = map fst (Q i)"

definition node_regions :: "queues \<Rightarrow> (nat \<times> nat) set" where
  "node_regions Q = (\<Union>i \<in> {..<32}. (\<lambda>(p, n, msg). (unat p, n)) ` set (Q i))"

definition heads :: "addr \<Rightarrow> addr set" where "heads mq = span mq 256"

text \<open>
  The queues in memory. \<open>L\<close> are the heap regions of everybody else; the nodes hold regions of
  their own, and the array of queue heads lies outside the heap.
\<close>

definition ipc_ok :: "addr \<Rightarrow> 'a mm_state_scheme \<Rightarrow> (nat \<times> nat) set \<Rightarrow> queues \<Rightarrow> bool" where
  "ipc_ok mq s L Q \<longleftrightarrow> heap_owns s (L \<union> node_regions Q) \<and> L \<inter> node_regions Q = {}
     \<and> heads mq \<inter> heap_arena s = {} \<and> unat mq + 256 \<le> 4294967296
     \<and> (\<forall>i < 32. ring (mem s) (queue_head mq (of_nat i)) (nodes Q i))
     \<and> (\<forall>i < 32. \<forall>(p, n, msg) \<in> set (Q i). node_ok (mem s) p n msg)
     \<and> (\<forall>i < 32. \<forall>j < 32. i \<noteq> j \<longrightarrow> set (nodes Q i) \<inter> set (nodes Q j) = {})"

text \<open>The mailbox of every process: its messages, oldest first.\<close>

definition ipc_rep :: "addr \<Rightarrow> 'a mm_state_scheme \<Rightarrow> (nat \<times> nat) set \<Rightarrow> (nat \<Rightarrow> ipc_msg list) \<Rightarrow> bool" where
  "ipc_rep mq s L q \<longleftrightarrow> (\<exists>Q. ipc_ok mq s L Q \<and> (\<forall>i < 32. q i = map (snd \<circ> snd) (Q i)))"

subsection \<open>Where the cells of the queues lie\<close>

lemma unat_queue_head:
  assumes "unat mq + 256 \<le> 4294967296" "i < 32"
  shows "unat (queue_head mq (of_nat i)) = unat mq + 8 * i"
proof -
  have "queue_head mq (of_nat i) = mq + of_nat (8 * i)"
    by (simp add: queue_head_def)
  moreover have "unat (mq + of_nat (8 * i)) = unat mq + 8 * i"
    using assms by (intro unat_add_of_nat) simp
  ultimately show ?thesis by simp
qed

lemma in_head_cell:
  "unat mq + 256 \<le> 4294967296 \<Longrightarrow> i < 32 \<Longrightarrow> x \<in> cell (queue_head mq (of_nat i))
   \<longleftrightarrow> unat mq + 8 * i \<le> unat x \<and> unat x < unat mq + 8 * i + 8"
  unfolding cell_def by (subst in_span_nowrap) (simp_all add: unat_queue_head)

lemma head_cell_subset:
  "unat mq + 256 \<le> 4294967296 \<Longrightarrow> i < 32 \<Longrightarrow> cell (queue_head mq (of_nat i)) \<subseteq> heads mq"
  by (auto simp: in_head_cell heads_def in_span_nowrap)

lemma head_cells_disjoint:
  "unat mq + 256 \<le> 4294967296 \<Longrightarrow> i < 32 \<Longrightarrow> j < 32 \<Longrightarrow> i \<noteq> j
   \<Longrightarrow> cell (queue_head mq (of_nat i)) \<inter> cell (queue_head mq (of_nat j)) = {}"
  by (auto simp: in_head_cell)

lemma ipc_okD:
  assumes "ipc_ok mq s L Q"
  shows "heap_owns s (L \<union> node_regions Q)" "L \<inter> node_regions Q = {}" "heads mq \<inter> heap_arena s = {}"
    "\<And>i. i < 32 \<Longrightarrow> ring (mem s) (queue_head mq (of_nat i)) (nodes Q i)"
    "\<And>i p n msg. i < 32 \<Longrightarrow> (p, n, msg) \<in> set (Q i) \<Longrightarrow> node_ok (mem s) p n msg"
    "\<And>i j. i < 32 \<Longrightarrow> j < 32 \<Longrightarrow> i \<noteq> j \<Longrightarrow> set (nodes Q i) \<inter> set (nodes Q j) = {}"
    "unat mq + 256 \<le> 4294967296"
  using assms by (auto simp: ipc_ok_def)

lemma node_regionsI: "i < 32 \<Longrightarrow> (p, n, msg) \<in> set (Q i) \<Longrightarrow> (unat p, n) \<in> node_regions Q"
  by (force simp: node_regions_def)

lemma in_nodes: "p \<in> set (nodes Q i) \<longleftrightarrow> (\<exists>n msg. (p, n, msg) \<in> set (Q i))"
  by (force simp: nodes_def)

lemma node_cell:
  assumes "ipc_ok mq s L Q" "i < 32" "p \<in> set (nodes Q i)"
  obtains n msg where "(p, n, msg) \<in> set (Q i)" "(unat p, n) \<in> node_regions Q" "24 \<le> n"
    "cell p \<subseteq> regions (node_regions Q)"
proof -
  from assms(3) obtain n msg where e: "(p, n, msg) \<in> set (Q i)"
    by (auto simp: in_nodes)
  with ipc_okD(5) [OF assms(1,2)] have n: "24 \<le> n"
    by (fastforce simp: node_ok_def)
  have own: "(unat p, n) \<in> L \<union> node_regions Q"
    using node_regionsI [of i p n msg Q] assms(2) e by blast
  have "cell p = region (unat p) 8"
    unfolding cell_def using mm.owned_span [OF ipc_okD(1) [OF assms(1)] own] n by simp
  then have "cell p \<subseteq> region (unat p) n"
    using n by auto
  also have "\<dots> \<subseteq> regions (node_regions Q)"
    using node_regionsI [of i p n msg Q] assms(2) e by (intro region_subset_regions) blast
  finally show thesis
    using that e n node_regionsI [of i p n msg Q] assms(2) by blast
qed

lemma queue_cells_subset:
  assumes "ipc_ok mq s L Q" "i < 32"
  shows "\<Union> (cell ` set (queue_head mq (of_nat i) # nodes Q i)) \<subseteq> heads mq \<union> regions (node_regions Q)"
proof -
  have "cell p \<subseteq> regions (node_regions Q)" if "p \<in> set (nodes Q i)" for p
    using assms that by (rule node_cell)
  moreover have "cell (queue_head mq (of_nat i)) \<subseteq> heads mq"
    using ipc_okD(7) [OF assms(1)] assms(2) by (rule head_cell_subset)
  ultimately show ?thesis
    by (simp add: UN_subset_iff le_supI1 le_supI2)
qed

text \<open>Two nodes of the queues are the same node, or their regions are disjoint.\<close>

lemma nodes_disjoint:
  assumes "ipc_ok mq s L Q" "i < 32" "j < 32" "(p, n, x) \<in> set (Q i)" "(q, k, y) \<in> set (Q j)" "p \<noteq> q"
    "a \<le> n" "b \<le> k"
  shows "span p a \<inter> span q b = {}"
  using assms(2-8) node_regionsI [of i p n x Q] node_regionsI [of j q k y Q]
  by (intro mm.owned_spans_disjoint [OF ipc_okD(1) [OF assms(1)], of p n q k]) auto

lemma queue_cells_disjoint:
  assumes "ipc_ok mq s L Q" "i < 32" "j < 32" "i \<noteq> j"
  shows "\<Union> (cell ` set (queue_head mq (of_nat i) # nodes Q i))
    \<inter> \<Union> (cell ` set (queue_head mq (of_nat j) # nodes Q j)) = {}"
proof -
  let ?h = "\<lambda>k. cell (queue_head mq (of_nat k))"
  have arena: "regions (node_regions Q) \<subseteq> heap_arena s"
    using mm.owned_arena [OF ipc_okD(1) [OF assms(1)]] by (auto simp: regions_def)
  have head: "?h k \<inter> cell p = {}" if "k < 32" "l < 32" "p \<in> set (nodes Q l)" for k l p
  proof -
    have "cell p \<subseteq> regions (node_regions Q)"
      using assms(1) that(2,3) by (rule node_cell)
    moreover have "?h k \<subseteq> heads mq"
      using ipc_okD(7) [OF assms(1)] that(1) by (rule head_cell_subset)
    ultimately show ?thesis
      using arena ipc_okD(3) [OF assms(1)] by blast
  qed
  have node: "cell p \<inter> cell q = {}" if "p \<in> set (nodes Q i)" "q \<in> set (nodes Q j)" for p q
  proof -
    have "p \<noteq> q"
      using that ipc_okD(6) [OF assms] by blast
    from node_cell [OF assms(1,2) that(1)] obtain n x where p: "(p, n, x) \<in> set (Q i)" "24 \<le> n" by metis
    from node_cell [OF assms(1,3) that(2)] obtain k y where q: "(q, k, y) \<in> set (Q j)" "24 \<le> k" by metis
    from nodes_disjoint [OF assms(1-3) p(1) q(1) \<open>p \<noteq> q\<close>, of 8 8] p(2) q(2) show ?thesis
      by (simp add: cell_def)
  qed
  show ?thesis
    using head_cells_disjoint [OF ipc_okD(7) [OF assms(1)] assms(2-4)] head [OF assms(2,3)]
      head [OF assms(3,2)] node
    by (simp add: disjoint_iff) blast
qed

subsection \<open>Nodes under changes of memory\<close>

text \<open>The bytes of a node behind its links.\<close>

definition body :: "addr \<Rightarrow> nat \<Rightarrow> addr set" where "body p n = span (p + 8) (n - 8)"

lemma node_ok_frame:
  assumes "node_ok m p n msg" "\<And>x. x \<in> body p n \<Longrightarrow> m' x = m x"
  shows "node_ok m' p n msg"
proof -
  let ?k = "length (mdata msg)"
  have n: "24 + ?k \<le> n"
    using assms(1) by (simp add: node_ok_def)
  have field: "load32 m' (p + 8 + d) = load32 m (p + 8 + d)" if "unat d + 4 \<le> n - 8" for d
    using span_offset_subset [OF that, of "p + 8"] assms(2) by (intro load32_span) (auto simp: body_def)
  have "load32 m' (p + 8) = load32 m (p + 8)" "load32 m' (p + 12) = load32 m (p + 12)"
    "load32 m' (p + 16) = load32 m (p + 16)" "load32 m' (p + 20) = load32 m (p + 20)"
    using field [of 0] field [of 4] field [of 8] field [of 12] n by (simp_all add: add.assoc)
  moreover have "span (p + 8 + 16) ?k \<subseteq> body p n"
    unfolding body_def using n by (intro span_offset_subset) simp
  then have "bytes_at m' (p + 24) ?k = bytes_at m (p + 24) ?k"
    using assms(2) by (intro bytes_at_span) (auto simp: add.assoc)
  ultimately show ?thesis
    using assms(1) by (simp add: node_ok_def msg_defs)
qed

lemma span_cell_body: "8 \<le> n \<Longrightarrow> span p n = cell p \<union> body p n"
  using span_split [of p 8 "n - 8"] by (simp add: cell_def body_def)

lemma cell_body_disjoint: "8 \<le> n \<Longrightarrow> n \<le> 4294967296 \<Longrightarrow> cell p \<inter> body p n = {}"
proof -
  assume n: "8 \<le> n" "n \<le> 4294967296"
  have "p + 8 - p = 8" "p - (p + 8) = - 8" by simp_all
  moreover have "unat (- 8 :: addr) = 4294967288" "unat (8 :: addr) = 8" by simp_all
  ultimately show ?thesis
    unfolding cell_def body_def using n by (intro span_disjoint) simp_all
qed

text \<open>No link of a queue lies in the body of a node.\<close>

lemma body_cells_disjoint:
  assumes "ipc_ok mq s L Q" "i < 32" "j < 32" "(p, n, msg) \<in> set (Q i)"
  shows "body p n \<inter> \<Union> (cell ` set (queue_head mq (of_nat j) # nodes Q j)) = {}"
proof -
  have own: "(unat p, n) \<in> L \<union> node_regions Q"
    using node_regionsI [of i p n msg Q] assms(2,4) by blast
  have n: "24 \<le> n" "n \<le> 4294967296"
    using ipc_okD(5) [OF assms(1,2,4)] mm.owns_bounds [OF ipc_okD(1) [OF assms(1)] own]
    by (auto simp: node_ok_def)
  have sub: "body p n \<subseteq> span p n"
    using n by (simp add: span_cell_body)
  have "span p n \<subseteq> heap_arena s"
    using mm.owned_span_subset [OF ipc_okD(1) [OF assms(1)] own, of n]
      mm.owned_arena [OF ipc_okD(1) [OF assms(1)]] by blast
  then have head: "body p n \<inter> cell (queue_head mq (of_nat j)) = {}"
    using sub head_cell_subset [OF ipc_okD(7) [OF assms(1)] assms(3)] ipc_okD(3) [OF assms(1)] by blast
  have node: "body p n \<inter> cell q = {}" if q: "q \<in> set (nodes Q j)" for q
  proof (cases "q = p")
    case True
    then show ?thesis
      using cell_body_disjoint [of n p] n by auto
  next
    case False
    from node_cell [OF assms(1,3) q] obtain k y where k: "(q, k, y) \<in> set (Q j)" "24 \<le> k" by metis
    from nodes_disjoint [OF assms(1-4) k(1), of n 8] False k(2) show ?thesis
      using sub by (auto simp: cell_def)
  qed
  show ?thesis
    using head node by (simp add: disjoint_iff)
qed

lemma ipc_ok_frame:
  assumes "ipc_ok mq s L Q" "heap_owns s' (L' \<union> node_regions Q)" "L' \<inter> node_regions Q = {}"
    "heap_arena s' = heap_arena s"
    "\<And>x. x \<in> heads mq \<union> regions (node_regions Q) \<Longrightarrow> mem s' x = mem s x"
  shows "ipc_ok mq s' L' Q"
proof -
  note ok = ipc_okD [OF assms(1)]
  have "ring (mem s') (queue_head mq (of_nat i)) (nodes Q i)" if "i < 32" for i
    using ok(4) [OF that] by (rule kq.rep_frame) (use queue_cells_subset [OF assms(1) that] assms(5) in blast)
  moreover have "node_ok (mem s') p n msg" if "i < 32" "(p, n, msg) \<in> set (Q i)" for i p n msg
  proof -
    have own: "(unat p, n) \<in> node_regions Q"
      using node_regionsI [of i p n msg Q] that by blast
    have "span p n \<subseteq> regions (node_regions Q)"
      using mm.owned_span [OF ok(1), of p n n] own region_subset_regions [OF own] by auto
    moreover have "8 \<le> n"
      using ok(5) [OF that] by (simp add: node_ok_def)
    ultimately have "body p n \<subseteq> regions (node_regions Q)"
      by (simp add: span_cell_body)
    with ok(5) [OF that] show ?thesis
      by (rule_tac node_ok_frame) (use assms(5) in blast)+
  qed
  ultimately show ?thesis
    using ok assms(2-4) by (auto simp: ipc_ok_def)
qed

end
