(* ===== verification/Ipc_Nodes.thy ===== *)
theory Ipc_Nodes
  imports Ipc
begin

text \<open>
  What the operations of ipc.c do to the queues of nodes, on a heap that others use as well:
  a node granted by the heap is filled and linked at the end of its queue, the first node is
  unlinked, copied out and released. Ipc_Props.thy lifts this to mailboxes.
\<close>

subsection \<open>Linking and unlinking a node\<close>

lemma ipc_okI:
  assumes "heap_owns s (L \<union> node_regions Q)" "L \<inter> node_regions Q = {}" "heads mq \<inter> heap_arena s = {}"
    "unat mq + 256 \<le> 4294967296"
    "\<And>i. i < 32 \<Longrightarrow> ring (mem s) (queue_head mq (of_nat i)) (nodes Q i)"
    "\<And>i p n msg. i < 32 \<Longrightarrow> (p, n, msg) \<in> set (Q i) \<Longrightarrow> node_ok (mem s) p n msg"
    "\<And>i j. i < 32 \<Longrightarrow> j < 32 \<Longrightarrow> i \<noteq> j \<Longrightarrow> set (nodes Q i) \<inter> set (nodes Q j) = {}"
  shows "ipc_ok mq s L Q"
  unfolding ipc_ok_def using assms by blast

lemma in_node_regions:
  "(a, n) \<in> node_regions Q \<longleftrightarrow> (\<exists>i < 32. \<exists>p msg. (p, n, msg) \<in> set (Q i) \<and> a = unat p)"
  by (force simp: node_regions_def)

lemma node_regions_insert:
  assumes "i < 32" "set (Q' i) = insert (p, n, msg) (set (Q i))" "\<And>j. j \<noteq> i \<Longrightarrow> Q' j = Q j"
  shows "node_regions Q' = insert (unat p, n) (node_regions Q)"
proof -
  have "{..<32} = insert i ({..<32} - {i})"
    using assms(1) by auto
  then have "node_regions R = (\<lambda>(p, n, msg). (unat p, n)) ` set (R i)
      \<union> (\<Union>j \<in> {..<32} - {i}. (\<lambda>(p, n, msg). (unat p, n)) ` set (R j))" for R
    unfolding node_regions_def by (subst \<open>{..<32} = _\<close>) (rule UN_insert)
  with assms(2,3) show ?thesis
    by simp
qed

lemma node_regions_append:
  "i < 32 \<Longrightarrow> node_regions (Q(i := Q i @ [(r, n, msg)])) = insert (unat r, n) (node_regions Q)"
  by (rule node_regions_insert) auto

lemma node_regions_remove:
  assumes "ipc_ok mq s L Q" "i < 32" "Q i = (p, n, msg) # rest"
  shows "node_regions Q = insert (unat p, n) (node_regions (Q(i := rest)))"
    "(unat p, n) \<notin> node_regions (Q(i := rest))"
proof -
  show "node_regions Q = insert (unat p, n) (node_regions (Q(i := rest)))"
    using assms(2,3) by (intro node_regions_insert [of i]) auto
  have "p \<notin> set (nodes (Q(i := rest)) j)" if "j < 32" for j
  proof (cases "j = i")
    case True
    have "sorted_wrt apart (nodes Q i)"
      using ipc_okD(4) [OF assms(1,2)] by (simp add: ring_def)
    with True assms(3) show ?thesis
      using sorted_wrt_apart_distinct [of "nodes Q i"] by (simp add: nodes_def)
  next
    case False
    then show ?thesis
      using ipc_okD(6) [OF assms(1,2) that] assms(3) by (auto simp: nodes_def)
  qed
  then show "(unat p, n) \<notin> node_regions (Q(i := rest))"
    unfolding in_node_regions in_nodes by (simp add: word_unat_eq_iff [symmetric])
qed

subsection \<open>Linking a new node\<close>

text \<open>A filled node \<open>r\<close> that is not in a queue yet shares no byte with the queues.\<close>

definition fresh_node :: "addr \<Rightarrow> 'a mm_state_scheme \<Rightarrow> (nat \<times> nat) set \<Rightarrow> queues \<Rightarrow> addr \<Rightarrow> nat \<Rightarrow> ipc_msg \<Rightarrow> bool" where
  "fresh_node mq s L Q r n msg \<longleftrightarrow>
     ipc_ok mq s (insert (unat r, n) L) Q \<and> (unat r, n) \<notin> L \<and> node_ok (mem s) r n msg"

lemma fresh_node_bounds:
  assumes "fresh_node mq s L Q r n msg"
  shows "24 \<le> n" "n \<le> 4294967296" "span r n = cell r \<union> body r n" "cell r \<inter> body r n = {}"
    "span r n \<subseteq> heap_arena s" "span r n \<subseteq> regions (insert (unat r, n) L)"
proof -
  from assms have own: "heap_owns s (insert (unat r, n) L \<union> node_regions Q)"
    by (simp add: fresh_node_def ipc_ok_def)
  have mem: "(unat r, n) \<in> insert (unat r, n) L \<union> node_regions Q" by simp
  show n: "24 \<le> n" "n \<le> 4294967296"
    using assms mm.owns_bounds [OF own mem] by (auto simp: fresh_node_def node_ok_def)
  then show "span r n = cell r \<union> body r n" "cell r \<inter> body r n = {}"
    using cell_body_disjoint [of n r] by (simp_all add: span_cell_body)
  show "span r n \<subseteq> heap_arena s"
    using mm.owned_span_subset [OF own mem, of n] mm.owned_arena [OF own] by blast
  have "span r n = region (unat r) n"
    using mm.owned_span [OF own mem] by simp
  then show "span r n \<subseteq> regions (insert (unat r, n) L)"
    by simp
qed

lemma fresh_node_apart:
  assumes "fresh_node mq s L Q r n msg" "j < 32"
  shows "(p, k, x) \<in> set (Q j) \<Longrightarrow> span r n \<inter> span p k = {}"
    and "span r n \<inter> \<Union> (cell ` set (queue_head mq (of_nat j) # nodes Q j)) = {}"
proof -
  from assms(1) have ok: "ipc_ok mq s (insert (unat r, n) L) Q"
    by (simp add: fresh_node_def)
  note okD = ipc_okD [OF ok]
  have node: "span r n \<inter> span p k = {}" if "(p, k, x) \<in> set (Q j)" for p k x
  proof -
    have pk: "(unat p, k) \<in> node_regions Q"
      using node_regionsI [of j p k x Q] assms(2) that by blast
    moreover have "(unat r, n) \<notin> node_regions Q"
      using okD(2) by simp
    ultimately have ne: "(unat r, n) \<noteq> (unat p, k)"
      by metis
    have m: "(unat r, n) \<in> insert (unat r, n) L \<union> node_regions Q"
      "(unat p, k) \<in> insert (unat r, n) L \<union> node_regions Q"
      using pk by simp_all
    from mm.owns_disjoint [OF okD(1) m] ne have "unat r + n \<le> unat p \<or> unat p + k \<le> unat r"
      by blast
    moreover from mm.owns_bounds [OF okD(1) m(2)] have "0 < k"
      by blast
    ultimately have "r \<noteq> p"
      using fresh_node_bounds(1) [OF assms(1)] by auto
    then show ?thesis
      using mm.owned_spans_disjoint [OF okD(1), of r n p k n k] pk by simp
  qed
  then show "(p, k, x) \<in> set (Q j) \<Longrightarrow> span r n \<inter> span p k = {}" .
  have "span r n \<inter> cell (queue_head mq (of_nat j)) = {}"
    using fresh_node_bounds(5) [OF assms(1)] head_cell_subset [OF okD(7) assms(2)] okD(3) by blast
  moreover have "span r n \<inter> cell q = {}" if "q \<in> set (nodes Q j)" for q
  proof -
    from node_cell [OF ok assms(2) that] obtain k x where k: "(q, k, x) \<in> set (Q j)" "24 \<le> k" by metis
    then have "cell q \<subseteq> span q k"
      by (simp add: span_cell_body)
    with node [OF k(1)] show ?thesis by blast
  qed
  ultimately show "span r n \<inter> \<Union> (cell ` set (queue_head mq (of_nat j) # nodes Q j)) = {}"
    by auto
qed

lemma link_other:
  assumes "fresh_node mq s L Q r n msg" "i < 32" "x \<notin> cell r"
    "x \<notin> \<Union> (cell ` set (queue_head mq (of_nat i) # nodes Q i))"
  shows "list_add_tail (mem s) r (queue_head mq (of_nat i)) x = mem s x"
proof -
  have "ring (mem s) (queue_head mq (of_nat i)) (nodes Q i)"
    using assms(1,2) ipc_okD(4) by (auto simp: fresh_node_def)
  then show ?thesis
    using assms(3,4) by (rule kq.enq_frame)
qed

lemma link_rings:
  assumes "fresh_node mq s L Q r n msg" "i < 32" "j < 32"
  shows "ring (list_add_tail (mem s) r (queue_head mq (of_nat i))) (queue_head mq (of_nat j))
    (nodes (Q(i := Q i @ [(r, n, msg)])) j)"
proof -
  from assms(1) have ok: "ipc_ok mq s (insert (unat r, n) L) Q"
    by (simp add: fresh_node_def)
  note b = fresh_node_bounds [OF assms(1)] and ap = fresh_node_apart(2) [OF assms(1)]
  note ring = ipc_okD(4) [OF ok assms(2)]
  show ?thesis
  proof (cases "j = i")
    case True
    have "ring (list_add_tail (mem s) r (queue_head mq (of_nat i))) (queue_head mq (of_nat i)) (nodes Q i @ [r])"
      using ring by (rule kq.rep_enq) (use ap [OF assms(2)] b(3) in blast)
    with True show ?thesis by (simp add: nodes_def)
  next
    case False
    have "\<Union> (cell ` set (queue_head mq (of_nat i) # r # nodes Q i))
        \<inter> \<Union> (cell ` set (queue_head mq (of_nat j) # nodes Q j)) = {}"
      using queue_cells_disjoint [OF ok assms(2,3)] False ap [OF assms(3)] b(3) by auto
    with ring ipc_okD(4) [OF ok assms(3)]
    have "ring (list_add_tail (mem s) r (queue_head mq (of_nat i))) (queue_head mq (of_nat j)) (nodes Q j)"
      by (rule kq.enq_other)
    with False show ?thesis by (simp add: nodes_def)
  qed
qed

lemma link_nodes:
  assumes "fresh_node mq s L Q r n msg" "i < 32" "j < 32" "(p, k, x) \<in> set ((Q(i := Q i @ [(r, n, msg)])) j)"
  shows "node_ok (list_add_tail (mem s) r (queue_head mq (of_nat i))) p k x"
proof -
  from assms(1) have ok: "ipc_ok mq s (insert (unat r, n) L) Q" and node: "node_ok (mem s) r n msg"
    by (simp_all add: fresh_node_def)
  note b = fresh_node_bounds [OF assms(1)]
  show ?thesis
  proof (cases "(p, k, x) \<in> set (Q j)")
    case True
    note old = ipc_okD(5) [OF ok assms(3) True]
    then have "body p k \<subseteq> span p k"
      by (simp add: span_cell_body node_ok_def)
    then have "body p k \<inter> cell r = {}"
      using fresh_node_apart(1) [OF assms(1,3) True] b(3) by blast
    with body_cells_disjoint [OF ok assms(3,2) True] show ?thesis
      by (intro node_ok_frame [OF old] link_other [OF assms(1,2)]) blast+
  next
    case False
    with assms(4) have p: "p = r" "k = n" "x = msg"
      by (auto split: if_splits)
    from b(3,4) fresh_node_apart(2) [OF assms(1,2)] show ?thesis
      unfolding p by (intro node_ok_frame [OF node] link_other [OF assms(1,2)]) blast+
  qed
qed

text \<open>The new node becomes the last of its queue, and its region belongs to the queues.\<close>

lemma queues_link:
  assumes fn: "fresh_node mq s L Q r n msg" and i: "i < 32"
  defines "m \<equiv> list_add_tail (mem s) r (queue_head mq (of_nat i))"
  shows "ipc_ok mq (with_mem m s) L (Q(i := Q i @ [(r, n, msg)]))"
    and "\<And>x. x \<notin> heads mq \<union> cell r \<union> regions (node_regions Q) \<Longrightarrow> m x = mem s x"
proof -
  from fn have ok: "ipc_ok mq s (insert (unat r, n) L) Q" and fresh: "(unat r, n) \<notin> L"
    by (simp_all add: fresh_node_def)
  note okD = ipc_okD [OF ok] and b = fresh_node_bounds [OF fn]
  show other: "m x = mem s x" if "x \<notin> heads mq \<union> cell r \<union> regions (node_regions Q)" for x
    unfolding m_def using that queue_cells_subset [OF ok i] by (intro link_other [OF fn i]) blast+
  have distinct: "set (nodes (Q(i := Q i @ [(r, n, msg)])) j) \<inter> set (nodes (Q(i := Q i @ [(r, n, msg)])) k) = {}"
    if "j < 32" "k < 32" "j \<noteq> k" for j k
  proof -
    have "r \<in> cell r"
      by (simp add: cell_def)
    then have "r \<notin> set (nodes Q l)" if "l < 32" for l
      using fresh_node_apart(2) [OF fn that] b(3) by auto
    with okD(6) [OF that] that show ?thesis
      by (auto simp: nodes_def)
  qed
  have "heap_owns (with_mem m s) (insert (unat r, n) L \<union> node_regions Q)"
    using okD(1)
  proof (rule mm.owns_write_span)
    show "m x = mem s x" if "x \<notin> heads mq \<union> cell r \<union> regions (node_regions Q)" for x
      using that by (rule other)
    show "(heads mq \<union> cell r \<union> regions (node_regions Q)) \<inter> heap_arena s
        \<subseteq> regions (insert (unat r, n) L \<union> node_regions Q)"
      using okD(3) b(3,6) by (auto simp: regions_def)
  qed
  then show "ipc_ok mq (with_mem m s) L (Q(i := Q i @ [(r, n, msg)]))"
    using okD(2,3,7) fresh i link_rings [OF fn i] link_nodes [OF fn i] distinct
    by (intro ipc_okI) (simp_all add: node_regions_append m_def [symmetric])
qed

subsection \<open>Unlinking the first node\<close>

lemma unlink_other:
  assumes "ipc_ok mq s L Q" "i < 32" "nodes Q i = p # ps"
    "x \<notin> \<Union> (cell ` set (queue_head mq (of_nat i) # nodes Q i))"
  shows "list_del (mem s) p x = mem s x"
  using kq.del_frame [of "mem s" "queue_head mq (of_nat i)" "[]" p ps x] ipc_okD(4) [OF assms(1,2)] assms(3,4)
  by simp

lemma unlink_rings:
  assumes "ipc_ok mq s L Q" "i < 32" "j < 32" "Q i = (p, n, msg) # rest"
  shows "ring (list_del (mem s) p) (queue_head mq (of_nat j)) (nodes (Q(i := rest)) j)"
proof -
  have q: "nodes Q i = [] @ p # map fst rest"
    using assms(4) by (simp add: nodes_def)
  note ring = ipc_okD(4) [OF assms(1,2), unfolded q]
  show ?thesis
  proof (cases "j = i")
    case True
    then show ?thesis
      using kq.rep_del [OF ring] by (simp add: nodes_def)
  next
    case False
    have "\<Union> (cell ` set (queue_head mq (of_nat i) # [] @ p # map fst rest))
        \<inter> \<Union> (cell ` set (queue_head mq (of_nat j) # nodes Q j)) = {}"
      using queue_cells_disjoint [OF assms(1-3)] False unfolding q by blast
    with ring ipc_okD(4) [OF assms(1,3)]
    have "ring (list_del (mem s) p) (queue_head mq (of_nat j)) (nodes Q j)"
      by (rule kq.del_other)
    with False show ?thesis by (simp add: nodes_def)
  qed
qed

text \<open>The node leaves its queue with its message intact, and its region leaves the queues.\<close>

lemma queues_unlink:
  assumes ok: "ipc_ok mq s L Q" and i: "i < 32" and Q: "Q i = (p, n, msg) # rest"
  defines "m \<equiv> list_del (mem s) p"
  shows "ipc_ok mq (with_mem m s) (insert (unat p, n) L) (Q(i := rest))"
    and "node_ok m p n msg" and "lnext (mem s) (queue_head mq (of_nat i)) = p"
    and "\<And>x. x \<notin> heads mq \<union> regions (node_regions Q) \<Longrightarrow> m x = mem s x"
proof -
  note okD = ipc_okD [OF ok] and nr = node_regions_remove [OF ok i, OF Q]
  have q: "nodes Q i = p # map fst rest"
    using Q by (simp add: nodes_def)
  have nodes: "node_ok m a k x" if "j < 32" "(a, k, x) \<in> set (Q j)" for j a k x
    unfolding m_def using body_cells_disjoint [OF ok that(1) i that(2)]
    by (intro node_ok_frame [OF okD(5) [OF that]] unlink_other [OF ok i q]) blast+
  then show "node_ok m p n msg"
    using i Q by simp
  show "lnext (mem s) (queue_head mq (of_nat i)) = p"
    using okD(4) [OF i] unfolding q by (rule kq.rep_front)
  show other: "m x = mem s x" if "x \<notin> heads mq \<union> regions (node_regions Q)" for x
    unfolding m_def using that queue_cells_subset [OF ok i] by (intro unlink_other [OF ok i q]) blast
  have sub: "(a, k, x) \<in> set (Q j)" if "(a, k, x) \<in> set ((Q(i := rest)) j)" for a k x j
    using that Q by (auto split: if_splits)
  have distinct: "set (nodes (Q(i := rest)) j) \<inter> set (nodes (Q(i := rest)) k) = {}"
    if "j < 32" "k < 32" "j \<noteq> k" for j k
  proof -
    have "set (nodes (Q(i := rest)) l) \<subseteq> set (nodes Q l)" for l
      using Q by (cases "l = i") (auto simp: nodes_def)
    with okD(6) [OF that] show ?thesis by blast
  qed
  have "heap_owns (with_mem m s) (L \<union> node_regions Q)"
    using okD(1)
  proof (rule mm.owns_write_span)
    show "m x = mem s x" if "x \<notin> heads mq \<union> regions (node_regions Q)" for x
      using that by (rule other)
    show "(heads mq \<union> regions (node_regions Q)) \<inter> heap_arena s \<subseteq> regions (L \<union> node_regions Q)"
      using okD(3) by (auto simp: regions_def)
  qed
  then have "heap_owns (with_mem m s) (insert (unat p, n) L \<union> node_regions (Q(i := rest)))"
    using nr(1) by simp
  moreover have "L \<inter> node_regions (Q(i := rest)) = {}"
    using okD(2) nr(1) by auto
  ultimately show "ipc_ok mq (with_mem m s) (insert (unat p, n) L) (Q(i := rest))"
    using okD(3,7) nr(2) unlink_rings [where Q = Q, OF ok i _ Q] nodes [OF _ sub] distinct
    by (intro ipc_okI) (simp_all add: m_def [symmetric])
qed

subsection \<open>Sending\<close>

lemma ipc_ok_printk [simp]: "ipc_ok mq (printk f s) L Q \<longleftrightarrow> ipc_ok mq s L Q"
  by (simp add: ipc_ok_def)

lemma ipc_rep_printk [simp]: "ipc_rep mq (printk f s) L q \<longleftrightarrow> ipc_rep mq s L q"
  by (simp add: ipc_rep_def)

lemma store32_span_other: "x \<notin> span p n \<Longrightarrow> unat d + 4 \<le> n \<Longrightarrow> store32 m (p + d) v x = m x"
  using span_offset_subset [of d 4 n p] by (intro store32_other) blast

lemma ipc_fill_other:
  assumes "24 + unat sz \<le> n" "x \<notin> span r n"
  shows "ipc_fill m r to_pid data sz ty x = m x"
proof -
  have "span (r + 24) (unat sz) \<subseteq> span r n" "cell r \<subseteq> span r n"
    using assms(1) unfolding cell_def by (intro span_offset_subset span_mono; simp)+
  then have "x \<notin> span (r + 24) (unat sz)" "x \<notin> cell r"
    using assms(2) by blast+
  then show ?thesis
    using assms by (simp add: ipc_fill_def Let_def kq.init_frame memcpy_other store32_span_other msg_data_def)
qed

lemma ipc_fill_node:
  assumes "24 + unat sz \<le> n" "unat r + n < 4294967296" "span data (unat sz) \<inter> span r n = {}"
  shows "node_ok (ipc_fill m r to_pid data sz ty) r n (Msg 0 to_pid ty (bytes_at m data (unat sz)))"
proof -
  define m4 where "m4 = store32 (store32 (store32 (store32 m (r + 8) get_current_pid) (r + 12) to_pid) (r + 16) ty) (r + 20) sz"
  define m5 where "m5 = memcpy m4 (r + 24) data sz"
  have fill: "ipc_fill m r to_pid data sz ty = INIT_LIST_HEAD m5 r"
    by (simp add: ipc_fill_def m4_def m5_def msg_data_def)
  have src: "m4 x = m x" if "x \<in> span data (unat sz)" for x
  proof -
    have "x \<notin> span r n"
      using that assms(3) by blast
    then show ?thesis
      using assms(1) by (simp add: m4_def store32_span_other)
  qed
  have payload: "span (r + 24) (unat sz) \<subseteq> span r n"
    using assms(1) by (intro span_offset_subset) simp
  have "bytes_at m5 (r + 24) (unat sz) = bytes_at m data (unat sz)"
    unfolding m5_def using assms(3) payload src
    by (subst bytes_at_memcpy) (blast intro: bytes_at_span)+
  moreover have field: "load32 m5 (r + 8 + d) = load32 m4 (r + 8 + d)" if "unat d + 4 \<le> 16" for d
  proof (rule load32_span)
    fix x
    assume "x \<in> span (r + 8 + d) 4"
    then have "x \<in> span (r + 8) 16"
      using span_offset_subset [OF that] by blast
    moreover have "unat (r + 8) = unat r + 8" "unat (r + 24) = unat r + 24"
      using assms(1,2) by (simp_all add: unat_add_nowrap)
    ultimately have "x \<notin> span (r + 24) (unat sz)"
      using assms(1,2) by (simp add: in_span_nowrap)
    then show "m5 x = m4 x"
      unfolding m5_def by (rule memcpy_other)
  qed
  moreover have "load32 m4 (r + 8) = 0" "load32 m4 (r + 12) = to_pid" "load32 m4 (r + 16) = ty" "load32 m4 (r + 20) = sz"
    by (simp_all add: m4_def mem_simps get_current_pid_def)
  ultimately have "node_ok m5 r n (Msg 0 to_pid ty (bytes_at m data (unat sz)))"
    using assms(1) field [of 0] field [of 4] field [of 8] field [of 12]
    by (simp add: node_ok_def msg_defs add.assoc)
  moreover have "cell r \<inter> body r n = {}"
    using assms(1,2) by (intro cell_body_disjoint) auto
  ultimately show ?thesis
    unfolding fill by (elim node_ok_frame) (use kq.init_frame in blast)
qed

text \<open>The memory that the callers of the queues may use: their own regions of the heap, and what
  lies outside the heap and outside the array of queue heads.\<close>

definition caller_memory :: "addr \<Rightarrow> 'a mm_state_scheme \<Rightarrow> (nat \<times> nat) set \<Rightarrow> addr set" where
  "caller_memory mq s L = regions L \<union> (- heap_arena s - heads mq)"

lemma ipc_callers_apart:
  assumes "ipc_ok mq s L Q"
  shows "regions L \<inter> regions (node_regions Q) = {}" "regions L \<subseteq> heap_arena s"
    "caller_memory mq s L \<inter> (heads mq \<union> regions (node_regions Q)) = {}"
    "regions (node_regions Q) \<subseteq> heap_arena s"
proof -
  note okD = ipc_okD [OF assms]
  show "regions L \<inter> regions (node_regions Q) = {}"
    using mm.owned_regions_disjoint [OF okD(1,2)] .
  moreover have "regions (L \<union> node_regions Q) = regions L \<union> regions (node_regions Q)"
    by (auto simp: regions_def)
  then show "regions L \<subseteq> heap_arena s" "regions (node_regions Q) \<subseteq> heap_arena s"
    using mm.owned_arena [OF okD(1)] by simp_all
  ultimately show "caller_memory mq s L \<inter> (heads mq \<union> regions (node_regions Q)) = {}"
    using okD(3) by (auto simp: caller_memory_def)
qed

text \<open>A region newly granted by the heap, beside the queues.\<close>

lemma ipc_ok_grant:
  assumes ok: "ipc_ok mq s L Q" and own: "heap_owns s1 (insert (unat r, n) (L \<union> node_regions Q))"
    and new: "(unat r, n) \<notin> L \<union> node_regions Q" and arena: "heap_arena s1 = heap_arena s"
    and kept: "\<And>x. x \<in> regions (L \<union> node_regions Q) \<or> x \<notin> heap_arena s \<Longrightarrow> mem s1 x = mem s x"
  shows "ipc_ok mq s1 (insert (unat r, n) L) Q" "unat r + n < 4294967296"
    "span r n \<inter> (regions L \<union> regions (node_regions Q)) = {}" "span r n \<subseteq> heap_arena s"
    "span r n = region (unat r) n"
proof -
  note okD = ipc_okD [OF ok]
  have "mem s1 x = mem s x" if "x \<in> heads mq \<union> regions (node_regions Q)" for x
    using that okD(3) by (intro kept) (auto simp: regions_Un)
  moreover have "insert (unat r, n) L \<inter> node_regions Q = {}"
    using new okD(2) by simp
  ultimately show "ipc_ok mq s1 (insert (unat r, n) L) Q"
    using ok own arena by (intro ipc_ok_frame [OF ok]) simp_all
  show "unat r + n < 4294967296"
    using mm.owns_bounds [OF own, of "unat r" n] by simp
  show sp: "span r n = region (unat r) n"
    using mm.owned_span [OF own, of r n n] by simp
  have "regions {(unat r, n)} \<inter> regions (L \<union> node_regions Q) = {}"
    by (rule mm.owned_regions_disjoint) (use own new in simp_all)
  then show "span r n \<inter> (regions L \<union> regions (node_regions Q)) = {}"
    unfolding regions_Un by (simp add: sp regions_def)
  show "span r n \<subseteq> heap_arena s"
    using mm.owned_span_subset [OF own, of r n n] mm.owned_arena [OF own] arena by blast
qed

text \<open>The granted region, filled with the message, is a fresh node.\<close>

lemma ipc_ok_fill:
  assumes ok: "ipc_ok mq s1 (insert (unat r, n) L) Q" and new: "(unat r, n) \<notin> L \<union> node_regions Q"
    and n: "24 + unat sz \<le> n" and b: "unat r + n < 4294967296" and data: "span data (unat sz) \<inter> span r n = {}"
    and ap: "span r n \<inter> regions (node_regions Q) = {}"
  shows "fresh_node mq (with_mem (ipc_fill (mem s1) r to_pid data sz ty) s1) L Q r n
    (Msg 0 to_pid ty (bytes_at (mem s1) data (unat sz)))"
proof -
  note okD = ipc_okD [OF ok]
  let ?m = "ipc_fill (mem s1) r to_pid data sz ty"
  have other: "?m x = mem s1 x" if "x \<notin> span r n" for x
    using n that by (rule ipc_fill_other)
  have sub: "span r n \<subseteq> regions (insert (unat r, n) L \<union> node_regions Q)"
    using mm.owned_span_subset [OF okD(1), of r n n] by simp
  then have "span r n \<inter> heads mq = {}"
    using mm.owned_arena [OF okD(1)] okD(3) by blast
  then have "?m x = mem s1 x" if "x \<in> heads mq \<union> regions (node_regions Q)" for x
    using that ap by (intro other) blast
  moreover have "heap_owns (with_mem ?m s1) (insert (unat r, n) L \<union> node_regions Q)"
    using okD(1) by (rule mm.owns_write_span [where W = "span r n"]) (use other sub in blast)+
  ultimately have "ipc_ok mq (with_mem ?m s1) (insert (unat r, n) L) Q"
    using ok okD(2) by (intro ipc_ok_frame [OF ok]) simp_all
  moreover have "node_ok ?m r n (Msg 0 to_pid ty (bytes_at (mem s1) data (unat sz)))"
    using n b data by (rule ipc_fill_node)
  ultimately show ?thesis
    using new by (simp add: fresh_node_def)
qed

text \<open>What \<open>ipc_send\<close> does on the queues of nodes.\<close>

lemma ipc_send_nodes:
  assumes ok: "ipc_ok mq s L Q" and to: "unat to_pid < 32" and sz: "unat sz \<le> 4294967264"
    and data: "span data (unat sz) \<subseteq> regions L \<union> - heap_arena s"
  obtains (fail) s' where "ipc_send mq to_pid data sz ty s = Some (0, s')" "ipc_ok mq s' L Q" "mem s' = mem s"
      "heap_arena s' = heap_arena s" "\<not> heap_grants (24 + sz) s"
      "s' = printk (''kmalloc(%zu) failed! Out of memory'' @ nl) s"
  | (sent) s' r n where "ipc_send mq to_pid data sz ty s = Some (1, s')"
      "ipc_ok mq s' L (Q(unat to_pid := Q (unat to_pid) @ [(r, n, Msg 0 to_pid ty (bytes_at (mem s) data (unat sz)))]))"
      "\<And>x. x \<in> caller_memory mq s L \<Longrightarrow> mem s' x = mem s x" "heap_arena s' = heap_arena s"
      "heap_grants (24 + sz) s"
proof -
  note okD = ipc_okD [OF ok] and ap = ipc_callers_apart [OF ok]
  let ?k = "24 + sz"
  have k: "unat ?k = 24 + unat sz" "0 < unat ?k" "unat ?k \<le> 4294967288"
    using sz by (simp_all add: unat_add_nowrap)
  have small: "\<not> to_pid \<ge> 32"
    using to by (simp add: word32_le_nat)
  from okD(1) k(2,3) show thesis
  proof (cases rule: kmalloc_owned)
    case fail
    then have "ipc_send mq to_pid data sz ty s
        = Some (0, printk (''kmalloc(%zu) failed! Out of memory'' @ nl) s)"
      using small by (simp add: ipc_send_def sizeof_ipc_message_node_def)
    then show ?thesis
      by (rule that(1)) (simp_all add: ok heap_grants_result [OF fail])
  next
    case (grant r n s1)
    have arena: "heap_arena s1 = heap_arena s"
      by (rule same_heap_arena [OF grant(6)])
    note g = ipc_ok_grant [OF ok grant(5,4) arena grant(8)]
    have n: "24 + unat sz \<le> n"
      using grant(3) k(1) by simp
    have apart: "span r n \<inter> regions (node_regions Q) = {}" "span data (unat sz) \<inter> span r n = {}"
      using g(3,4) data by blast+
    have src: "bytes_at (mem s1) data (unat sz) = bytes_at (mem s) data (unat sz)"
      using data by (intro bytes_at_span grant(8)) (auto simp: regions_Un)
    let ?m = "ipc_fill (mem s1) r to_pid data sz ty" and ?Msg = "Msg 0 to_pid ty (bytes_at (mem s) data (unat sz))"
    note fn = ipc_ok_fill [OF g(1) grant(4) n g(2) apart(2,1), of to_pid ty, unfolded src]
    have h: "queue_head mq to_pid = queue_head mq (of_nat (unat to_pid))"
      by simp
    note link = queues_link [OF fn to, folded h, unfolded with_mem_simps]
    let ?m' = "list_add_tail ?m r (queue_head mq to_pid)"
    define s' where "s' = printk (''IPC message sent from %d to %d, type %d, size %d'' @ nl) (with_mem ?m' s1)"
    have "ipc_send mq to_pid data sz ty s = Some (1, s')"
      using small grant(1,2) by (simp add: ipc_send_def sizeof_ipc_message_node_def s'_def)
    moreover have "ipc_ok mq s' L (Q(unat to_pid := Q (unat to_pid) @ [(r, n, ?Msg)]))"
      using link(1) by (simp add: s'_def)
    moreover have "mem s' x = mem s x" if x: "x \<in> caller_memory mq s L" for x
    proof -
      have "x \<notin> span r n" "x \<notin> heads mq \<union> regions (node_regions Q)"
        using x g(3,4) ap(3) by (auto simp: caller_memory_def)
      moreover from this have "x \<notin> cell r"
        using fresh_node_bounds(3) [OF fn] by blast
      ultimately have "?m' x = mem s1 x"
        using link(2) [of x] ipc_fill_other [OF n, of x r] by simp
      also have "\<dots> = mem s x"
        using x by (intro grant(8)) (auto simp: caller_memory_def regions_Un)
      finally show ?thesis by (simp add: s'_def)
    qed
    moreover have "heap_arena s' = heap_arena s"
      unfolding s'_def heap_arena_printk with_mem_simps by (rule arena)
    moreover have "heap_grants (24 + sz) s"
      using heap_grants_result [OF grant(1)] grant(2) by simp
    ultimately show ?thesis
      by (rule that(2))
  qed
qed

subsection \<open>Receiving\<close>

definition out_span :: "addr \<Rightarrow> nat \<Rightarrow> addr set" where
  "out_span p k = (if p = NULL then {} else span p k)"

lemma store_out_other: "x \<notin> out_span p 4 \<Longrightarrow> store_out m p v x = m x"
  by (auto simp: store_out_def out_span_def store32_other)

lemma load32_store_out: "p \<noteq> NULL \<Longrightarrow> load32 (store_out m p v) p = v"
  by (simp add: store_out_def)

lemma ipc_copy_out_size:
  assumes "node_ok m p n msg" "span p n \<inter> out_span from_pid 4 = {}" "span p n \<inter> out_span type 4 = {}"
  shows "fst (ipc_copy_out m p from_pid buffer sz type) = (if sz < of_nat (length (mdata msg)) then sz
    else of_nat (length (mdata msg)))"
proof -
  have "span (p + 20) 4 \<subseteq> span p n"
    using assms(1) by (intro span_offset_subset) (simp add: node_ok_def)
  then have "load32 (store_out m' q v) (p + 20) = load32 m' (p + 20)" if "q = from_pid \<or> q = type" for m' q v
    using that assms(2,3) by (intro load32_span store_out_other) blast
  then show ?thesis
    using assms(1) by (simp add: ipc_copy_out_def Let_def msg_size_def node_ok_def)
qed

lemma ipc_copy_out_other:
  assumes "x \<notin> out_span from_pid 4 \<union> out_span type 4
    \<union> out_span buffer (unat (fst (ipc_copy_out m p from_pid buffer sz type)))"
  shows "snd (ipc_copy_out m p from_pid buffer sz type) x = m x"
  using assms unfolding ipc_copy_out_def Let_def fst_conv snd_conv
  by (auto simp: memcpy_other out_span_def store_out_other split del: if_split split: if_splits)

lemma ipc_copy_out_values:
  assumes node: "node_ok m p n msg" "n < 4294967296"
    and apart: "span p n \<inter> (out_span from_pid 4 \<union> out_span type 4 \<union> out_span buffer (unat sz)) = {}"
    and outs: "out_span from_pid 4 \<inter> out_span type 4 = {}" "out_span from_pid 4 \<inter> out_span buffer (unat sz) = {}"
      "out_span type 4 \<inter> out_span buffer (unat sz) = {}"
  defines "m' \<equiv> snd (ipc_copy_out m p from_pid buffer sz type)"
  shows "from_pid \<noteq> NULL \<Longrightarrow> load32 m' from_pid = mfrom msg"
    and "type \<noteq> NULL \<Longrightarrow> load32 m' type = mtype msg"
    and "buffer \<noteq> NULL \<Longrightarrow> bytes_at m' buffer (min (unat sz) (length (mdata msg))) = take (unat sz) (mdata msg)"
proof -
  define m1 where "m1 = store_out m from_pid (msg_from m p)"
  define m2 where "m2 = store_out m1 type (msg_type m1 p)"
  define c where "c = (if sz < msg_size m2 p then sz else msg_size m2 p)"
  have m': "m' = (if c > 0 \<and> buffer \<noteq> NULL then memcpy m2 buffer (msg_data p) c else m2)"
    by (simp add: m'_def ipc_copy_out_def m1_def m2_def c_def Let_def)
  have body: "body p n \<subseteq> span p n" and len: "24 + length (mdata msg) \<le> n"
    using node(1) by (simp_all add: span_cell_body node_ok_def)
  have m1: "m1 x = m x" if "x \<notin> out_span from_pid 4" for x
    using that by (simp add: m1_def store_out_other)
  have m2: "m2 x = m1 x" if "x \<notin> out_span type 4" for x
    using that by (simp add: m2_def store_out_other)
  have n1: "node_ok m1 p n msg"
    using body apart by (intro node_ok_frame [OF node(1)] m1) blast
  have n2: "node_ok m2 p n msg"
    using body apart by (intro node_ok_frame [OF n1] m2) blast
  have c: "c \<le> sz" "unat c = min (unat sz) (length (mdata msg))"
  proof -
    have "unat (msg_size m2 p) = length (mdata msg)"
      using n2 len node(2) by (simp add: node_ok_def)
    then show "unat c = min (unat sz) (length (mdata msg))"
      by (simp add: c_def word32_less_nat min_def)
    show "c \<le> sz"
      by (auto simp: c_def not_less)
  qed
  have m3: "m' x = m2 x" if "x \<notin> out_span buffer (unat sz)" for x
    using that span_mono [of "unat c" "unat sz" buffer] c(1)
    by (auto simp: m' out_span_def word32_le_nat intro!: memcpy_other)
  show "load32 m' from_pid = mfrom msg" if "from_pid \<noteq> NULL"
  proof -
    have "load32 m' from_pid = load32 m1 from_pid"
      using that outs by (intro load32_span) (simp add: out_span_def m3 m2 disjoint_iff)
    with that node(1) show ?thesis by (simp add: m1_def node_ok_def load32_store_out)
  qed
  show "load32 m' type = mtype msg" if "type \<noteq> NULL"
  proof -
    have "load32 m' type = load32 m2 type"
      using that outs by (intro load32_span) (simp add: out_span_def m3 disjoint_iff)
    with that n1 show ?thesis by (simp add: m2_def node_ok_def load32_store_out)
  qed
  show "bytes_at m' buffer (min (unat sz) (length (mdata msg))) = take (unat sz) (mdata msg)" if "buffer \<noteq> NULL"
  proof (cases "c = 0")
    case True
    with c(2) have "unat sz = 0 \<or> mdata msg = []"
      by (auto simp: min_def split: if_splits)
    then show ?thesis by auto
  next
    case False
    then have m'2: "m' = memcpy m2 buffer (msg_data p) c"
      using that by (simp add: m' word_gt_0)
    have "span (msg_data p) (unat c) \<subseteq> span p n"
      unfolding msg_data_def using len c(2) by (intro span_offset_subset) simp
    moreover have "span buffer (unat c) \<subseteq> out_span buffer (unat sz)"
      using that c(1) by (simp add: out_span_def span_mono word32_le_nat)
    ultimately have "span buffer (unat c) \<inter> span (msg_data p) (unat c) = {}"
      using apart by blast
    then have "bytes_at m' buffer (unat c) = bytes_at m2 (msg_data p) (unat c)"
      unfolding m'2 by (rule bytes_at_memcpy)
    also have "\<dots> = take (unat c) (mdata msg)"
      using n2 take_bytes_at [of "unat c" "length (mdata msg)" m2 "msg_data p"] c(2) by (simp add: node_ok_def)
    finally show ?thesis
      unfolding c(2) by (simp add: min_def)
  qed
qed

text \<open>Unlinking the first node, storing to the caller and releasing the node: what \<open>ipc_receive\<close>
  and \<open>ipc_process_messages\<close> have in common. \<open>W\<close> are the bytes written for the caller.\<close>

lemma take_node:
  assumes ok: "ipc_ok mq s L Q" and i: "i < 32" and Q: "Q i = (p, n, msg) # rest"
    and m: "\<And>x. x \<notin> W \<Longrightarrow> m x = list_del (mem s) p x" and W: "W \<subseteq> caller_memory mq s L"
  obtains s' where "kfree p (with_mem m s) = Some s'" "ipc_ok mq s' L (Q(i := rest))"
    "\<And>x. x \<in> caller_memory mq s L \<Longrightarrow> mem s' x = m x" "heap_arena s' = heap_arena s"
    "klog s' = klog s"
proof -
  let ?s1 = "with_mem (list_del (mem s) p) s" and ?Q = "Q(i := rest)"
  note un = queues_unlink [where Q = Q, OF ok i Q]
  note okD = ipc_okD [OF un(1)] and ap = ipc_callers_apart [OF un(1)]
  have regs: "regions (insert (unat p, n) L \<union> node_regions ?Q) = region (unat p) n \<union> regions L \<union> regions (node_regions ?Q)"
    by (auto simp: regions_Un)
  have W': "W \<subseteq> regions L \<union> (- heap_arena s - heads mq)"
    using W by (simp add: caller_memory_def)
  have "heap_owns (with_mem m ?s1) (insert (unat p, n) L \<union> node_regions ?Q)"
    using okD(1) by (rule mm.owns_write_span [where W = W]) (use m W' regs in auto)
  then have own: "heap_owns (with_mem m s) (insert (unat p, n) L \<union> node_regions ?Q)"
    by simp
  have "(unat p, n) \<in> insert (unat p, n) L \<union> node_regions ?Q" by simp
  from kfree_owned [OF own this] obtain s' where s': "kfree p (with_mem m s) = Some s'"
    "heap_owns s' (insert (unat p, n) L \<union> node_regions ?Q - {(unat p, n)})" "same_heap (with_mem m s) s'"
    "klog s' = klog s"
    "\<And>x. x \<in> regions (insert (unat p, n) L \<union> node_regions ?Q) \<or> x \<notin> heap_arena s \<Longrightarrow> mem s' x = m x"
    by (metis with_mem_simps(1,2,4))
  have arena: "heap_arena s' = heap_arena s"
    using same_heap_arena [OF s'(3)] by simp
  have "(unat p, n) \<notin> L"
    using ipc_okD(2) [OF ok] node_regions_remove(1) [where Q = Q, OF ok i Q] by auto
  then have "insert (unat p, n) L \<union> node_regions ?Q - {(unat p, n)} = L \<union> node_regions ?Q"
    using okD(2) by auto
  then have own': "heap_owns s' (L \<union> node_regions ?Q)" "L \<inter> node_regions ?Q = {}"
    using s'(2) okD(2) by auto
  have keep: "mem s' x = mem ?s1 x" if "x \<in> heads mq \<union> regions (node_regions ?Q)" for x
  proof -
    have "x \<notin> W"
      using that W' ap(1,4) okD(3) ipc_callers_apart(2) [OF ok] by (auto simp: regions_Un)
    moreover have "mem s' x = m x"
      using that okD(3) by (intro s'(5)) (auto simp: regs regions_Un)
    ultimately show ?thesis
      by (simp add: m)
  qed
  have "ipc_ok mq s' L ?Q"
    using un(1) own' by (rule ipc_ok_frame) (use arena keep in simp_all)
  moreover have "mem s' x = m x" if "x \<in> caller_memory mq s L" for x
    using that by (intro s'(5)) (auto simp: caller_memory_def regs regions_Un)
  ultimately show thesis
    using that s'(1,4) arena by blast
qed

subsection \<open>Initialisation and the operations of the receiver\<close>

lemma fold_INIT_heads:
  fixes m :: mem
  assumes "unat mq + 256 \<le> 4294967296" "k \<le> 32"
  defines "m' \<equiv> fold (\<lambda>i m. INIT_LIST_HEAD m (queue_head mq (of_nat i))) [0..<k] m"
  shows "(\<forall>i < k. ring m' (queue_head mq (of_nat i)) []) \<and> (\<forall>x. x \<notin> heads mq \<longrightarrow> m' x = m x)"
  using assms(2) unfolding m'_def
proof (induction k)
  case 0
  then show ?case by simp
next
  case (Suc k)
  let ?m = "fold (\<lambda>i m. INIT_LIST_HEAD m (queue_head mq (of_nat i))) [0..<k] m"
  have new: "fold (\<lambda>i m. INIT_LIST_HEAD m (queue_head mq (of_nat i))) [0..<Suc k] m
      = INIT_LIST_HEAD ?m (queue_head mq (of_nat k))"
    by simp
  have "ring (INIT_LIST_HEAD ?m (queue_head mq (of_nat k))) (queue_head mq (of_nat i)) []" if "i < Suc k" for i
  proof (cases "i = k")
    case True
    then show ?thesis by (simp add: kq.rep_init)
  next
    case False
    with that Suc have "ring ?m (queue_head mq (of_nat i)) []" by simp
    moreover have "cell (queue_head mq (of_nat k)) \<inter> cell (queue_head mq (of_nat i)) = {}"
      using that False Suc.prems assms(1) by (intro head_cells_disjoint) auto
    ultimately show ?thesis
      by (elim kq.rep_frame) (intro kq.init_frame, auto)
  qed
  moreover have "INIT_LIST_HEAD ?m (queue_head mq (of_nat k)) x = m x" if "x \<notin> heads mq" for x
  proof -
    have "x \<notin> cell (queue_head mq (of_nat k))"
      using head_cell_subset [OF assms(1), of k] Suc.prems that by auto
    with Suc that show ?thesis by (simp add: kq.init_frame)
  qed
  ultimately show ?case unfolding new by blast
qed

lemma ipc_init_nodes:
  assumes "heap_owns s L" "heads mq \<inter> heap_arena s = {}" "unat mq + 256 \<le> 4294967296"
  shows "ipc_ok mq (ipc_init mq s) L (\<lambda>_. [])" "x \<notin> heads mq \<Longrightarrow> mem (ipc_init mq s) x = mem s x"
proof -
  let ?m = "fold (\<lambda>i m. INIT_LIST_HEAD m (queue_head mq (of_nat i))) [0..<32] (mem s)"
  note init = fold_INIT_heads [OF assms(3), of 32 "mem s"]
  have "heap_owns (with_mem ?m s) L"
    using assms(1) by (rule mm.owns_write_span [where W = "heads mq"]) (use init assms(2) in auto)
  then have "ipc_ok mq (with_mem ?m s) L (\<lambda>_. [])"
    using init assms by (intro ipc_okI) (auto simp: node_regions_def nodes_def)
  then show "ipc_ok mq (ipc_init mq s) L (\<lambda>_. [])" "x \<notin> heads mq \<Longrightarrow> mem (ipc_init mq s) x = mem s x"
    using init unfolding ipc_init_def ipc_ok_printk by auto
qed

lemma ipc_receive_nodes:
  assumes Q: "ipc_ok mq s L Q" "Q 0 = (p, n, msg) # rest"
    and W: "out_span from_pid 4 \<union> out_span type 4 \<union> out_span buffer (unat sz) \<subseteq> caller_memory mq s L"
    and disj: "out_span from_pid 4 \<inter> out_span type 4 = {}" "out_span from_pid 4 \<inter> out_span buffer (unat sz) = {}"
      "out_span type 4 \<inter> out_span buffer (unat sz) = {}"
  defines "k \<equiv> min (unat sz) (length (mdata msg))"
  obtains s' where "ipc_receive mq from_pid buffer sz type s = Some (sint (of_nat k :: u32), s')"
    "ipc_ok mq s' L (Q(0 := rest))" "heap_arena s' = heap_arena s"
    "from_pid \<noteq> NULL \<Longrightarrow> load32 (mem s') from_pid = mfrom msg"
    "type \<noteq> NULL \<Longrightarrow> load32 (mem s') type = mtype msg"
    "buffer \<noteq> NULL \<Longrightarrow> bytes_at (mem s') buffer k = take k (mdata msg)"
    "\<And>x. x \<in> caller_memory mq s L
        \<Longrightarrow> x \<notin> out_span from_pid 4 \<union> out_span type 4 \<union> out_span buffer k \<Longrightarrow> mem s' x = mem s x"
proof -
  note okD = ipc_okD [OF Q(1)]
  have z: "(0 :: nat) < 32" by simp
  let ?m1 = "list_del (mem s) p" and ?h = "queue_head mq 0"
  let ?W = "out_span from_pid 4 \<union> out_span type 4 \<union> out_span buffer (unat sz)"
  let ?Wk = "out_span from_pid 4 \<union> out_span type 4 \<union> out_span buffer k"
  let ?c = "ipc_copy_out ?m1 p from_pid buffer sz type"
  note un = queues_unlink [where Q = Q, OF Q(1) z Q(2)]
  have h: "queue_head mq (of_nat 0) = ?h" by simp
  have nonempty: "\<not> list_empty (mem s) ?h"
    using kq.rep_empty [OF okD(4) [OF z]] Q(2) by (simp add: nodes_def)
  have reg: "(unat p, n) \<in> node_regions Q"
    using node_regionsI [of 0 p n msg Q] Q(2) by simp
  have n: "n < 4294967296"
    using mm.owns_bounds [OF okD(1), of "unat p" n] reg by simp
  have "span p n \<subseteq> regions (node_regions Q)"
    using mm.owned_span [OF okD(1), of p n n] reg region_subset_regions [OF reg] by simp
  then have apart: "span p n \<inter> ?W = {}"
    using W ipc_callers_apart(3) [OF Q(1)] by blast
  have size: "fst ?c = of_nat k"
  proof -
    have "span p n \<inter> out_span from_pid 4 = {}" "span p n \<inter> out_span type 4 = {}"
      using apart by blast+
    note ipc_copy_out_size [OF un(2) this, of buffer sz]
    moreover have "unat (of_nat (length (mdata msg)) :: u32) = length (mdata msg)"
      using un(2) n by (intro unat_of_nat32) (simp add: node_ok_def)
    ultimately show ?thesis
      unfolding k_def by (auto simp: word32_less_nat min_def)
  qed
  note vals = ipc_copy_out_values [OF un(2) n apart disj]
  have k: "unat (of_nat k :: u32) = k" "k \<le> unat sz"
    using unat32_less [of sz] by (simp_all add: k_def unat_of_nat32)
  have other: "snd ?c x = ?m1 x" if "x \<notin> ?Wk" for x
    using that k(1) by (intro ipc_copy_out_other) (simp add: size)
  have "out_span buffer k \<subseteq> out_span buffer (unat sz)"
    using k(2) by (simp add: out_span_def span_mono)
  then have Wk: "?Wk \<subseteq> caller_memory mq s L" "?Wk \<subseteq> ?W"
    using W by blast+
  from take_node [where Q = Q, OF Q(1) z Q(2) other Wk(1)] obtain s' where
    s': "kfree p (with_mem (snd ?c) s) = Some s'" "ipc_ok mq s' L (Q(0 := rest))"
      "\<And>x. x \<in> caller_memory mq s L \<Longrightarrow> mem s' x = snd ?c x" "heap_arena s' = heap_arena s"
    by metis
  let ?s = "printk (''IPC message received by %d from %d, type %d, size %d'' @ nl) s'"
  have "ipc_receive mq from_pid buffer sz type s = Some (sint (of_nat k :: u32), ?s)"
    using nonempty un(3) s'(1) size
    by (simp add: ipc_receive_def get_current_pid_def case_prod_beta)
  moreover have "ipc_ok mq ?s L (Q(0 := rest))"
    using s'(2) by simp
  moreover have "mem ?s x = mem s x" if "x \<in> caller_memory mq s L" "x \<notin> ?Wk" for x
  proof -
    have "x \<notin> heads mq \<union> regions (node_regions Q)"
      using that(1) ipc_callers_apart(3) [OF Q(1)] by blast
    then show ?thesis
      using s'(3) [OF that(1)] other [OF that(2)] un(4) by simp
  qed
  moreover have same: "mem ?s x = snd ?c x" if "x \<in> ?W" for x
    using s'(3) that W by auto
  have "from_pid \<noteq> NULL \<longrightarrow> load32 (mem ?s) from_pid = mfrom msg"
    using vals(1) load32_span [of from_pid "mem ?s" "snd ?c"] same by (simp add: out_span_def)
  moreover have "type \<noteq> NULL \<longrightarrow> load32 (mem ?s) type = mtype msg"
    using vals(2) load32_span [of type "mem ?s" "snd ?c"] same by (simp add: out_span_def)
  moreover have "buffer \<noteq> NULL \<longrightarrow> bytes_at (mem ?s) buffer k = take k (mdata msg)"
  proof
    assume b: "buffer \<noteq> NULL"
    then have "bytes_at (mem ?s) buffer k = bytes_at (snd ?c) buffer k"
      using same span_mono [of k "unat sz" buffer] unfolding k_def
      by (intro bytes_at_span) (auto simp: out_span_def)
    also have "\<dots> = take k (mdata msg)"
      using vals(3) [OF b] by (simp add: k_def min_def)
    finally show "bytes_at (mem ?s) buffer k = take k (mdata msg)" .
  qed
  ultimately show thesis
    using s'(4) by (intro that [of ?s]) simp_all
qed


lemma ipc_process_nodes:
  assumes Q: "ipc_ok mq s L Q" "Q 0 = (p, n, msg) # rest"
  obtains s' where "ipc_process_messages mq s = Some s'" "ipc_ok mq s' L (Q(0 := rest))"
    "\<And>x. x \<in> caller_memory mq s L \<Longrightarrow> mem s' x = mem s x" "heap_arena s' = heap_arena s"
    "klog s' = klog s @ [process_line (mtype msg)]"
proof -
  note okD = ipc_okD [OF Q(1)]
  have z: "(0 :: nat) < 32" by simp
  let ?h = "queue_head mq 0" and ?f = "process_line (mtype msg)"
  have h: "queue_head mq (of_nat 0) = ?h" by simp
  have nonempty: "\<not> list_empty (mem s) ?h"
    using kq.rep_empty [OF okD(4) [OF z]] Q(2) by (simp add: nodes_def)
  note un = queues_unlink [where Q = Q, OF Q(1) z Q(2)]
  have ne: "lnext (mem s) ?h \<noteq> ?h"
    using nonempty by (simp add: list_empty_def)
  have type: "msg_type (mem s) p = mtype msg"
    using okD(5) [OF z, of p n msg] Q(2) by (simp add: node_ok_def)
  have "ipc_ok mq (printk ?f s) L Q"
    using Q(1) by simp
  from take_node [where Q = Q and W = "{}" and m = "list_del (mem s) p", OF this z Q(2)] obtain s' where
    s': "kfree p (with_mem (list_del (mem s) p) (printk ?f s)) = Some s'" "ipc_ok mq s' L (Q(0 := rest))"
      "\<And>x. x \<in> caller_memory mq (printk ?f s) L \<Longrightarrow> mem s' x = list_del (mem s) p x"
      "heap_arena s' = heap_arena (printk ?f s)" "klog s' = klog (printk ?f s)"
    by (metis empty_subsetI printk_simps(1))
  have "ipc_process_messages mq s = Some s'"
    using nonempty ne un(3) s'(1) type
    by (simp add: ipc_process_messages_def get_current_pid_def Let_def)
  moreover have "mem s' x = mem s x" if "x \<in> caller_memory mq s L" for x
  proof -
    have "x \<notin> heads mq \<union> regions (node_regions Q)"
      using that ipc_callers_apart(3) [OF Q(1)] by blast
    then show ?thesis
      using s'(3) [of x] that un(4) by (simp add: caller_memory_def)
  qed
  ultimately show thesis
    using s' by (intro that [of s']) simp_all
qed

text \<open>An empty mailbox: both return at once, and nothing changes.\<close>

lemma ipc_empty_nodes:
  assumes "ipc_ok mq s L Q" "Q 0 = []"
  shows "ipc_receive mq from_pid buffer sz type s = Some (0, s)" "ipc_process_messages mq s = Some s"
proof -
  have "ring (mem s) (queue_head mq 0) []"
    using ipc_okD(4) [OF assms(1), of 0] assms(2) by (simp add: nodes_def)
  then have "list_empty (mem s) (queue_head mq 0)"
    by (simp add: kq.rep_empty)
  then show "ipc_receive mq from_pid buffer sz type s = Some (0, s)" "ipc_process_messages mq s = Some s"
    by (simp_all add: ipc_receive_def ipc_process_messages_def get_current_pid_def)
qed

end
