(* ===== verification/Ipc_Props.thy ===== *)
theory Ipc_Props
  imports Ipc_Nodes Mm_Props
begin

text \<open>
  The properties of the IPC queues: every operation of ipc.c refines the operation on the
  abstract mailboxes.
\<close>

subsection \<open>A machine with an empty set of queues\<close>

text \<open>The witnesses run on the heap \<open>mm_init\<close> builds on a machine with 64 MB, with the array of queue
  heads below it.\<close>

definition ipc_booted :: mm_state where
  "ipc_booted = ipc_init 0x119000 booted"

lemma ipc_booted_apart:
  "heads 0x119000 \<inter> heap_arena booted = {}" "unat (0x119000 :: addr) + 256 \<le> 4294967296"
  by (auto simp: heads_def in_span_nowrap in_heap_arena booted_fields)

lemma ipc_booted_ok: "ipc_ok 0x119000 ipc_booted {} (\<lambda>_. [])"
  unfolding ipc_booted_def by (rule ipc_init_nodes(1) [OF booted_owns ipc_booted_apart])

lemma ipc_booted_fields: "heap_arena ipc_booted = heap_arena booted" "heap_start ipc_booted = 0x120000"
  by (simp_all add: ipc_booted_def ipc_init_def booted_fields)

lemma ipc_booted_heap: "heap_ok ipc_booted [Blk 2097136 True]" "stats_ok ipc_booted [Blk 2097136 True]"
proof -
  have "mem ipc_booted x = mem booted x" if "unat x \<in> hdr_bytes (unat (heap_start booted)) [Blk 2097136 True]" for x
    unfolding ipc_booted_def using that
    by (intro ipc_init_nodes(2) [OF booted_owns ipc_booted_apart])
      (auto simp: heads_def in_span_nowrap booted_fields)
  from heap_ok_frame [OF booted_ok(1) this] booted_ok(2)
  show "heap_ok ipc_booted [Blk 2097136 True]" "stats_ok ipc_booted [Blk 2097136 True]"
    by (simp_all add: heap_ok_def stats_ok_def ipc_booted_def ipc_init_def with_mem_def)
qed

lemma ipc_booted_kmalloc:
  assumes "0 < unat sz" "unat sz \<le> 1000"
  shows "\<exists>s1. kmalloc sz ipc_booted = Some (0x120010, s1) \<and> heap_owns s1 {(0x120010, align_nat (unat sz))}"
proof -
  have a: "align_nat (unat sz) \<le> 1008"
    using align_nat_bounds(2) [of "unat sz"] assms(2) by simp
  then have "alloc_abs (align_nat (unat sz)) (unat (heap_start ipc_booted)) [Blk 2097136 True]
      = (Some 0x120010, [Blk (align_nat (unat sz)) False, Blk (2097136 - align_nat (unat sz) - 16) True])"
    by (simp add: alloc_abs_def ipc_booted_fields carve_def fits_def)
  from kmalloc_blocks [OF ipc_booted_heap assms(1) _ this] assms(2) obtain s1 where
    s1: "kmalloc sz ipc_booted = Some (of_nat 0x120010, s1)"
      "heap_ok s1 [Blk (align_nat (unat sz)) False, Blk (2097136 - align_nat (unat sz) - 16) True]"
      "stats_ok s1 [Blk (align_nat (unat sz)) False, Blk (2097136 - align_nat (unat sz) - 16) True]"
      "heap_start s1 = heap_start ipc_booted"
    by auto
  then have "heap_owns s1 {(0x120010, align_nat (unat sz))}"
    unfolding heap_owns_def
    by (intro exI [of _ "[Blk (align_nat (unat sz)) False, Blk (2097136 - align_nat (unat sz) - 16) True]"])
      (simp add: ipc_booted_fields)
  with s1(1) show ?thesis by auto
qed

text \<open>One message of four bytes for process 0.\<close>

lemma ipc_booted_send:
  obtains s' r n where "ipc_send 0x119000 0 0x9000 4 1 ipc_booted = Some (1, s')"
    "ipc_ok 0x119000 s' {} ((\<lambda>_. [])(0 := [(r, n, Msg 0 0 1 (bytes_at (mem ipc_booted) 0x9000 4))]))"
    "heap_arena s' = heap_arena booted"
proof -
  have out: "span 0x9000 (unat (4 :: u32)) \<subseteq> regions {} \<union> - heap_arena ipc_booted"
    by (auto simp: in_span_nowrap ipc_booted_fields in_heap_arena booted_fields)
  obtain s1 :: mm_state where k: "kmalloc 28 ipc_booted = Some (0x120010, s1)"
    using ipc_booted_kmalloc [of 28] by auto
  have small: "unat (0 :: u32) < 32" "unat (4 :: u32) \<le> 4294967264"
    by simp_all
  from ipc_booted_ok small out show thesis
  proof (cases rule: ipc_send_nodes [where ty = 1])
    case (fail s')
    with k show ?thesis
      by (simp add: ipc_send_def sizeof_ipc_message_node_def)
  next
    case (sent s' r n)
    with that show ?thesis
      by (simp add: ipc_booted_fields)
  qed
qed

subsection \<open>The operations refine the mailboxes\<close>

text \<open>\<open>ipc_init\<close> empties all 32 mailboxes, keeps the regions of the heap's owners and writes
  only the array of queue heads.\<close>

theorem ipc_init_empty:
  assumes "heap_owns s L" "heads mq \<inter> heap_arena s = {}" "unat mq + 256 \<le> 4294967296"
  shows "ipc_rep mq (ipc_init mq s) L (\<lambda>_. [])
    \<and> (\<forall>x. x \<notin> heads mq \<longrightarrow> mem (ipc_init mq s) x = mem s x)"
  using ipc_init_nodes [OF assms] by (auto simp: ipc_rep_def)

theorem ipc_init_empty_witness: "ipc_rep 0x119000 (ipc_init 0x119000 booted) {} (\<lambda>_. [])"
  using ipc_init_empty [OF booted_owns ipc_booted_apart] by blast

text \<open>C9: \<open>ipc_send\<close> refines appending to a mailbox, and says exactly when it sends. A process
  number of 32 or more is refused and nothing changes. Otherwise, for a size the allocator can
  round, the result is 1 exactly when the heap grants a block for the message and its header; then
  the mailbox of the receiver, and only that one, has one more message at its end (the sender 0,
  the receiver, the type and a copy of the bytes of the caller), and the memory of the callers is
  unchanged. When the heap does not grant the block, the result is 0 and nothing but the log
  changes.\<close>

theorem ipc_send_refines:
  fixes ty to_pid :: u32
  assumes "ipc_rep mq s L q" "unat sz \<le> 4294967264"
    "span data (unat sz) \<subseteq> regions L \<union> - heap_arena s"
  defines "msg \<equiv> Msg 0 to_pid ty (bytes_at (mem s) data (unat sz))"
    and "out_of_memory \<equiv> printk (''kmalloc(%zu) failed! Out of memory'' @ nl) s"
  shows "if 32 \<le> to_pid then ipc_send mq to_pid data sz ty s = Some (0, s)
    else if heap_grants (24 + sz) s then
      (\<exists>s'. ipc_send mq to_pid data sz ty s = Some (1, s')
        \<and> ipc_rep mq s' L (q(unat to_pid := q (unat to_pid) @ [msg]))
        \<and> (\<forall>x \<in> caller_memory mq s L. mem s' x = mem s x) \<and> heap_arena s' = heap_arena s)
    else ipc_send mq to_pid data sz ty s = Some (0, out_of_memory) \<and> ipc_rep mq out_of_memory L q"
proof (cases "32 \<le> to_pid")
  case True
  then show ?thesis by (simp add: ipc_send_def)
next
  case False
  then have to: "unat to_pid < 32"
    by (simp add: word32_le_nat)
  from assms(1) obtain Q where Q: "ipc_ok mq s L Q" "\<And>i. i < 32 \<Longrightarrow> q i = map (snd \<circ> snd) (Q i)"
    by (auto simp: ipc_rep_def)
  from Q(1) to assms(2,3) show ?thesis
  proof (cases rule: ipc_send_nodes [where ty = ty])
    case (fail s')
    then have "ipc_rep mq s' L q"
      using Q(2) by (auto simp: ipc_rep_def)
    with fail False show ?thesis by (simp add: out_of_memory_def)
  next
    case (sent s' r n)
    have "ipc_rep mq s' L (q(unat to_pid := q (unat to_pid) @ [msg]))"
      unfolding ipc_rep_def using sent(2) Q(2) to
      by (intro exI [of _ "Q(unat to_pid := Q (unat to_pid) @ [(r, n, msg)])"]) (auto simp: msg_def)
    with sent(1,3,4,5) False show ?thesis by auto
  qed
qed

theorem ipc_send_refines_witness:
  "(\<exists>s'. ipc_send 0x119000 5 0x9000 4 1 ipc_booted = Some (1, s')
      \<and> ipc_rep 0x119000 s' {} ((\<lambda>_. [])(5 := [Msg 0 5 1 (bytes_at (mem ipc_booted) 0x9000 4)])))
   \<and> ipc_send 0x119000 32 0x9000 4 1 ipc_booted = Some (0, ipc_booted)"
proof -
  have rep: "ipc_rep 0x119000 ipc_booted {} (\<lambda>_. [])"
    using ipc_booted_ok by (auto simp: ipc_rep_def)
  have out: "span 0x9000 (unat (4 :: u32)) \<subseteq> regions {} \<union> - heap_arena ipc_booted"
    by (auto simp: in_span_nowrap ipc_booted_fields in_heap_arena booted_fields)
  obtain s1 :: mm_state where "kmalloc 28 ipc_booted = Some (0x120010, s1)"
    using ipc_booted_kmalloc [of 28] by auto
  then have grants: "heap_grants 28 ipc_booted"
    by (simp add: heap_grants_result)
  from ipc_send_refines [OF rep _ out, of 5 1] ipc_send_refines [OF rep _ out, of 32 1] grants
  show ?thesis
    by auto
qed

text \<open>C10: \<open>ipc_receive\<close> refines taking the oldest message of mailbox 0. From an empty mailbox it
  returns 0 and changes nothing. Otherwise, with disjoint places for its results in the memory of
  the caller, it returns the number \<open>k\<close> of bytes copied, the smaller of the size of the buffer and
  of the message; it stores the sender, the type and the first \<open>k\<close> bytes of the message where the
  pointers are not null; the message leaves the mailbox and its node goes back to the heap. No
  other byte of the callers changes, in particular none of the buffer behind the first \<open>k\<close>.\<close>

theorem ipc_receive_refines:
  assumes "ipc_rep mq s L q"
    and W: "out_span from_pid 4 \<union> out_span type 4 \<union> out_span buffer (unat sz) \<subseteq> caller_memory mq s L"
    and disj: "out_span from_pid 4 \<inter> out_span type 4 = {}" "out_span from_pid 4 \<inter> out_span buffer (unat sz) = {}"
      "out_span type 4 \<inter> out_span buffer (unat sz) = {}"
  shows "case q 0 of [] \<Rightarrow> ipc_receive mq from_pid buffer sz type s = Some (0, s)
    | msg # rest \<Rightarrow> (let k = min (unat sz) (length (mdata msg)) in
       \<exists>s'. ipc_receive mq from_pid buffer sz type s = Some (sint (of_nat k :: u32), s')
         \<and> ipc_rep mq s' L (q(0 := rest)) \<and> heap_arena s' = heap_arena s
         \<and> (from_pid \<noteq> NULL \<longrightarrow> load32 (mem s') from_pid = mfrom msg)
         \<and> (type \<noteq> NULL \<longrightarrow> load32 (mem s') type = mtype msg)
         \<and> (buffer \<noteq> NULL \<longrightarrow> bytes_at (mem s') buffer k = take k (mdata msg))
         \<and> (\<forall>x \<in> caller_memory mq s L.
              x \<notin> out_span from_pid 4 \<union> out_span type 4 \<union> out_span buffer k \<longrightarrow> mem s' x = mem s x))"
proof -
  from assms(1) obtain Q where Q: "ipc_ok mq s L Q" "\<And>i. i < 32 \<Longrightarrow> q i = map (snd \<circ> snd) (Q i)"
    by (auto simp: ipc_rep_def)
  show ?thesis
  proof (cases "Q 0")
    case Nil
    with ipc_empty_nodes(1) [OF Q(1)] Q(2) [of 0] show ?thesis by simp
  next
    case (Cons e rest')
    obtain p n msg where Q0: "Q 0 = (p, n, msg) # rest'"
      using Cons by (cases e) auto
    define k where "k = min (unat sz) (length (mdata msg))"
    let ?rest = "map (snd \<circ> snd) rest'"
    have q0: "q 0 = msg # ?rest"
      using Q(2) [of 0] by (simp add: Q0)
    from Q(1) Q0 W disj show ?thesis
    proof (rule ipc_receive_nodes, fold k_def)
      fix s'
      assume s': "ipc_receive mq from_pid buffer sz type s = Some (sint (of_nat k :: u32), s')"
        "ipc_ok mq s' L (Q(0 := rest'))" and others: "heap_arena s' = heap_arena s"
        "from_pid \<noteq> NULL \<Longrightarrow> load32 (mem s') from_pid = mfrom msg"
        "type \<noteq> NULL \<Longrightarrow> load32 (mem s') type = mtype msg"
        "buffer \<noteq> NULL \<Longrightarrow> bytes_at (mem s') buffer k = take k (mdata msg)"
        "\<And>x. x \<in> caller_memory mq s L
          \<Longrightarrow> x \<notin> out_span from_pid 4 \<union> out_span type 4 \<union> out_span buffer k \<Longrightarrow> mem s' x = mem s x"
      have "ipc_rep mq s' L (q(0 := ?rest))"
        unfolding ipc_rep_def using s'(2) Q(2) by (intro exI [of _ "Q(0 := rest')"]) auto
      with s'(1) others show ?thesis
        unfolding q0 list.case Let_def k_def [symmetric]
        by (intro exI [of _ s'] conjI impI ballI)
    qed
  qed
qed

theorem ipc_receive_refines_witness:
  "\<exists>s s'. ipc_send 0x119000 0 0x9000 4 1 ipc_booted = Some (1, s)
    \<and> ipc_receive 0x119000 0xA000 0xA010 16 0xA004 s = Some (4, s')
    \<and> bytes_at (mem s') 0xA010 4 = bytes_at (mem ipc_booted) 0x9000 4 \<and> load32 (mem s') 0xA004 = 1"
proof -
  obtain s :: mm_state and r n where s: "ipc_send 0x119000 0 0x9000 4 1 ipc_booted = Some (1, s)"
    "ipc_ok 0x119000 s {} ((\<lambda>_. [])(0 := [(r, n, Msg 0 0 1 (bytes_at (mem ipc_booted) 0x9000 4))]))"
    "heap_arena s = heap_arena booted"
    by (rule ipc_booted_send)
  let ?msg = "Msg 0 0 1 (bytes_at (mem ipc_booted) 0x9000 4)"
  have rep: "ipc_rep 0x119000 s {} (\<lambda>i. if i = 0 then [?msg] else [])"
    unfolding ipc_rep_def using s(2) by (intro exI conjI, assumption) simp
  have W: "out_span 0xA000 4 \<union> out_span 0xA004 4 \<union> out_span 0xA010 (unat (16 :: u32)) \<subseteq> caller_memory 0x119000 s {}"
    by (auto simp: out_span_def caller_memory_def in_span_nowrap s(3) in_heap_arena booted_fields heads_def)
  have disj: "out_span 0xA000 4 \<inter> out_span 0xA004 4 = {}" "out_span 0xA000 4 \<inter> out_span 0xA010 (unat (16 :: u32)) = {}"
    "out_span 0xA004 4 \<inter> out_span 0xA010 (unat (16 :: u32)) = {}"
    by (auto simp: out_span_def in_span_nowrap)
  from ipc_receive_refines [OF rep W disj] s(1) show ?thesis
    by (auto simp: Let_def)
qed

text \<open>\<open>ipc_process_messages\<close> takes exactly the oldest message of mailbox 0 and logs one line that
  depends on its type; on an empty mailbox it returns at once and changes nothing. It never touches
  the memory of the callers.\<close>

theorem ipc_process_refines:
  assumes "ipc_rep mq s L q"
  shows "\<exists>s'. ipc_process_messages mq s = Some s'
    \<and> (case q 0 of [] \<Rightarrow> s' = s
       | msg # rest \<Rightarrow> ipc_rep mq s' L (q(0 := rest)) \<and> klog s' = klog s @ [process_line (mtype msg)])
    \<and> (\<forall>x \<in> caller_memory mq s L. mem s' x = mem s x) \<and> heap_arena s' = heap_arena s"
proof -
  from assms obtain Q where Q: "ipc_ok mq s L Q" "\<And>i. i < 32 \<Longrightarrow> q i = map (snd \<circ> snd) (Q i)"
    by (auto simp: ipc_rep_def)
  show ?thesis
  proof (cases "Q 0")
    case Nil
    with ipc_empty_nodes(2) [OF Q(1)] Q(2) [of 0] show ?thesis by simp
  next
    case (Cons e rest)
    obtain p n msg where e: "e = (p, n, msg)" by (cases e)
    from ipc_process_nodes [where Q = Q, OF Q(1) Cons [unfolded e]] obtain s' where
      s': "ipc_process_messages mq s = Some s'" "ipc_ok mq s' L (Q(0 := rest))"
        "\<And>x. x \<in> caller_memory mq s L \<Longrightarrow> mem s' x = mem s x" "heap_arena s' = heap_arena s"
        "klog s' = klog s @ [process_line (mtype msg)]"
      by metis
    have "ipc_rep mq s' L (q(0 := map (snd \<circ> snd) rest))"
      unfolding ipc_rep_def using s'(2) Q(2) by (intro exI [of _ "Q(0 := rest)"]) auto
    with s' Q(2) [of 0] show ?thesis
      by (simp add: Cons e)
  qed
qed

theorem ipc_process_refines_witness:
  "ipc_process_messages 0x119000 ipc_booted = Some ipc_booted"
proof -
  have "ipc_rep 0x119000 ipc_booted {} (\<lambda>_. [])"
    using ipc_booted_ok by (auto simp: ipc_rep_def)
  from ipc_process_refines [OF this] show ?thesis
    by auto
qed

subsection \<open>Runs\<close>

text \<open>
  The runs of the IPC system from a state \<open>s0\<close> on: accepted and refused sends, receives,
  processing of messages, and writes of the callers into their memory. The second component is
  the list of messages accepted so far, the third one counts the messages taken.
\<close>

definition good_outs :: "addr \<Rightarrow> 'a mm_state_scheme \<Rightarrow> (nat \<times> nat) set \<Rightarrow> addr \<Rightarrow> addr \<Rightarrow> nat \<Rightarrow> addr \<Rightarrow> bool" where
  "good_outs mq s L from_pid buffer k type \<longleftrightarrow>
     out_span from_pid 4 \<union> out_span type 4 \<union> out_span buffer k \<subseteq> caller_memory mq s L
     \<and> out_span from_pid 4 \<inter> out_span type 4 = {} \<and> out_span from_pid 4 \<inter> out_span buffer k = {}
     \<and> out_span type 4 \<inter> out_span buffer k = {}"

inductive ipc_run :: "addr \<Rightarrow> (nat \<times> nat) set \<Rightarrow> mm_state \<Rightarrow> ipc_msg list \<Rightarrow> nat \<Rightarrow> mm_state \<Rightarrow> bool"
  for mq L s0 where
  start: "ipc_run mq L s0 [] 0 s0"
| accepted: "ipc_run mq L s0 ms k s \<Longrightarrow> unat to_pid < 32 \<Longrightarrow> unat sz \<le> 4294967264
    \<Longrightarrow> span data (unat sz) \<subseteq> regions L \<union> - heap_arena s
    \<Longrightarrow> ipc_send mq to_pid data sz ty s = Some (1, s')
    \<Longrightarrow> ipc_run mq L s0 (ms @ [Msg 0 to_pid ty (bytes_at (mem s) data (unat sz))]) k s'"
| refused: "ipc_run mq L s0 ms k s \<Longrightarrow> unat sz \<le> 4294967264
    \<Longrightarrow> span data (unat sz) \<subseteq> regions L \<union> - heap_arena s
    \<Longrightarrow> ipc_send mq to_pid data sz ty s = Some (0, s') \<Longrightarrow> ipc_run mq L s0 ms k s'"
| received: "ipc_run mq L s0 ms k s \<Longrightarrow> good_outs mq s L from_pid buffer (unat sz) type
    \<Longrightarrow> ipc_receive mq from_pid buffer sz type s = Some (r, s')
    \<Longrightarrow> ipc_run mq L s0 ms (if list_empty (mem s) (queue_head mq 0) then k else Suc k) s'"
| processed: "ipc_run mq L s0 ms k s \<Longrightarrow> ipc_process_messages mq s = Some s'
    \<Longrightarrow> ipc_run mq L s0 ms (if list_empty (mem s) (queue_head mq 0) then k else Suc k) s'"
| caller: "ipc_run mq L s0 ms k s \<Longrightarrow> (\<And>x. x \<notin> caller_memory mq s L \<Longrightarrow> m x = mem s x)
    \<Longrightarrow> ipc_run mq L s0 ms k (with_mem m s)"

definition addressed :: "ipc_msg list \<Rightarrow> nat \<Rightarrow> ipc_msg list" where
  "addressed ms i = filter (\<lambda>msg. unat (mto msg) = i) ms"

text \<open>The mailboxes after \<open>k\<close> of the messages \<open>ms\<close> were taken.\<close>

definition mailboxes :: "ipc_msg list \<Rightarrow> nat \<Rightarrow> nat \<Rightarrow> ipc_msg list" where
  "mailboxes ms k i = (if i = 0 then drop k (addressed ms 0) else addressed ms i)"

definition run_ok :: "addr \<Rightarrow> mm_state \<Rightarrow> (nat \<times> nat) set \<Rightarrow> ipc_msg list \<Rightarrow> nat \<Rightarrow> queues \<Rightarrow> bool" where
  "run_ok mq s L ms k Q \<longleftrightarrow> ipc_ok mq s L Q \<and> k \<le> length (addressed ms 0)
     \<and> (\<forall>i < 32. mailboxes ms k i = map (snd \<circ> snd) (Q i))"

lemma run_ok_send:
  assumes "run_ok mq s L ms k Q" "unat to_pid < 32" "mto msg = to_pid"
    "ipc_ok mq s' L (Q(unat to_pid := Q (unat to_pid) @ [(r, n, msg)]))"
  shows "run_ok mq s' L (ms @ [msg]) k (Q(unat to_pid := Q (unat to_pid) @ [(r, n, msg)]))"
proof -
  have "mailboxes (ms @ [msg]) k i = (if i = unat to_pid then mailboxes ms k i @ [msg] else mailboxes ms k i)" for i
    using assms(1,3) by (auto simp: mailboxes_def addressed_def run_ok_def)
  with assms show ?thesis
    by (auto simp: run_ok_def addressed_def)
qed

lemma run_ok_take:
  assumes "run_ok mq s L ms k Q" "Q 0 = e # rest" "ipc_ok mq s' L (Q(0 := rest))"
  shows "run_ok mq s' L ms (Suc k) (Q(0 := rest))"
proof -
  have d: "drop k (addressed ms 0) = map (snd \<circ> snd) (e # rest)"
  proof -
    have "mailboxes ms k 0 = map (snd \<circ> snd) (Q 0)"
      using assms(1) by (simp add: run_ok_def)
    then show ?thesis
      by (simp add: mailboxes_def assms(2))
  qed
  then have "k < length (addressed ms 0)"
    by (metis drop_all list.simps(9) not_less not_Cons_self2 list.distinct(1))
  moreover have "drop (Suc k) (addressed ms 0) = map (snd \<circ> snd) rest"
    using d by (metis drop_Suc list.sel(3) list.simps(9) tl_drop)
  ultimately show ?thesis
    using assms(1,3) by (auto simp: run_ok_def mailboxes_def)
qed

lemma run_ok_head:
  assumes "run_ok mq s L ms k Q"
  shows "list_empty (mem s) (queue_head mq 0) \<longleftrightarrow> Q 0 = []"
  using ipc_okD(4) [of mq s L Q 0] assms kq.rep_empty by (fastforce simp: run_ok_def nodes_def)

lemma ipc_ok_caller:
  assumes ok: "ipc_ok mq s L Q" and m: "\<And>x. x \<notin> caller_memory mq s L \<Longrightarrow> m x = mem s x"
  shows "ipc_ok mq (with_mem m s) L Q"
proof (rule ipc_ok_frame [OF ok])
  have "caller_memory mq s L \<inter> heap_arena s \<subseteq> regions (L \<union> node_regions Q)"
    by (auto simp: caller_memory_def regions_Un)
  with ipc_okD(1) [OF ok] show "heap_owns (with_mem m s) (L \<union> node_regions Q)"
    using m by (intro mm.owns_write_span)
qed (use ok m ipc_callers_apart(3) [OF ok] in \<open>auto simp: ipc_ok_def\<close>)

lemma ipc_run_ok:
  assumes "ipc_run mq L s0 ms k s" "run_ok mq s0 L [] 0 (\<lambda>_. [])"
  shows "\<exists>Q. run_ok mq s L ms k Q"
  using assms(1)
proof induction
  case start
  from assms(2) show ?case by blast
next
  case (accepted ms k s to_pid sz data ty s')
  then obtain Q where Q: "run_ok mq s L ms k Q" by blast
  then have "ipc_ok mq s L Q" by (simp add: run_ok_def)
  from this accepted.hyps(2-4) show ?case
  proof (cases rule: ipc_send_nodes [where ty = ty])
    case (fail s2)
    with accepted.hyps(5) show ?thesis by simp
  next
    case (sent s2 r n)
    with accepted.hyps(5) have "s2 = s'" by simp
    with run_ok_send [OF Q accepted.hyps(2) _ sent(2)] show ?thesis by auto
  qed
next
  case (refused ms k s sz data to_pid ty s')
  then obtain Q where Q: "run_ok mq s L ms k Q" by blast
  then have ok: "ipc_ok mq s L Q" by (simp add: run_ok_def)
  show ?case
  proof (cases "unat to_pid < 32")
    case True
    from ok True refused.hyps(2,3) show ?thesis
    proof (cases rule: ipc_send_nodes [where ty = ty])
      case (fail s2)
      with refused.hyps(4) Q show ?thesis by (auto simp: run_ok_def)
    next
      case (sent s2 r n)
      with refused.hyps(4) show ?thesis by simp
    qed
  next
    case False
    with refused.hyps(4) Q show ?thesis
      by (auto simp: ipc_send_def word32_le_nat)
  qed
next
  case (received ms k s from_pid buffer sz type r s')
  then obtain Q where Q: "run_ok mq s L ms k Q" by blast
  then have ok: "ipc_ok mq s L Q" by (simp add: run_ok_def)
  show ?case
  proof (cases "Q 0")
    case Nil
    with ipc_empty_nodes(1) [OF ok] received.hyps(3) Q run_ok_head [OF Q] show ?thesis by auto
  next
    case (Cons e rest)
    obtain p n msg where e: "e = (p, n, msg)" by (cases e)
    from received.hyps(2) have outs: "out_span from_pid 4 \<union> out_span type 4 \<union> out_span buffer (unat sz) \<subseteq> caller_memory mq s L"
      "out_span from_pid 4 \<inter> out_span type 4 = {}" "out_span from_pid 4 \<inter> out_span buffer (unat sz) = {}"
      "out_span type 4 \<inter> out_span buffer (unat sz) = {}"
      by (simp_all add: good_outs_def)
    have "ipc_ok mq s' L (Q(0 := rest))"
      using ok Cons [unfolded e] outs by (rule ipc_receive_nodes) (use received.hyps(3) in simp)
    from run_ok_take [OF Q Cons this] run_ok_head [OF Q] Cons show ?thesis by auto
  qed
next
  case (processed ms k s s')
  then obtain Q where Q: "run_ok mq s L ms k Q" by blast
  then have ok: "ipc_ok mq s L Q" by (simp add: run_ok_def)
  show ?case
  proof (cases "Q 0")
    case Nil
    with ipc_empty_nodes(2) [OF ok] processed.hyps(2) Q run_ok_head [OF Q] show ?thesis by auto
  next
    case (Cons e rest)
    obtain p n msg where e: "e = (p, n, msg)" by (cases e)
    have "ipc_ok mq s' L (Q(0 := rest))"
      using ok Cons [unfolded e] by (rule ipc_process_nodes) (use processed.hyps(2) in simp)
    from run_ok_take [OF Q Cons this] run_ok_head [OF Q] Cons show ?thesis by auto
  qed
next
  case (caller ms k s m)
  then obtain Q where Q: "run_ok mq s L ms k Q" by blast
  then have ok: "ipc_ok mq s L Q" by (simp add: run_ok_def)
  have "ipc_ok mq (with_mem m s) L Q"
    using ok caller.hyps(2) by (rule ipc_ok_caller)
  with Q show ?case by (auto simp: run_ok_def)
qed

text \<open>C8: Delivery is first in, first out, exactly once, over every run that starts with empty
  mailboxes. The mailbox of process 0 holds the accepted messages addressed to 0 in the order of
  sending, less as many of the oldest as were taken. The mailbox of every other process holds all
  messages ever accepted for it: \<open>get_current_pid\<close> is always 0, so nothing takes them out.\<close>

theorem ipc_run_fifo:
  assumes "ipc_rep mq s0 L (\<lambda>_. [])" "ipc_run mq L s0 ms k s"
  shows "ipc_rep mq s L (\<lambda>i. if i = 0 then drop k (addressed ms 0) else addressed ms i)
    \<and> k \<le> length (addressed ms 0)"
proof -
  from assms(1) obtain Q where Q: "ipc_ok mq s0 L Q" "\<And>i. i < 32 \<Longrightarrow> Q i = []"
    by (auto simp: ipc_rep_def)
  have "ipc_ok mq s0 L (\<lambda>_. [])"
  proof -
    have "node_regions Q = {}"
      using Q(2) by (simp add: node_regions_def)
    with ipc_okD [OF Q(1)] Q(2) show ?thesis
      by (intro ipc_okI) (simp_all add: node_regions_def nodes_def)
  qed
  then have "run_ok mq s0 L [] 0 (\<lambda>_. [])"
    by (simp add: run_ok_def mailboxes_def addressed_def)
  with assms(2) obtain Q' where "run_ok mq s L ms k Q'"
    using ipc_run_ok by blast
  then show ?thesis
    by (auto simp: run_ok_def ipc_rep_def mailboxes_def)
qed

theorem ipc_run_fifo_witness:
  "\<exists>s. ipc_send 0x119000 0 0x9000 4 1 ipc_booted = Some (1, s)
    \<and> ipc_rep 0x119000 s {} (\<lambda>i. if i = 0 then [Msg 0 0 1 (bytes_at (mem ipc_booted) 0x9000 4)] else [])"
proof -
  obtain s :: mm_state and r n where s: "ipc_send 0x119000 0 0x9000 4 1 ipc_booted = Some (1, s)"
    by (rule ipc_booted_send)
  have rep: "ipc_rep 0x119000 ipc_booted {} (\<lambda>_. [])"
    using ipc_booted_ok by (auto simp: ipc_rep_def)
  have out: "span 0x9000 (unat (4 :: u32)) \<subseteq> regions {} \<union> - heap_arena ipc_booted"
    by (auto simp: in_span_nowrap ipc_booted_fields in_heap_arena booted_fields)
  have "ipc_run 0x119000 {} ipc_booted ([] @ [Msg 0 0 1 (bytes_at (mem ipc_booted) 0x9000 (unat (4 :: u32)))]) 0 s"
    by (rule ipc_run.accepted [OF ipc_run.start _ _ out s]) simp_all
  from ipc_run_fifo [OF rep this] s show ?thesis
    by (simp add: addressed_def cong: if_cong)
qed

subsection \<open>Sizes near the top of the address space\<close>

text \<open>The size of a node is computed with wrap-around. A send of 24 bytes less than the size of
  the address space, or a little more, asks the allocator for fewer bytes than the header of a
  message has, and then reports success.\<close>

theorem ipc_send_size_wraps:
  assumes "4294967272 < unat sz" "to_pid < 32" "kmalloc (24 + sz) s = Some (r, s1)" "r \<noteq> NULL"
  shows "unat (24 + sz) < unat sizeof_ipc_message_node \<and> (\<exists>s'. ipc_send mq to_pid data sz ty s = Some (1, s'))"
proof
  have "unat (24 + sz) = unat sz + 24 - 4294967296"
    using assms(1) unat32_less [of sz] unat_word_ariths(1) [of 24 sz] by (simp add: mod_if)
  then show "unat (24 + sz) < unat sizeof_ipc_message_node"
    using assms(1) unat32_less [of sz] by (simp add: sizeof_ipc_message_node_def)
  show "\<exists>s'. ipc_send mq to_pid data sz ty s = Some (1, s')"
    using assms(2-4) by (simp add: ipc_send_def sizeof_ipc_message_node_def not_le)
qed

theorem ipc_send_size_wraps_witness:
  "\<exists>s1 s'. kmalloc (24 + 0xFFFFFFF0) ipc_booted = Some (0x120010, s1) \<and> heap_owns s1 {(0x120010, 8)}
    \<and> ipc_send 0x119000 0 0x9000 0xFFFFFFF0 1 ipc_booted = Some (1, s')"
proof -
  obtain s1 :: mm_state where s1: "kmalloc 8 ipc_booted = Some (0x120010, s1)" "heap_owns s1 {(0x120010, 8)}"
    using ipc_booted_kmalloc [of 8] by (auto simp: align_nat_def)
  moreover have "(24 + 0xFFFFFFF0 :: u32) = 8"
    by (rule word_unat_eq_iff [THEN iffD2]) simp
  ultimately have "kmalloc (24 + 0xFFFFFFF0) ipc_booted = Some (0x120010, s1)"
    by metis
  with ipc_send_size_wraps [OF _ _ this, of 0 "0x119000" "0x9000" 1] s1(2) show ?thesis
    by auto
qed

end
