(* ===== verification/Sandbox.thy ===== *)
theory Sandbox
  imports Mm_Contract
begin

text \<open>
  kernel/src/sandbox/sandbox.c: a table of 32 sandboxes, each with a set of capabilities and a
  block of 4096 bytes of the kernel heap. The table and its counter are static variables that no
  pointer reaches, so they are fields of the record. The capability operations refine operations
  on sets of capability bits.
\<close>

subsection \<open>State\<close>

record sandbox_t =
  used :: int
  sandbox_ident :: int
  capabilities :: u32
  memory_ptr :: addr

record sandbox_state = mm_state +
  sandboxes :: "sandbox_t list"
  sandbox_count :: int

definition SANDBOX_MEMORY_SIZE :: u32 where "SANDBOX_MEMORY_SIZE = 4096"

definition CAP_ACCESS_DISK :: u32 where "CAP_ACCESS_DISK = push_bit 0 1"
definition CAP_ACCESS_PIO :: u32 where "CAP_ACCESS_PIO = push_bit 1 1"
definition CAP_ACCESS_FS :: u32 where "CAP_ACCESS_FS = push_bit 2 1"
definition CAP_ACCESS_MEMORY :: u32 where "CAP_ACCESS_MEMORY = push_bit 3 1"
definition CAP_SYSCALL :: u32 where "CAP_SYSCALL = push_bit 4 1"
definition CAP_IPC :: u32 where "CAP_IPC = push_bit 5 1"

definition SYS_IPC_SEND :: int where "SYS_IPC_SEND = 1"

text \<open>An assignment to fields of one entry of the table.\<close>

definition set_box :: "nat \<Rightarrow> (sandbox_t \<Rightarrow> sandbox_t) \<Rightarrow> 'a sandbox_state_scheme \<Rightarrow> 'a sandbox_state_scheme" where
  "set_box i f s = s\<lparr>sandboxes := (sandboxes s)[i := f (sandboxes s ! i)]\<rparr>"

subsection \<open>Operations\<close>

definition sandbox_init :: "'a sandbox_state_scheme \<Rightarrow> 'a sandbox_state_scheme" where
  "sandbox_init s =
     printk (''Sandbox manager initialized'' @ nl)
       (s\<lparr>sandbox_count := 0, sandboxes := map (\<lambda>b. b\<lparr>used := 0\<rparr>) (sandboxes s)\<rparr>)"

text \<open>The loop of \<open>sandbox_create\<close>: the first entry that is not used.\<close>

fun first_free :: "nat \<Rightarrow> sandbox_t list \<Rightarrow> nat option" where
  "first_free i [] = None"
| "first_free i (b # bs) = (if used b = 0 then Some i else first_free (Suc i) bs)"

definition sandbox_create :: "'a sandbox_state_scheme \<Rightarrow> (int \<times> 'a sandbox_state_scheme) option" where
  "sandbox_create s =
     (if sandbox_count s \<ge> 32 then Some (-1, printk (''Sandbox limit reached'' @ nl) s)
      else case first_free 0 (sandboxes s) of
        None \<Rightarrow> Some (-1, s)
      | Some i \<Rightarrow> do {
          let s = set_box i (\<lambda>b. b\<lparr>used := 1, sandbox_ident := int i, capabilities := 0\<rparr>) s;
          let s = s\<lparr>sandbox_count := sandbox_count s + 1\<rparr>;
          (ptr, s) \<leftarrow> kmalloc SANDBOX_MEMORY_SIZE s;
          let s = set_box i (\<lambda>b. b\<lparr>memory_ptr := ptr\<rparr>) s;
          if ptr = NULL
          then let s = printk (''Failed to allocate memory for sandbox'' @ nl) s;
                   s = set_box i (\<lambda>b. b\<lparr>used := 0\<rparr>) s
               in Some (-1, s\<lparr>sandbox_count := sandbox_count s - 1\<rparr>)
          else Some (int i, printk (''Sandbox created: %d'' @ nl) s)
        })"

text \<open>The guard every other operation starts with.\<close>

definition no_sandbox :: "int \<Rightarrow> 'a sandbox_state_scheme \<Rightarrow> bool" where
  "no_sandbox ident s \<longleftrightarrow> ident < 0 \<or> ident \<ge> 32 \<or> used (sandboxes s ! nat ident) = 0"

definition sandbox_destroy :: "int \<Rightarrow> 'a sandbox_state_scheme \<Rightarrow> (int \<times> 'a sandbox_state_scheme) option" where
  "sandbox_destroy ident s =
     (if no_sandbox ident s then Some (0, s)
      else do {
        s \<leftarrow> kfree (memory_ptr (sandboxes s ! nat ident)) s;
        let s = set_box (nat ident) (\<lambda>b. b\<lparr>used := 0\<rparr>) s;
        let s = s\<lparr>sandbox_count := sandbox_count s - 1\<rparr>;
        Some (1, printk (''Sandbox destroyed: %d'' @ nl) s)
      })"

definition sandbox_grant_capability :: "int \<Rightarrow> u32 \<Rightarrow> 'a sandbox_state_scheme \<Rightarrow> int \<times> 'a sandbox_state_scheme" where
  "sandbox_grant_capability ident capability s =
     (if no_sandbox ident s then (0, s)
      else (1, set_box (nat ident) (\<lambda>b. b\<lparr>capabilities := capabilities b OR capability\<rparr>) s))"

definition sandbox_revoke_capability :: "int \<Rightarrow> u32 \<Rightarrow> 'a sandbox_state_scheme \<Rightarrow> int \<times> 'a sandbox_state_scheme" where
  "sandbox_revoke_capability ident capability s =
     (if no_sandbox ident s then (0, s)
      else (1, set_box (nat ident) (\<lambda>b. b\<lparr>capabilities := capabilities b AND NOT capability\<rparr>) s))"

definition sandbox_check_permission :: "int \<Rightarrow> u32 \<Rightarrow> 'a sandbox_state_scheme \<Rightarrow> bool" where
  "sandbox_check_permission ident required_caps s =
     (if no_sandbox ident s then False
      else capabilities (sandboxes s ! nat ident) AND required_caps = required_caps)"

definition sandbox_alloc :: "int \<Rightarrow> u32 \<Rightarrow> 'a sandbox_state_scheme \<Rightarrow> (addr \<times> 'a sandbox_state_scheme) option" where
  "sandbox_alloc ident sz s =
     (if \<not> sandbox_check_permission ident CAP_ACCESS_MEMORY s then Some (NULL, s) else kmalloc sz s)"

definition sandbox_syscall :: "int \<Rightarrow> int \<Rightarrow> addr \<Rightarrow> 'a sandbox_state_scheme \<Rightarrow> int" where
  "sandbox_syscall ident syscall_num args s =
     (if \<not> sandbox_check_permission ident CAP_SYSCALL s then -1
      else if syscall_num = SYS_IPC_SEND \<and> sandbox_check_permission ident CAP_IPC s then 0
      else -1)"

subsection \<open>The heap and the table do not touch each other\<close>

lemma more_sandboxes:
  assumes "mm_state.more s = mm_state.more s'"
  shows "sandboxes s = sandboxes s'" "sandbox_count s = sandbox_count s'"
    "sandbox_state.more s = sandbox_state.more s'"
  using assms by (cases s; cases s'; simp)+

lemma same_heap_sandboxes:
  "same_heap s s' \<Longrightarrow> sandboxes s' = sandboxes s \<and> sandbox_count s' = sandbox_count s"
  using more_sandboxes [of s' s] by (simp add: same_heap_def)

lemma heap_owns_table [simp]:
  "heap_owns (s\<lparr>sandboxes := bs\<rparr>) L \<longleftrightarrow> heap_owns s L"
  "heap_owns (s\<lparr>sandbox_count := n\<rparr>) L \<longleftrightarrow> heap_owns s L"
  "heap_arena (s\<lparr>sandboxes := bs\<rparr>) = heap_arena s" "heap_arena (s\<lparr>sandbox_count := n\<rparr>) = heap_arena s"
  by (simp_all add: heap_owns_def heap_ok_def stats_ok_def heap_arena_def)

lemma set_box_simps [simp]:
  "sandboxes (set_box i f s) = (sandboxes s)[i := f (sandboxes s ! i)]"
  "sandbox_count (set_box i f s) = sandbox_count s" "mem (set_box i f s) = mem s"
  "heap_owns (set_box i f s) L \<longleftrightarrow> heap_owns s L" "heap_arena (set_box i f s) = heap_arena s"
  by (simp_all add: set_box_def)

text \<open>Whether the heap grants a request does not depend on the table.\<close>

lemma heap_grants_table [simp]:
  "heap_grants sz (s\<lparr>sandboxes := bs\<rparr>) = heap_grants sz s"
  "heap_grants sz (s\<lparr>sandbox_count := n\<rparr>) = heap_grants sz s"
  "heap_grants sz (set_box i f s) = heap_grants sz s"
  by (auto simp: set_box_def heap_grants_def kmalloc_def Let_def bind_eq_Some_conv split: option.splits)

lemma sandbox_printk [simp]:
  "sandboxes (printk f s) = sandboxes s" "sandbox_count (printk f s) = sandbox_count s"
  by (simp_all add: printk_def)

subsection \<open>The invariant\<close>

text \<open>The entries in use, and the heap regions of their memory; \<open>n i\<close> is the size of the region the
  heap granted to sandbox \<open>i\<close>.\<close>

definition boxes_used :: "sandbox_t list \<Rightarrow> nat set" where
  "boxes_used bs = {i. i < length bs \<and> used (bs ! i) \<noteq> 0}"

definition box_regions :: "sandbox_t list \<Rightarrow> (nat \<Rightarrow> nat) \<Rightarrow> (nat \<times> nat) set" where
  "box_regions bs n = (\<lambda>i. (unat (memory_ptr (bs ! i)), n i)) ` boxes_used bs"

definition table_ok :: "sandbox_t list \<Rightarrow> (nat \<Rightarrow> nat) \<Rightarrow> bool" where
  "table_ok bs n \<longleftrightarrow> length bs = 32
     \<and> (\<forall>i \<in> boxes_used bs. used (bs ! i) = 1 \<and> sandbox_ident (bs ! i) = int i \<and> 4096 \<le> n i)
     \<and> inj_on (\<lambda>i. memory_ptr (bs ! i)) (boxes_used bs)"

definition sandbox_ok :: "'a sandbox_state_scheme \<Rightarrow> (nat \<times> nat) set \<Rightarrow> (nat \<Rightarrow> nat) \<Rightarrow> bool" where
  "sandbox_ok s L n \<longleftrightarrow> table_ok (sandboxes s) n \<and> sandbox_count s = int (card (boxes_used (sandboxes s)))
     \<and> heap_owns s (L \<union> box_regions (sandboxes s) n) \<and> L \<inter> box_regions (sandboxes s) n = {}"

lemma finite_boxes_used [simp]: "finite (boxes_used bs)"
  by (simp add: boxes_used_def)

lemma first_free_Some:
  "first_free i bs = Some k \<Longrightarrow> i \<le> k \<and> k < i + length bs \<and> used (bs ! (k - i)) = 0
   \<and> (\<forall>j. i \<le> j \<longrightarrow> j < k \<longrightarrow> used (bs ! (j - i)) \<noteq> 0)"
proof (induction bs arbitrary: i)
  case Nil
  then show ?case by simp
next
  case (Cons b bs)
  show ?case
  proof (cases "used b = 0")
    case True
    with Cons.prems show ?thesis by auto
  next
    case False
    with Cons.prems have "first_free (Suc i) bs = Some k" by simp
    from Cons.IH [OF this] False show ?thesis
      by (auto simp: nth_Cons' Suc_le_eq)
  qed
qed

lemma first_free_None: "first_free i bs = None \<longleftrightarrow> (\<forall>b \<in> set bs. used b \<noteq> 0)"
  by (induction bs arbitrary: i) auto

subsection \<open>Updates of the table\<close>

lemma boxes_used_update:
  "i < length bs \<Longrightarrow> boxes_used (bs[i := b]) = (if used b \<noteq> 0 then insert i (boxes_used bs) else boxes_used bs - {i})"
  by (auto simp: boxes_used_def nth_list_update)

text \<open>An entry that is not used may change freely, as long as it stays unused.\<close>

lemma table_ok_unused:
  assumes "table_ok bs n" "i < length bs" "used (bs ! i) = 0" "used b = 0"
  shows "table_ok (bs[i := b]) n" "boxes_used (bs[i := b]) = boxes_used bs"
    "box_regions (bs[i := b]) n = box_regions bs n"
proof -
  show same: "boxes_used (bs[i := b]) = boxes_used bs"
    using assms by (simp add: boxes_used_update) (simp add: boxes_used_def)
  have "bs[i := b] ! j = bs ! j" if "j \<in> boxes_used bs" for j
    using that assms(3) by (cases "j = i") (auto simp: boxes_used_def)
  with assms(1) same show "table_ok (bs[i := b]) n" "box_regions (bs[i := b]) n = box_regions bs n"
    by (auto simp: table_ok_def box_regions_def inj_on_def)
qed

text \<open>An entry in use keeps its identity and its memory when its capabilities change.\<close>

lemma table_ok_caps:
  fixes c :: u32
  assumes "table_ok bs n" "i \<in> boxes_used bs"
  defines "bs' \<equiv> bs[i := (bs ! i)\<lparr>capabilities := c\<rparr>]"
  shows "table_ok bs' n" "boxes_used bs' = boxes_used bs" "box_regions bs' n = box_regions bs n"
proof -
  have i: "i < length bs" "used (bs ! i) \<noteq> 0"
    using assms(2) by (auto simp: boxes_used_def)
  show same: "boxes_used bs' = boxes_used bs"
    unfolding bs'_def using assms(2) i by (auto simp: boxes_used_update)
  have "memory_ptr (bs' ! j) = memory_ptr (bs ! j)" "used (bs' ! j) = used (bs ! j)"
    "sandbox_ident (bs' ! j) = sandbox_ident (bs ! j)" for j
    unfolding bs'_def using i by (cases "j = i"; simp)+
  with assms(1) same show "table_ok bs' n" "box_regions bs' n = box_regions bs n"
    by (simp_all add: table_ok_def box_regions_def bs'_def)
qed

text \<open>A new sandbox with a region of its own.\<close>

lemma table_ok_new:
  assumes "table_ok bs n" "i < length bs" "used (bs ! i) = 0" "used b = 1" "sandbox_ident b = int i" "4096 \<le> k"
    and fresh: "\<And>j. j \<in> boxes_used bs \<Longrightarrow> memory_ptr (bs ! j) \<noteq> memory_ptr b"
  shows "table_ok (bs[i := b]) (n(i := k))"
    and "box_regions (bs[i := b]) (n(i := k)) = insert (unat (memory_ptr b), k) (box_regions bs n)"
    and "card (boxes_used (bs[i := b])) = Suc (card (boxes_used bs))"
proof -
  have i: "i \<notin> boxes_used bs"
    using assms(3) by (simp add: boxes_used_def)
  have used: "boxes_used (bs[i := b]) = insert i (boxes_used bs)"
    using assms(2,4) by (simp add: boxes_used_update)
  then show "card (boxes_used (bs[i := b])) = Suc (card (boxes_used bs))"
    using i by simp
  have same: "bs[i := b] ! j = bs ! j" "(n(i := k)) j = n j" "j \<noteq> i" if "j \<in> boxes_used bs" for j
    using that i by (cases "j = i"; simp)+
  show "box_regions (bs[i := b]) (n(i := k)) = insert (unat (memory_ptr b), k) (box_regions bs n)"
    unfolding box_regions_def used using assms(2) same(1,2) by (simp cong: image_cong_simp)
  show "table_ok (bs[i := b]) (n(i := k))"
    using assms(1-6) same unfolding table_ok_def used
    by (auto simp: inj_on_def) (use fresh in metis)+
qed

lemma table_ok_remove:
  assumes "table_ok bs n" "i \<in> boxes_used bs"
  defines "bs' \<equiv> bs[i := (bs ! i)\<lparr>used := 0\<rparr>]"
  shows "table_ok bs' n" "boxes_used bs' = boxes_used bs - {i}"
    "box_regions bs' n = box_regions bs n - {(unat (memory_ptr (bs ! i)), n i)}"
    "card (boxes_used bs) = Suc (card (boxes_used bs'))"
proof -
  have i: "i < length bs"
    using assms(2) by (simp add: boxes_used_def)
  show used: "boxes_used bs' = boxes_used bs - {i}"
    unfolding bs'_def using i by (simp add: boxes_used_update)
  then show "card (boxes_used bs) = Suc (card (boxes_used bs'))"
    using assms(2) card_Suc_Diff1 [of "boxes_used bs" i] by simp
  have mem: "memory_ptr (bs' ! j) = memory_ptr (bs ! j)" for j
    unfolding bs'_def using i by (cases "j = i"; simp)
  have "bs' ! j = bs ! j" if "j \<noteq> i" for j
    unfolding bs'_def using that by simp
  with assms(1) used mem show "table_ok bs' n"
    by (auto simp: table_ok_def bs'_def inj_on_def)
  have "inj_on (\<lambda>j. (unat (memory_ptr (bs ! j)), n j)) (boxes_used bs)"
    using assms(1) by (auto simp: table_ok_def inj_on_def word_unat_eq_iff [symmetric])
  then show "box_regions bs' n = box_regions bs n - {(unat (memory_ptr (bs ! i)), n i)}"
    unfolding box_regions_def used mem using assms(2) by (simp add: inj_on_image_set_diff)
qed

subsection \<open>What the operations do\<close>

lemma sandbox_okD:
  assumes "sandbox_ok s L n"
  shows "table_ok (sandboxes s) n" "length (sandboxes s) = 32"
    "sandbox_count s = int (card (boxes_used (sandboxes s)))"
    "heap_owns s (L \<union> box_regions (sandboxes s) n)" "L \<inter> box_regions (sandboxes s) n = {}"
  using assms by (auto simp: sandbox_ok_def table_ok_def)

lemma no_sandbox_iff:
  assumes "sandbox_ok s L n"
  shows "no_sandbox ident s \<longleftrightarrow> \<not> (0 \<le> ident \<and> nat ident \<in> boxes_used (sandboxes s))"
  using sandbox_okD(2) [OF assms] by (auto simp: no_sandbox_def boxes_used_def)

text \<open>\<open>sandbox_create\<close>: the table is full, the heap is full, or a sandbox is made.\<close>

lemma sandbox_create_cases:
  assumes ok: "sandbox_ok s L n"
  obtains (full) "sandbox_create s = Some (-1, printk (''Sandbox limit reached'' @ nl) s)" "card (boxes_used (sandboxes s)) = 32"
  | (no_memory) s' where "sandbox_create s = Some (-1, s')" "sandbox_ok s' L n" "mem s' = mem s"
      "boxes_used (sandboxes s') = boxes_used (sandboxes s)"
      "\<And>j. j \<in> boxes_used (sandboxes s) \<Longrightarrow> sandboxes s' ! j = sandboxes s ! j"
      "\<not> heap_grants SANDBOX_MEMORY_SIZE s" "card (boxes_used (sandboxes s)) < 32" "heap_arena s' = heap_arena s"
  | (created) i k ptr s' where "sandbox_create s = Some (int i, s')" "i \<notin> boxes_used (sandboxes s)" "i < 32"
      "sandbox_ok s' L (n(i := k))" "ptr \<noteq> NULL"
      "sandboxes s' = (sandboxes s)[i := (sandboxes s ! i)\<lparr>used := 1, sandbox_ident := int i, capabilities := 0, memory_ptr := ptr\<rparr>]"
      "\<And>x. x \<in> regions (L \<union> box_regions (sandboxes s) n) \<or> x \<notin> heap_arena s \<Longrightarrow> mem s' x = mem s x"
      "heap_arena s' = heap_arena s" "heap_grants SANDBOX_MEMORY_SIZE s"
      "\<And>j. j < i \<Longrightarrow> j \<in> boxes_used (sandboxes s)"
proof (cases "sandbox_count s \<ge> 32")
  case True
  have "boxes_used (sandboxes s) \<subseteq> {..<32}"
    using sandbox_okD(2) [OF ok] by (auto simp: boxes_used_def)
  then have "card (boxes_used (sandboxes s)) \<le> 32"
    using card_mono [of "{..<32 :: nat}" "boxes_used (sandboxes s)"] by simp
  with True sandbox_okD(3) [OF ok] show ?thesis
    by (intro full) (auto simp: sandbox_create_def)
next
  case False
  let ?bs = "sandboxes s"
  note okD = sandbox_okD [OF ok]
  have "first_free 0 ?bs \<noteq> None"
  proof
    assume "first_free 0 ?bs = None"
    then have "boxes_used ?bs = {..<32}"
      using okD(2) by (auto simp: first_free_None boxes_used_def)
    then show False
      using False okD(3) by simp
  qed
  then obtain i where i: "first_free 0 ?bs = Some i" by blast
  from first_free_Some [OF i] okD(2) have ilt: "i < length ?bs" "i < 32" and unused: "used (?bs ! i) = 0"
    by simp_all
  have below: "j \<in> boxes_used ?bs" if "j < i" for j
    using first_free_Some [OF i] that ilt(1) by (simp add: boxes_used_def)
  define s0 where "s0 = (set_box i (\<lambda>b. b\<lparr>used := 1, sandbox_ident := int i, capabilities := 0\<rparr>) s)
    \<lparr>sandbox_count := sandbox_count s + 1\<rparr>"
  have s0: "heap_owns s0 (L \<union> box_regions ?bs n)" "mem s0 = mem s" "heap_arena s0 = heap_arena s"
    "sandboxes s0 = ?bs[i := (?bs ! i)\<lparr>used := 1, sandbox_ident := int i, capabilities := 0\<rparr>]"
    "sandbox_count s0 = sandbox_count s + 1"
    "heap_grants SANDBOX_MEMORY_SIZE s0 = heap_grants SANDBOX_MEMORY_SIZE s"
    using okD(4) by (simp_all add: s0_def)
  have big: "0 < unat SANDBOX_MEMORY_SIZE" "unat SANDBOX_MEMORY_SIZE \<le> 4294967288"
    by (simp_all add: SANDBOX_MEMORY_SIZE_def)
  have create: "sandbox_create s = do { (ptr, s) \<leftarrow> kmalloc SANDBOX_MEMORY_SIZE s0;
          let s = set_box i (\<lambda>b. b\<lparr>memory_ptr := ptr\<rparr>) s;
          if ptr = NULL
          then let s = printk (''Failed to allocate memory for sandbox'' @ nl) s;
                   s = set_box i (\<lambda>b. b\<lparr>used := 0\<rparr>) s
               in Some (-1, s\<lparr>sandbox_count := sandbox_count s - 1\<rparr>)
          else Some (int i, printk (''Sandbox created: %d'' @ nl) s) }"
    using False by (simp add: sandbox_create_def i s0_def Let_def)
  from s0(1) big show ?thesis
  proof (cases rule: kmalloc_owned)
    case fail
    define s' where "s' = (set_box i (\<lambda>b. b\<lparr>used := 0\<rparr>) (printk (''Failed to allocate memory for sandbox'' @ nl)
        (set_box i (\<lambda>b. b\<lparr>memory_ptr := NULL\<rparr>) (printk (''kmalloc(%zu) failed! Out of memory'' @ nl) s0))))\<lparr>sandbox_count := sandbox_count s0 - 1\<rparr>"
    let ?b = "(?bs ! i)\<lparr>sandbox_ident := int i, capabilities := 0, memory_ptr := NULL, used := 0\<rparr>"
    have "sandbox_create s = Some (-1, s')"
      unfolding create by (simp add: fail s'_def Let_def)
    moreover have bs: "sandboxes s' = ?bs[i := ?b]"
      using ilt by (simp add: s'_def s0)
    moreover have same: "table_ok (?bs[i := ?b]) n" "boxes_used (?bs[i := ?b]) = boxes_used ?bs"
        "box_regions (?bs[i := ?b]) n = box_regions ?bs n"
      using table_ok_unused [OF okD(1) ilt(1) unused, of ?b] by simp_all
    moreover have "heap_owns s' (L \<union> box_regions ?bs n)" "sandbox_count s' = sandbox_count s" "mem s' = mem s"
      using okD(4) by (simp_all add: s'_def s0)
    moreover from this bs same okD(3,5) have "sandbox_ok s' L n"
      by (simp add: sandbox_ok_def)
    moreover have "?bs[i := ?b] ! j = ?bs ! j" if "j \<in> boxes_used ?bs" for j
      using that unused by (cases "j = i") (auto simp: boxes_used_def)
    moreover have "\<not> heap_grants SANDBOX_MEMORY_SIZE s"
      using heap_grants_result [OF fail] s0(6) by simp
    moreover have "card (boxes_used ?bs) < 32"
      using False okD(3) by simp
    moreover have "heap_arena s' = heap_arena s"
      by (simp add: s'_def s0)
    ultimately show ?thesis
      by (intro no_memory [of s']) simp_all
  next
    case (grant ptr k s1)
    define s' where "s' = printk (''Sandbox created: %d'' @ nl) (set_box i (\<lambda>b. b\<lparr>memory_ptr := ptr\<rparr>) s1)"
    let ?b = "(?bs ! i)\<lparr>used := 1, sandbox_ident := int i, capabilities := 0, memory_ptr := ptr\<rparr>"
    have s1: "sandboxes s1 = sandboxes s0" "sandbox_count s1 = sandbox_count s0" "heap_arena s1 = heap_arena s"
      using same_heap_sandboxes [OF grant(6)] same_heap_arena [OF grant(6)] s0(3) by simp_all
    have create': "sandbox_create s = Some (int i, s')"
      unfolding create using grant(2) by (simp add: grant(1) s'_def Let_def)
    have bs: "sandboxes s' = ?bs[i := ?b]"
      using ilt by (simp add: s'_def s1 s0)
    have fresh: "memory_ptr (?bs ! j) \<noteq> memory_ptr ?b" if "j \<in> boxes_used ?bs" for j
    proof
      assume eq: "memory_ptr (?bs ! j) = memory_ptr ?b"
      have "(unat ptr, n j) \<in> box_regions ?bs n"
        unfolding box_regions_def using that eq by (auto intro!: image_eqI [of _ _ j])
      with mm.owned_same_start [OF grant(5), of "unat ptr" k "n j"] grant(4) show False
        by auto
    qed
    note new = table_ok_new [OF okD(1) ilt(1) unused _ _ _ fresh, where k = k]
    have k: "4096 \<le> k"
      using grant(3) by (simp add: SANDBOX_MEMORY_SIZE_def)
    have "heap_owns s' (L \<union> box_regions (sandboxes s') (n(i := k)))"
      using grant(5) new(2) k unfolding bs by (simp add: s'_def)
    moreover have "L \<inter> box_regions (sandboxes s') (n(i := k)) = {}"
      using okD(5) grant(4) new(2) k unfolding bs by simp
    moreover have "sandbox_count s' = int (card (boxes_used (sandboxes s')))"
      using okD(3) new(3) k unfolding bs by (simp add: s'_def s1 s0)
    ultimately have ok': "sandbox_ok s' L (n(i := k))"
      using new(1) k unfolding bs by (simp add: sandbox_ok_def bs)
    have "i \<notin> boxes_used ?bs"
      using unused by (simp add: boxes_used_def)
    moreover have "mem s' x = mem s x" if "x \<in> regions (L \<union> box_regions ?bs n) \<or> x \<notin> heap_arena s" for x
      using grant(8) [of x] that by (simp add: s'_def s0)
    moreover have "heap_arena s' = heap_arena s"
      using s1(3) by (simp add: s'_def)
    moreover have "heap_grants SANDBOX_MEMORY_SIZE s"
      using heap_grants_result [OF grant(1)] grant(2) s0(6) by simp
    ultimately show ?thesis
      using created [OF create' _ ilt(2) ok' grant(2) bs] below by blast
  qed
qed

text \<open>\<open>sandbox_destroy\<close> on a sandbox in use gives its memory back.\<close>

lemma sandbox_destroy_used:
  assumes ok: "sandbox_ok s L n" and i: "i \<in> boxes_used (sandboxes s)"
  obtains s' where "sandbox_destroy (int i) s = Some (1, s')" "sandbox_ok s' L n"
    "sandboxes s' = (sandboxes s)[i := (sandboxes s ! i)\<lparr>used := 0\<rparr>]" "heap_arena s' = heap_arena s"
    "\<And>x. x \<in> regions (L \<union> box_regions (sandboxes s) n) \<or> x \<notin> heap_arena s \<Longrightarrow> mem s' x = mem s x"
proof -
  let ?bs = "sandboxes s"
  let ?p = "memory_ptr (?bs ! i)"
  note okD = sandbox_okD [OF ok] and rem = table_ok_remove [OF sandbox_okD(1) [OF ok] i]
  have reg: "(unat ?p, n i) \<in> box_regions ?bs n"
    using i by (auto simp: box_regions_def)
  then have "(unat ?p, n i) \<in> L \<union> box_regions ?bs n" by blast
  from kfree_owned [OF okD(4) this] obtain s1 where
    s1: "kfree ?p s = Some s1" "heap_owns s1 (L \<union> box_regions ?bs n - {(unat ?p, n i)})" "same_heap s s1"
      "\<And>x. x \<in> regions (L \<union> box_regions ?bs n) \<or> x \<notin> heap_arena s \<Longrightarrow> mem s1 x = mem s x"
    by metis
  note tab = same_heap_sandboxes [OF s1(3)]
  define s' where "s' = printk (''Sandbox destroyed: %d'' @ nl)
    ((set_box i (\<lambda>b. b\<lparr>used := 0\<rparr>) s1)\<lparr>sandbox_count := sandbox_count s1 - 1\<rparr>)"
  have "\<not> no_sandbox (int i) s"
    using no_sandbox_iff [OF ok] i by simp
  then have "sandbox_destroy (int i) s = Some (1, s')"
    by (simp add: sandbox_destroy_def s1(1) s'_def Let_def)
  moreover have bs: "sandboxes s' = ?bs[i := (?bs ! i)\<lparr>used := 0\<rparr>]"
    by (simp add: s'_def tab)
  moreover have "L \<union> box_regions ?bs n - {(unat ?p, n i)} = L \<union> box_regions (sandboxes s') n"
    unfolding bs rem(3) using reg okD(5) by blast
  then have "heap_owns s' (L \<union> box_regions (sandboxes s') n)"
    using s1(2) by (simp add: s'_def)
  then have "sandbox_ok s' L n"
    using rem okD(3,5) tab unfolding sandbox_ok_def bs by (auto simp: s'_def)
  moreover have "mem s' = mem s1" "heap_arena s' = heap_arena s"
    using same_heap_arena [OF s1(3)] by (simp_all add: s'_def)
  ultimately show thesis
    using that s1(4) by metis
qed

end
