(* ===== verification/Sandbox_Props.thy ===== *)
theory Sandbox_Props
  imports Sandbox Mm_Props
begin

text \<open>
  The properties of the sandbox manager. Its capability operations refine a table that gives
  every sandbox a set of capability bits; its memory operations are safe on the shared heap.
\<close>

subsection \<open>The capability table\<close>

text \<open>The capability bits of a mask, and what a sandbox may do (\<open>None\<close>: there is no such sandbox).\<close>

definition bits :: "u32 \<Rightarrow> nat set" where "bits c = {b. bit c b}"

definition authority :: "'a sandbox_state_scheme \<Rightarrow> int \<Rightarrow> nat set option" where
  "authority s i = (if no_sandbox i s then None else Some (bits (capabilities (sandboxes s ! nat i))))"

lemma bits_simps [simp]: "bits (c OR d) = bits c \<union> bits d" "bits (c AND NOT d) = bits c - bits d" "bits 0 = {}"
  by (auto simp: bits_def bit_simps dest: bit_imp_le_length)

lemma bits_subset: "c AND d = d \<longleftrightarrow> bits d \<subseteq> bits c"
proof
  assume "c AND d = d"
  then show "bits d \<subseteq> bits c"
    unfolding bits_def by (metis (no_types, lifting) bit_and_iff mem_Collect_eq subsetI)
next
  assume "bits d \<subseteq> bits c"
  then show "c AND d = d"
    by (intro bit_word_eqI) (auto simp: bits_def bit_simps)
qed

lemma bits_cap: "k < 32 \<Longrightarrow> bits (push_bit k 1) = {k}"
  by (auto simp: bits_def bit_simps)

lemma check_iff: "sandbox_check_permission i c s \<longleftrightarrow> (\<exists>A. authority s i = Some A \<and> bits c \<subseteq> A)"
  by (simp add: sandbox_check_permission_def authority_def bits_subset)

lemma authority_set_box:
  assumes "sandbox_ok s L n" "i \<in> boxes_used (sandboxes s)"
  shows "authority (set_box i (\<lambda>b. b\<lparr>capabilities := f b\<rparr>) s)
    = (authority s)(int i \<mapsto> bits (f (sandboxes s ! i)))"
proof
  fix j
  have "i < 32" "i < length (sandboxes s)" "used (sandboxes s ! i) \<noteq> 0"
    using assms(2) sandbox_okD(2) [OF assms(1)] by (auto simp: boxes_used_def)
  then show "authority (set_box i (\<lambda>b. b\<lparr>capabilities := f b\<rparr>) s) j
      = ((authority s)(int i \<mapsto> bits (f (sandboxes s ! i)))) j"
    by (cases "nat j = i"; cases "j < 0") (auto simp: authority_def no_sandbox_def)
qed

lemma sandbox_ok_caps:
  assumes "sandbox_ok s L n" "i \<in> boxes_used (sandboxes s)"
  shows "sandbox_ok (set_box i (\<lambda>b. b\<lparr>capabilities := f b\<rparr>) s) L n"
  using assms(1) table_ok_caps [OF sandbox_okD(1) [OF assms(1)] assms(2), of "f (sandboxes s ! i)"]
  by (simp add: sandbox_ok_def)

text \<open>A capability operation changes the entry of an existing sandbox.\<close>

lemma caps_refine:
  fixes s :: "'a sandbox_state_scheme" and f :: "u32 \<Rightarrow> u32" and i :: int
  assumes "sandbox_ok s L n"
  defines "s' \<equiv> if no_sandbox i s then s else set_box (nat i) (\<lambda>b. b\<lparr>capabilities := f (capabilities b)\<rparr>) s"
  assumes g: "\<And>c. bits (f c) = F (bits c)"
  shows "sandbox_ok s' L n" "authority s' = (authority s)(i := map_option F (authority s i))"
proof -
  have used: "\<exists>k \<in> boxes_used (sandboxes s). i = int k" if "\<not> no_sandbox i s"
    using that no_sandbox_iff [OF assms(1), of i] by (metis int_nat_eq)
  show "sandbox_ok s' L n"
  proof (cases "no_sandbox i s")
    case False
    with used obtain k where k: "k \<in> boxes_used (sandboxes s)" "i = int k" by blast
    then show ?thesis
      using sandbox_ok_caps [OF assms(1) k(1), of "\<lambda>b. f (capabilities b)"] False by (simp add: s'_def)
  qed (simp add: s'_def assms(1))
  show "authority s' = (authority s)(i := map_option F (authority s i))"
  proof (cases "no_sandbox i s")
    case False
    with used obtain k where k: "k \<in> boxes_used (sandboxes s)" "i = int k" by blast
    then have "authority s' = (authority s)(i \<mapsto> bits (f (capabilities (sandboxes s ! k))))"
      using authority_set_box [OF assms(1) k(1), of "\<lambda>b. f (capabilities b)"] False by (simp add: s'_def)
    moreover have "authority s i = Some (bits (capabilities (sandboxes s ! k)))"
      using False k(2) by (simp add: authority_def)
    ultimately show ?thesis by (simp add: g)
  qed (auto simp: s'_def authority_def)
qed

lemma authority_none: "authority s i = None \<longleftrightarrow> no_sandbox i s"
  by (simp add: authority_def)

lemma grant_refines:
  assumes "sandbox_ok s L n"
  shows "fst (sandbox_grant_capability i c s) = (if authority s i = None then 0 else 1)"
    "sandbox_ok (snd (sandbox_grant_capability i c s)) L n"
    "authority (snd (sandbox_grant_capability i c s))
      = (authority s)(i := map_option (\<lambda>A. A \<union> bits c) (authority s i))"
  using caps_refine [OF assms, of "\<lambda>d. d OR c" "\<lambda>A. A \<union> bits c" i]
  by (simp_all add: sandbox_grant_capability_def if_distrib [of snd] if_distrib [of fst] authority_none
      split del: if_split cong: if_cong)

lemma revoke_refines:
  assumes "sandbox_ok s L n"
  shows "fst (sandbox_revoke_capability i c s) = (if authority s i = None then 0 else 1)"
    "sandbox_ok (snd (sandbox_revoke_capability i c s)) L n"
    "authority (snd (sandbox_revoke_capability i c s))
      = (authority s)(i := map_option (\<lambda>A. A - bits c) (authority s i))"
  using caps_refine [OF assms, of "\<lambda>d. d AND NOT c" "\<lambda>A. A - bits c" i]
  by (simp_all add: sandbox_revoke_capability_def if_distrib [of snd] if_distrib [of fst] authority_none
      split del: if_split cong: if_cong)

lemma authority_cong:
  assumes "boxes_used (sandboxes s') = boxes_used (sandboxes s)" "sandbox_ok s L n" "sandbox_ok s' L' n'"
    "\<And>j. j \<in> boxes_used (sandboxes s) \<Longrightarrow> capabilities (sandboxes s' ! j) = capabilities (sandboxes s ! j)"
  shows "authority s' = authority s"
  using assms(1,4) no_sandbox_iff [OF assms(2)] no_sandbox_iff [OF assms(3)]
  by (auto simp: authority_def fun_eq_iff)

subsection \<open>The manager as a state machine\<close>

datatype sandbox_event = Create | Destroy int | Grant int u32 | Revoke int u32 | Alloc int u32
  | Check int u32 | Syscall int int addr

text \<open>A call of an operation, with its result as a number; \<open>None\<close> if it does not return.\<close>

fun sandbox_call :: "sandbox_event \<Rightarrow> 'a sandbox_state_scheme \<Rightarrow> (int \<times> 'a sandbox_state_scheme) option" where
  "sandbox_call Create s = sandbox_create s"
| "sandbox_call (Destroy i) s = sandbox_destroy i s"
| "sandbox_call (Grant i c) s = Some (sandbox_grant_capability i c s)"
| "sandbox_call (Revoke i c) s = Some (sandbox_revoke_capability i c s)"
| "sandbox_call (Alloc i sz) s = map_option (map_prod uint id) (sandbox_alloc i sz s)"
| "sandbox_call (Check i c) s = Some (of_bool (sandbox_check_permission i c s), s)"
| "sandbox_call (Syscall i num args) s = Some (sandbox_syscall i num args s, s)"

text \<open>The steps of the code, with the results they return.\<close>

inductive sandbox_step :: "sandbox_state \<Rightarrow> sandbox_event \<Rightarrow> int \<Rightarrow> sandbox_state \<Rightarrow> bool" where
  create: "sandbox_create s = Some (r, s') \<Longrightarrow> sandbox_step s Create r s'"
| destroy: "sandbox_destroy i s = Some (r, s') \<Longrightarrow> sandbox_step s (Destroy i) r s'"
| grant: "sandbox_grant_capability i c s = (r, s') \<Longrightarrow> sandbox_step s (Grant i c) r s'"
| revoke: "sandbox_revoke_capability i c s = (r, s') \<Longrightarrow> sandbox_step s (Revoke i c) r s'"
| alloc: "unat sz \<le> 4294967288 \<Longrightarrow> sandbox_alloc i sz s = Some (p, s')
    \<Longrightarrow> sandbox_step s (Alloc i sz) (uint p) s'"
| check: "sandbox_step s (Check i c) (of_bool (sandbox_check_permission i c s)) s"
| syscall: "sandbox_step s (Syscall i num args) (sandbox_syscall i num args s) s"

inductive_cases sandbox_stepE: "sandbox_step s e r s'"

text \<open>The steps of the specification, on a table of capability sets. \<open>g\<close> says which requests the heap
  grants at the time of the step. The conditions of the rules for one operation exclude each other,
  so the specification says when an operation succeeds, not only that it may.\<close>

type_synonym capability_table = "int \<Rightarrow> nat set option"

definition table_full :: "capability_table \<Rightarrow> bool" where
  "table_full A \<longleftrightarrow> list_all (\<lambda>i. A (int i) \<noteq> None) [0..<32]"

definition allowed :: "capability_table \<Rightarrow> int \<Rightarrow> nat set \<Rightarrow> bool" where
  "allowed A i C \<longleftrightarrow> (case A i of None \<Rightarrow> False | Some B \<Rightarrow> C \<subseteq> B)"

inductive table_step :: "(u32 \<Rightarrow> bool) \<Rightarrow> capability_table \<Rightarrow> sandbox_event \<Rightarrow> int \<Rightarrow> capability_table \<Rightarrow> bool"
  for g where
  created: "g 4096 \<Longrightarrow> k < 32 \<Longrightarrow> A (int k) = None \<Longrightarrow> (\<And>j. j < k \<Longrightarrow> A (int j) \<noteq> None)
    \<Longrightarrow> table_step g A Create (int k) (A(int k \<mapsto> {}))"
| refused: "table_full A \<or> \<not> g 4096 \<Longrightarrow> table_step g A Create (-1) A"
| destroyed: "A i = Some B \<Longrightarrow> table_step g A (Destroy i) 1 (A(i := None))"
| absent: "A i = None \<Longrightarrow> e = Destroy i \<or> e = Grant i c \<or> e = Revoke i c \<Longrightarrow> table_step g A e 0 A"
| granted: "A i = Some B \<Longrightarrow> table_step g A (Grant i c) 1 (A(i \<mapsto> B \<union> bits c))"
| revoked: "A i = Some B \<Longrightarrow> table_step g A (Revoke i c) 1 (A(i \<mapsto> B - bits c))"
| allocated: "(r \<noteq> 0) = (allowed A i {3} \<and> g sz) \<Longrightarrow> table_step g A (Alloc i sz) r A"
| checked: "table_step g A (Check i c) (of_bool (allowed A i (bits c))) A"
| called: "table_step g A (Syscall i num args)
    (if num = SYS_IPC_SEND \<and> allowed A i {4, 5} then 0 else -1) A"

lemma allowed_authority: "allowed (authority s) i C \<longleftrightarrow> (\<exists>A. authority s i = Some A \<and> C \<subseteq> A)"
  by (auto simp: allowed_def split: option.splits)

lemma create_refines:
  assumes "sandbox_ok s L n" "sandbox_create s = Some (r, s')"
  shows "\<exists>n'. sandbox_ok s' L n' \<and> heap_arena s' = heap_arena s
      \<and> (\<forall>x. x \<in> regions L \<or> x \<notin> heap_arena s \<longrightarrow> mem s' x = mem s x)
      \<and> table_step (\<lambda>sz. heap_grants sz s) (authority s) Create r (authority s')"
  using assms(1)
proof (cases rule: sandbox_create_cases)
  case full
  with assms have s': "s' = printk (''Sandbox limit reached'' @ nl) s" "r = -1" by simp_all
  have "sandbox_ok s' L n" "authority s' = authority s"
    using assms(1) by (simp_all add: s' sandbox_ok_def authority_def no_sandbox_def fun_eq_iff)
  moreover have "table_full (authority s)"
  proof -
    have "boxes_used (sandboxes s) \<subseteq> {..<32}"
      using sandbox_okD(2) [OF assms(1)] by (auto simp: boxes_used_def)
    then have "boxes_used (sandboxes s) = {..<32}"
      using full(2) by (intro card_subset_eq) simp_all
    then show ?thesis
      using no_sandbox_iff [OF assms(1)] by (simp add: table_full_def list_all_iff authority_none)
  qed
  ultimately show ?thesis
    by (auto simp: s' intro: table_step.refused)
next
  case (no_memory t)
  with assms(2) have s': "t = s'" "r = -1" by simp_all
  have "authority t = authority s"
    using no_memory(4,5) by (intro authority_cong [OF _ assms(1) no_memory(2)]) simp_all
  then show ?thesis
    using no_memory(2,3,6,8) by (auto simp: s' SANDBOX_MEMORY_SIZE_def intro: table_step.refused)
next
  case (created i k ptr t)
  with assms(2) have s': "t = s'" "r = int i" by simp_all
  have len: "i < length (sandboxes s)"
    using created(3) sandbox_okD(2) [OF assms(1)] by simp
  have "authority s (int i) = None"
    using created(2) no_sandbox_iff [OF assms(1)] by (simp add: authority_def)
  moreover have "authority s (int j) \<noteq> None" if "j < i" for j
    using created(10) [OF that] no_sandbox_iff [OF assms(1)] by (simp add: authority_none)
  ultimately have "table_step (\<lambda>sz. heap_grants sz s) (authority s) Create (int i) ((authority s)(int i \<mapsto> {}))"
    using created(3,9) by (intro table_step.created) (simp_all add: SANDBOX_MEMORY_SIZE_def)
  moreover have "authority s' j = ((authority s)(int i \<mapsto> {})) j" for j
    using created(2,3) len
    by (cases "nat j = i"; cases "j < 0") (auto simp: authority_def no_sandbox_def created(6) [unfolded s'])
  then have "authority s' = (authority s)(int i \<mapsto> {})" ..
  moreover have "\<forall>x. x \<in> regions L \<or> x \<notin> heap_arena s \<longrightarrow> mem s' x = mem s x"
    using created(7) by (auto simp: s' regions_Un)
  ultimately show ?thesis
    using created(4,8) unfolding s' by auto
qed

lemma destroy_refines:
  assumes "sandbox_ok s L n" "sandbox_destroy i s = Some (r, s')"
  shows "sandbox_ok s' L n \<and> table_step g (authority s) (Destroy i) r (authority s')"
proof (cases "no_sandbox i s")
  case True
  then have "authority s i = None" by (simp add: authority_def)
  with True assms show ?thesis
    by (auto simp: sandbox_destroy_def intro: table_step.absent)
next
  case False
  then have i: "i = int (nat i)" "nat i \<in> boxes_used (sandboxes s)"
    using no_sandbox_iff [OF assms(1), of i] by simp_all
  from assms(1) i(2) show ?thesis
  proof (rule sandbox_destroy_used)
    fix t
    assume t: "sandbox_destroy (int (nat i)) s = Some (1, t)" "sandbox_ok t L n"
      "sandboxes t = (sandboxes s)[nat i := (sandboxes s ! nat i)\<lparr>used := 0\<rparr>]"
    with assms(2) i(1) have s': "t = s'" "r = 1" by auto
    obtain B where B: "authority s i = Some B"
      using False by (simp add: authority_def)
    have len: "nat i < length (sandboxes s)"
      using i(2) by (simp add: boxes_used_def)
    have "authority s' j = ((authority s)(i := None)) j" for j
      using len False by (cases "nat j = nat i"; cases "j < 0") (auto simp: authority_def no_sandbox_def t(3) [unfolded s'])
    then have "authority s' = (authority s)(i := None)" ..
    with t(2) B show ?thesis
      unfolding s' by (simp add: table_step.destroyed)
  qed
qed

lemma alloc_refines:
  assumes ok: "sandbox_ok s L n" and "unat sz \<le> 4294967288" "sandbox_alloc i sz s = Some (p, s')"
  shows "\<exists>L'. sandbox_ok s' L' n \<and> L \<subseteq> L' \<and> table_step (\<lambda>sz. heap_grants sz s) (authority s) (Alloc i sz) (uint p) (authority s')
    \<and> (p \<noteq> NULL \<longrightarrow> (\<exists>k. unat sz \<le> k \<and> (unat p, k) \<notin> L \<union> box_regions (sandboxes s) n \<and> L' = insert (unat p, k) L))
    \<and> (p = NULL \<longrightarrow> L' = L)"
proof (cases "sandbox_check_permission i CAP_ACCESS_MEMORY s \<and> sz \<noteq> 0")
  case False
  then have "\<not> (allowed (authority s) i {3} \<and> heap_grants sz s)"
    using check_iff [of i CAP_ACCESS_MEMORY s] bits_cap [of 3]
    by (auto simp: CAP_ACCESS_MEMORY_def allowed_authority heap_grants_def kmalloc_def)
  moreover have "p = NULL" "s' = s"
    using False assms(3) by (auto simp: sandbox_alloc_def kmalloc_def split: if_splits)
  ultimately show ?thesis
    using ok by (intro exI [of _ L]) (simp add: table_step.allocated)
next
  case True
  then have alloc: "kmalloc sz s = Some (p, s')" and may: "allowed (authority s) i {3}"
    using assms(3) check_iff [of i CAP_ACCESS_MEMORY s] bits_cap [of 3]
    by (auto simp: sandbox_alloc_def CAP_ACCESS_MEMORY_def allowed_authority)
  have "(uint p \<noteq> 0) = heap_grants sz s"
    using heap_grants_result [OF alloc] by (simp add: uint_0_iff)
  with may have spec: "table_step (\<lambda>sz. heap_grants sz s) (authority s) (Alloc i sz) (uint p) (authority s)"
    by (intro table_step.allocated) simp
  have pos: "0 < unat sz"
    using True by (simp add: unat_gt_0)
  note okD = sandbox_okD [OF ok]
  from okD(4) pos assms(2) show ?thesis
  proof (cases rule: kmalloc_owned)
    case fail
    with alloc have s': "p = NULL" "s' = printk (''kmalloc(%zu) failed! Out of memory'' @ nl) s" by simp_all
    have "sandbox_ok s' L n" "authority s' = authority s"
      using ok by (simp_all add: s' sandbox_ok_def authority_def no_sandbox_def fun_eq_iff)
    then show ?thesis
      using spec by (intro exI [of _ L]) (simp add: s'(1))
  next
    case (grant r k t)
    with alloc have s': "p = r" "s' = t" by simp_all
    note tab = same_heap_sandboxes [OF grant(6)]
    have "sandbox_ok s' (insert (unat p, k) L) n"
      using okD grant(4,5) tab by (auto simp: sandbox_ok_def s')
    moreover have "authority s' = authority s"
      by (simp add: authority_def no_sandbox_def fun_eq_iff s' tab)
    ultimately show ?thesis
      using grant(2-4) spec s' by (intro exI [of _ "insert (unat p, k) L"]) auto
  qed
qed

lemma grant_step:
  assumes "sandbox_ok s L n" "sandbox_grant_capability i c s = (r, s')"
  shows "sandbox_ok s' L n" "table_step g (authority s) (Grant i c) r (authority s')"
proof -
  have "fst (sandbox_grant_capability i c s) = r" "snd (sandbox_grant_capability i c s) = s'"
    using assms(2) by simp_all
  note grant = grant_refines [OF assms(1), of i c, unfolded this]
  show "sandbox_ok s' L n" by (rule grant)
  show "table_step g (authority s) (Grant i c) r (authority s')"
    unfolding grant by (cases "authority s i") (auto simp: fun_upd_idem intro: table_step.absent table_step.granted)
qed

lemma revoke_step:
  assumes "sandbox_ok s L n" "sandbox_revoke_capability i c s = (r, s')"
  shows "sandbox_ok s' L n" "table_step g (authority s) (Revoke i c) r (authority s')"
proof -
  have "fst (sandbox_revoke_capability i c s) = r" "snd (sandbox_revoke_capability i c s) = s'"
    using assms(2) by simp_all
  note revoke = revoke_refines [OF assms(1), of i c, unfolded this]
  show "sandbox_ok s' L n" by (rule revoke)
  show "table_step g (authority s) (Revoke i c) r (authority s')"
    unfolding revoke by (cases "authority s i") (auto simp: fun_upd_idem intro: table_step.absent table_step.revoked)
qed

subsection \<open>Every operation returns, and what it leaves alone\<close>

lemma sandbox_create_returns: "sandbox_ok s L n \<Longrightarrow> \<exists>r s'. sandbox_create s = Some (r, s')"
  by (erule sandbox_create_cases) blast+

lemma sandbox_destroy_returns:
  assumes "sandbox_ok s L n"
  shows "\<exists>r s'. sandbox_destroy i s = Some (r, s')"
proof (cases "no_sandbox i s")
  case True
  then show ?thesis by (simp add: sandbox_destroy_def)
next
  case False
  then have "i = int (nat i)" "nat i \<in> boxes_used (sandboxes s)"
    using no_sandbox_iff [OF assms, of i] by simp_all
  then show ?thesis
    using sandbox_destroy_used [OF assms] by metis
qed

lemma sandbox_alloc_returns:
  assumes "sandbox_ok s L n" "unat sz \<le> 4294967288"
  shows "\<exists>p s'. sandbox_alloc i sz s = Some (p, s')"
proof (cases "sandbox_check_permission i CAP_ACCESS_MEMORY s \<and> sz \<noteq> 0")
  case True
  then show ?thesis
    using mm.alloc_returns [OF sandbox_okD(4) [OF assms(1)], of sz] assms(2) by (auto simp: sandbox_alloc_def unat_gt_0)
next
  case False
  then show ?thesis
    by (auto simp: sandbox_alloc_def kmalloc_def)
qed

lemma sandbox_destroy_frame:
  assumes "sandbox_ok s L n" "sandbox_destroy i s = Some (r, s')"
  shows "heap_arena s' = heap_arena s" "x \<in> regions L \<or> x \<notin> heap_arena s \<Longrightarrow> mem s' x = mem s x"
proof -
  have "heap_arena s' = heap_arena s \<and> (x \<in> regions L \<or> x \<notin> heap_arena s \<longrightarrow> mem s' x = mem s x)" for x
  proof (cases "no_sandbox i s")
    case True
    with assms(2) show ?thesis by (simp add: sandbox_destroy_def)
  next
    case False
    then have i: "i = int (nat i)" "nat i \<in> boxes_used (sandboxes s)"
      using no_sandbox_iff [OF assms(1), of i] by simp_all
    from sandbox_destroy_used [OF assms(1) i(2)] assms(2) i(1) show ?thesis
      by (metis (no_types, lifting) UnCI option.inject prod.inject regions_Un)
  qed
  then show "heap_arena s' = heap_arena s" "x \<in> regions L \<or> x \<notin> heap_arena s \<Longrightarrow> mem s' x = mem s x"
    by blast+
qed

lemma sandbox_alloc_frame:
  assumes "sandbox_ok s L n" "unat sz \<le> 4294967288" "sandbox_alloc i sz s = Some (p, s')"
  shows "heap_arena s' = heap_arena s" "x \<in> regions L \<or> x \<notin> heap_arena s \<Longrightarrow> mem s' x = mem s x"
proof -
  have "heap_arena s' = heap_arena s \<and> (x \<in> regions L \<or> x \<notin> heap_arena s \<longrightarrow> mem s' x = mem s x)" for x
  proof (cases "sandbox_check_permission i CAP_ACCESS_MEMORY s \<and> sz \<noteq> 0")
    case True
    then have "kmalloc sz s = Some (p, s')" "0 < unat sz"
      using assms(3) by (simp_all add: sandbox_alloc_def unat_gt_0)
    from mm.alloc_frame [OF sandbox_okD(4) [OF assms(1)] this(2) assms(2) this(1)] show ?thesis
      by (auto simp: regions_Un)
  next
    case False
    with assms(3) show ?thesis
      by (auto simp: sandbox_alloc_def kmalloc_def split: if_splits)
  qed
  then show "heap_arena s' = heap_arena s" "x \<in> regions L \<or> x \<notin> heap_arena s \<Longrightarrow> mem s' x = mem s x"
    by blast+
qed

lemma capability_frame:
  "heap_arena (snd (sandbox_grant_capability i c s)) = heap_arena s"
  "mem (snd (sandbox_grant_capability i c s)) = mem s"
  "heap_arena (snd (sandbox_revoke_capability i c s)) = heap_arena s"
  "mem (snd (sandbox_revoke_capability i c s)) = mem s"
  by (simp_all add: sandbox_grant_capability_def sandbox_revoke_capability_def)

text \<open>\<open>sandbox_syscall\<close> accepts exactly the call to send a message, from an existing sandbox that
  holds the capabilities for system calls and for IPC; everything else gets -1, and the arguments
  do not matter.\<close>

theorem sandbox_syscall_guard:
  "sandbox_syscall i num args s =
    (if num = SYS_IPC_SEND \<and> (\<exists>A. authority s i = Some A \<and> {4, 5} \<subseteq> A) then 0 else -1)"
  using check_iff [of i CAP_SYSCALL s] check_iff [of i CAP_IPC s] bits_cap [of 4] bits_cap [of 5]
  by (auto simp: sandbox_syscall_def CAP_SYSCALL_def CAP_IPC_def)

text \<open>C11: The sandbox manager refines the table of capability sets. Every call of one of its seven
  operations on a well-formed state returns (an allocation for a size the allocator can round),
  keeps the state well formed (the table, the counter, and 4096 bytes of its own for every sandbox)
  and the memory of everybody else, and is a step of the specification with the same result. The
  specification says when each call succeeds: a sandbox is created in the lowest free place exactly
  when there is one and the heap grants 4096 bytes, and starts with no capability; a destroyed one
  has none; a grant or a revocation changes one sandbox only; memory is handed out exactly when the
  sandbox holds the capability for memory and the heap grants the request, and then it is a new
  region; a check succeeds exactly when the sandbox holds all the capabilities asked for; and the
  one system call is accepted exactly with the capabilities for system calls and for IPC.\<close>

theorem sandbox_refines:
  assumes "sandbox_ok s L n" "\<And>i sz. e = Alloc i sz \<Longrightarrow> unat sz \<le> 4294967288"
  shows "\<exists>r s' L' n'. sandbox_call e s = Some (r, s') \<and> sandbox_ok s' L' n'
    \<and> table_step (\<lambda>sz. heap_grants sz s) (authority s) e r (authority s')
    \<and> (case e of Alloc i sz \<Rightarrow> if r = 0 then L' = L
          else \<exists>k. unat sz \<le> k \<and> (nat r, k) \<notin> L \<union> box_regions (sandboxes s) n \<and> L' = insert (nat r, k) L
        | _ \<Rightarrow> L' = L)
    \<and> heap_arena s' = heap_arena s \<and> (\<forall>x. x \<in> regions L \<or> x \<notin> heap_arena s \<longrightarrow> mem s' x = mem s x)"
proof (cases e)
  case Create
  from sandbox_create_returns [OF assms(1)] obtain r s' where "sandbox_create s = Some (r, s')" by blast
  with create_refines [OF assms(1) this] Create show ?thesis by auto
next
  case (Destroy i)
  from sandbox_destroy_returns [OF assms(1), of i] obtain r s' where "sandbox_destroy i s = Some (r, s')" by blast
  with destroy_refines [OF assms(1) this] sandbox_destroy_frame [OF assms(1) this] Destroy show ?thesis by auto
next
  case (Grant i c)
  then show ?thesis
    using grant_step [OF assms(1), of i c] capability_frame(1,2) [of i c s]
    by (cases "sandbox_grant_capability i c s") auto
next
  case (Revoke i c)
  then show ?thesis
    using revoke_step [OF assms(1), of i c] capability_frame(3,4) [of i c s]
    by (cases "sandbox_revoke_capability i c s") auto
next
  case (Alloc i sz)
  note sz = assms(2) [OF Alloc]
  from sandbox_alloc_returns [OF assms(1) sz, of i] obtain p s' where op: "sandbox_alloc i sz s = Some (p, s')" by blast
  from alloc_refines [OF assms(1) sz op] sandbox_alloc_frame [OF assms(1) sz op] op Alloc show ?thesis
    by (auto simp: uint_0_iff)
next
  case (Check i c)
  have "of_bool (sandbox_check_permission i c s) = (of_bool (allowed (authority s) i (bits c)) :: int)"
    by (simp add: check_iff allowed_authority)
  then have "table_step (\<lambda>sz. heap_grants sz s) (authority s) (Check i c)
      (of_bool (sandbox_check_permission i c s)) (authority s)"
    using table_step.checked [of "\<lambda>sz. heap_grants sz s" "authority s" i c] by simp
  with assms(1) Check show ?thesis
    by (intro exI [of _ "of_bool (sandbox_check_permission i c s)"] exI [of _ s] exI [of _ L] exI [of _ n]) simp
next
  case (Syscall i num args)
  have "sandbox_syscall i num args s = (if num = SYS_IPC_SEND \<and> allowed (authority s) i {4, 5} then 0 else -1)"
    by (simp add: sandbox_syscall_guard allowed_authority)
  then have "table_step (\<lambda>sz. heap_grants sz s) (authority s) (Syscall i num args)
      (sandbox_syscall i num args s) (authority s)"
    using table_step.called [of "\<lambda>sz. heap_grants sz s" "authority s" i num args] by simp
  with assms(1) Syscall show ?thesis
    by (intro exI [of _ "sandbox_syscall i num args s"] exI [of _ s] exI [of _ L] exI [of _ n]) simp
qed

subsection \<open>A machine with an empty table\<close>

definition blank_sandbox_state :: sandbox_state where
  "blank_sandbox_state = \<lparr>mem = (\<lambda>_. 0), klog = [], io = [], heap_start = NULL, heap_end = NULL, first_block = NULL,
     mm_stats = \<lparr>total_memory = 0, heap_size = 0, allocated = 0, alloc_count = 0, free_count = 0\<rparr>,
     sandboxes = replicate 32 \<lparr>used = 0, sandbox_ident = 0, capabilities = 0, memory_ptr = NULL\<rparr>,
     sandbox_count = 0\<rparr>"

definition sandbox_booted :: sandbox_state where
  "sandbox_booted = sandbox_init (mm_init 0x120000 0x9000 blank_sandbox_state)"

lemma sandbox_init_ok:
  assumes "heap_owns s L" "length (sandboxes s) = 32"
  shows "sandbox_ok (sandbox_init s) L n" "authority (sandbox_init s) i = None"
proof -
  have "boxes_used (map (\<lambda>b. b\<lparr>used := 0\<rparr>) (sandboxes s)) = {}"
    by (auto simp: boxes_used_def)
  with assms show "sandbox_ok (sandbox_init s) L n"
    by (simp add: sandbox_ok_def sandbox_init_def table_ok_def box_regions_def)
  show "authority (sandbox_init s) i = None"
  proof (cases "0 \<le> i \<and> i < 32")
    case True
    then have "nat i < length (sandboxes s)"
      using assms(2) by (simp add: nat_less_iff)
    then show ?thesis
      by (simp add: authority_def no_sandbox_def sandbox_init_def)
  qed (auto simp: authority_def no_sandbox_def)
qed

lemma sandbox_mm_init:
  "heap_ok (mm_init 0x120000 0x9000 blank_sandbox_state) [Blk 2097136 True]"
  "stats_ok (mm_init 0x120000 0x9000 blank_sandbox_state) [Blk 2097136 True]"
  "heap_start (mm_init 0x120000 0x9000 blank_sandbox_state) = 0x120000"
  "sandboxes (mm_init 0x120000 0x9000 blank_sandbox_state)
     = replicate 32 \<lparr>used = 0, sandbox_ident = 0, capabilities = 0, memory_ptr = NULL\<rparr>"
proof -
  have room: "heap_base 0x120000 \<noteq> NULL" "heap_base 0x120000 < available_memory (mem blank_sandbox_state) 0x9000"
    by (simp_all add: heap_base_def available_memory_def blank_sandbox_state_def mb_flags_def load32_def)
  have size: "unat (chosen_heap_size (mem blank_sandbox_state) 0x120000 0x9000) - 16 = 2097136"
    by (simp add: chosen_heap_size_def heap_base_def available_memory_def blank_sandbox_state_def mb_flags_def
        load32_def HEAP_SIZE_def)
  show "heap_ok (mm_init 0x120000 0x9000 blank_sandbox_state) [Blk 2097136 True]"
    "stats_ok (mm_init 0x120000 0x9000 blank_sandbox_state) [Blk 2097136 True]"
    using mm_init_heap_ok [OF room] unfolding size by simp_all
  show "heap_start (mm_init 0x120000 0x9000 blank_sandbox_state) = 0x120000"
    by (simp add: mm_init_fields heap_base_def)
  have "sandboxes (mm_init 0x120000 0x9000 blank_sandbox_state) = sandboxes blank_sandbox_state"
    by (rule more_sandboxes) (rule mm_init_fields)
  then show "sandboxes (mm_init 0x120000 0x9000 blank_sandbox_state)
     = replicate 32 \<lparr>used = 0, sandbox_ident = 0, capabilities = 0, memory_ptr = NULL\<rparr>"
    by (simp add: blank_sandbox_state_def)
qed

lemma sandbox_booted_ok: "sandbox_ok sandbox_booted {} n" "authority sandbox_booted = (\<lambda>_. None)"
proof -
  have "heap_owns (mm_init 0x120000 0x9000 blank_sandbox_state) {}"
    unfolding heap_owns_def using sandbox_mm_init(1,2) by (intro exI [of _ "[Blk 2097136 True]"]) simp
  note init = sandbox_init_ok [OF this]
  show "sandbox_ok sandbox_booted {} n" "authority sandbox_booted = (\<lambda>_. None)"
    unfolding sandbox_booted_def by (simp_all add: init sandbox_mm_init(4) fun_eq_iff)
qed

text \<open>The first sandbox gets the number 0 and the first block of the heap.\<close>

lemma sandbox_booted_create:
  "\<exists>s. sandbox_create sandbox_booted = Some (0, s) \<and> heap_ok s [Blk 4096 False, Blk 2093024 True]
    \<and> stats_ok s [Blk 4096 False, Blk 2093024 True] \<and> heap_start s = 0x120000"
proof -
  define s0 where "s0 = (set_box 0 (\<lambda>b. b\<lparr>used := 1, sandbox_ident := 0, capabilities := 0\<rparr>) sandbox_booted)
    \<lparr>sandbox_count := 1\<rparr>"
  have heap: "heap_ok s0 [Blk 2097136 True]" "stats_ok s0 [Blk 2097136 True]" "heap_start s0 = 0x120000"
    using sandbox_mm_init by (simp_all add: s0_def set_box_def sandbox_booted_def sandbox_init_def heap_ok_def stats_ok_def)
  have "alloc_abs (align_nat (unat SANDBOX_MEMORY_SIZE)) (unat (heap_start s0)) [Blk 2097136 True]
      = (Some 0x120010, [Blk 4096 False, Blk 2093024 True])"
    by (simp add: heap(3) alloc_abs_def align_nat_def SANDBOX_MEMORY_SIZE_def carve_def fits_def)
  from kmalloc_blocks [OF heap(1,2) _ _ this] obtain s1 where
    "kmalloc SANDBOX_MEMORY_SIZE s0 = Some (0x120010, s1)" "heap_ok s1 [Blk 4096 False, Blk 2093024 True]"
    "stats_ok s1 [Blk 4096 False, Blk 2093024 True]" "heap_start s1 = 0x120000"
    by (auto simp: SANDBOX_MEMORY_SIZE_def heap(3))
  moreover have "first_free 0 (sandboxes sandbox_booted) = Some 0" "sandbox_count sandbox_booted = 0"
    by (simp_all add: sandbox_booted_def sandbox_init_def sandbox_mm_init(4) numeral_eq_Suc)
  ultimately show ?thesis
    by (simp add: sandbox_create_def s0_def Let_def set_box_def heap_ok_def stats_ok_def)
qed

theorem sandbox_refines_witness:
  "\<exists>s n. sandbox_call Create sandbox_booted = Some (0, s) \<and> sandbox_ok s {} n
    \<and> authority s = (\<lambda>_. None)(0 \<mapsto> {}) \<and> sandbox_call (Alloc 0 64) s = Some (0, s)
    \<and> sandbox_call (Check 0 8) s = Some (0, s)"
proof -
  have "sandbox_create sandbox_booted \<noteq> Some (-1, s)" for s
    using sandbox_booted_create by auto
  with sandbox_refines [OF sandbox_booted_ok(1), of Create] sandbox_booted_create obtain s n where
    s: "sandbox_create sandbox_booted = Some (0, s)" "sandbox_ok s {} n"
    "table_step (\<lambda>sz. heap_grants sz sandbox_booted) (authority sandbox_booted) Create 0 (authority s)"
    by fastforce
  from s(3) have auth: "authority s = (\<lambda>_. None)(0 \<mapsto> {})"
    unfolding sandbox_booted_ok(2) by cases auto
  have "\<not> sandbox_check_permission 0 8 s" "\<not> sandbox_check_permission 0 CAP_ACCESS_MEMORY s"
    using bits_cap [of 3] by (simp_all add: check_iff auth CAP_ACCESS_MEMORY_def push_bit_eq_mult)
  with s auth show ?thesis
    by (intro exI [of _ s] exI [of _ n]) (simp add: sandbox_alloc_def)
qed

subsection \<open>Isolation\<close>

text \<open>The states reachable from an initialised table on a heap where others own \<open>L\<close>.\<close>

inductive sandbox_reach :: "(nat \<times> nat) set \<Rightarrow> sandbox_state \<Rightarrow> bool" for L where
  init: "heap_owns s L \<Longrightarrow> length (sandboxes s) = 32 \<Longrightarrow> sandbox_reach L (sandbox_init s)"
| step: "sandbox_reach L s \<Longrightarrow> sandbox_step s e r s' \<Longrightarrow> sandbox_reach L s'"

lemma sandbox_step_ok:
  assumes "sandbox_ok s L n" "sandbox_step s e r s'"
  shows "\<exists>L' n'. sandbox_ok s' L' n' \<and> L \<subseteq> L'"
  using assms(2)
proof (elim sandbox_stepE, goal_cases)
  case 1
  then show ?case using create_refines [OF assms(1)] by blast
next
  case (2 i)
  then show ?case using destroy_refines [OF assms(1), of i] by blast
next
  case (3 i c)
  then show ?case using grant_refines(2) [OF assms(1), of i c] by auto
next
  case (4 i c)
  then show ?case using revoke_refines(2) [OF assms(1), of i c] by auto
next
  case (5 sz i p)
  then show ?case using alloc_refines [OF assms(1), of sz i p s'] by blast
qed (use assms(1) in blast)+

lemma sandbox_reach_ok: "sandbox_reach L s \<Longrightarrow> \<exists>L' n. sandbox_ok s L' n \<and> L \<subseteq> L'"
proof (induction rule: sandbox_reach.induct)
  case (init s)
  then show ?case using sandbox_init_ok(1) by blast
next
  case (step s e r s')
  then show ?case using sandbox_step_ok by (metis subset_trans)
qed

lemma box_memory:
  assumes "sandbox_ok s L n" "i \<in> boxes_used (sandboxes s)"
  shows "(unat (memory_ptr (sandboxes s ! i)), n i) \<in> box_regions (sandboxes s) n" "4096 \<le> n i"
  using assms by (auto simp: sandbox_ok_def table_ok_def box_regions_def)

text \<open>C12: Sandboxes are isolated from each other. In every reachable state the counter counts the
  sandboxes in use, every sandbox carries its own number, and its 4096 bytes lie in the heap and
  overlap neither the memory of another sandbox nor a region that somebody else owned from the
  start.\<close>

theorem sandbox_isolation:
  assumes "sandbox_reach L s"
  defines "U \<equiv> boxes_used (sandboxes s)" and "M \<equiv> \<lambda>i. span (memory_ptr (sandboxes s ! i)) 4096"
  shows "sandbox_count s = int (card U)
    \<and> (\<forall>i \<in> U. sandbox_ident (sandboxes s ! i) = int i \<and> M i \<subseteq> heap_arena s \<and> M i \<inter> regions L = {})
    \<and> (\<forall>i \<in> U. \<forall>j \<in> U. i \<noteq> j \<longrightarrow> M i \<inter> M j = {})"
proof -
  obtain L' n where ok: "sandbox_ok s L' n" "L \<subseteq> L'"
    using sandbox_reach_ok [OF assms(1)] by blast
  note okD = sandbox_okD [OF ok(1)] and mem = box_memory [OF ok(1), folded U_def]
  have "sandbox_ident (sandboxes s ! i) = int i \<and> M i \<subseteq> heap_arena s \<and> M i \<inter> regions L = {}" if i: "i \<in> U" for i
  proof -
    have own: "(unat (memory_ptr (sandboxes s ! i)), n i) \<in> L' \<union> box_regions (sandboxes s) n"
      using mem(1) [OF i] by blast
    note sub = mm.owned_span_subset [OF okD(4) own, of 4096] mm.owned_span [OF okD(4) own, of 4096]
    have "M i \<subseteq> region (unat (memory_ptr (sandboxes s ! i))) (n i)"
      using sub(2) mem(2) [OF i] by (auto simp: M_def)
    also have "\<dots> \<subseteq> regions (box_regions (sandboxes s) n)"
      using mem(1) [OF i] by (rule region_subset_regions)
    finally have "M i \<inter> regions L' = {}"
      using mm.owned_regions_disjoint [OF okD(4,5)] by blast
    moreover have "regions L \<subseteq> regions L'"
      using ok(2) by (auto simp: regions_def)
    moreover have "M i \<subseteq> heap_arena s"
      using sub(1) mem(2) [OF i] mm.owned_arena [OF okD(4)] by (auto simp: M_def)
    ultimately show ?thesis
      using okD(1) i by (auto simp: table_ok_def U_def)
  qed
  moreover have "M i \<inter> M j = {}" if "i \<in> U" "j \<in> U" "i \<noteq> j" for i j
  proof -
    have "memory_ptr (sandboxes s ! i) \<noteq> memory_ptr (sandboxes s ! j)"
      using okD(1) that by (auto simp: table_ok_def U_def inj_on_def)
    then show ?thesis
      unfolding M_def using mem [OF that(1)] mem [OF that(2)]
      by (intro mm.owned_spans_disjoint [OF okD(4), where n = "n i" and k = "n j"]) auto
  qed
  ultimately show ?thesis
    using okD(3) by (simp add: U_def)
qed

theorem sandbox_isolation_witness:
  "\<exists>s. sandbox_create sandbox_booted = Some (0, s) \<and> sandbox_count s = int (card (boxes_used (sandboxes s)))"
proof -
  obtain s where s: "sandbox_create sandbox_booted = Some (0, s)"
    using sandbox_booted_create by blast
  have "heap_owns (mm_init 0x120000 0x9000 blank_sandbox_state) {}"
    unfolding heap_owns_def using sandbox_mm_init(1,2) by (intro exI [of _ "[Blk 2097136 True]"]) simp
  then have "sandbox_reach {} sandbox_booted"
    unfolding sandbox_booted_def by (rule sandbox_reach.init) (simp add: sandbox_mm_init(4))
  then have "sandbox_reach {} s"
    using sandbox_step.create [OF s] by (rule sandbox_reach.step)
  from sandbox_isolation [OF this] s show ?thesis by blast
qed

text \<open>Memory that \<open>sandbox_alloc\<close> hands out is not memory of the sandbox. It overlaps the
  4096 bytes of no sandbox, the table does not record it, and \<open>sandbox_destroy\<close> does not give it
  back: after the sandbox is gone its region is still allocated.\<close>

theorem sandbox_alloc_not_reclaimed:
  assumes "sandbox_ok s L n" "i \<in> boxes_used (sandboxes s)" "unat sz \<le> 4294967288"
    "sandbox_alloc (int i) sz s = Some (p, s1)" "p \<noteq> NULL"
  shows "\<exists>k s2. unat sz \<le> k \<and> sandbox_destroy (int i) s1 = Some (1, s2)
    \<and> sandbox_ok s2 (insert (unat p, k) L) n
    \<and> span p (unat sz) \<inter> span (memory_ptr (sandboxes s ! i)) 4096 = {}"
proof -
  from alloc_refines [OF assms(1,3,4)] assms(5) obtain k where k: "unat sz \<le> k"
    "(unat p, k) \<notin> L \<union> box_regions (sandboxes s) n" "sandbox_ok s1 (insert (unat p, k) L) n"
    by blast
  have tab: "sandboxes s1 = sandboxes s"
  proof -
    have alloc: "kmalloc sz s = Some (p, s1)"
      using assms(4,5) by (auto simp: sandbox_alloc_def split: if_splits)
    then have pos: "0 < unat sz"
      using assms(5) by (auto simp: kmalloc_def unat_gt_0)
    from mm.alloc_frame [OF sandbox_okD(4) [OF assms(1)] pos assms(3) alloc] show ?thesis
      using more_sandboxes(1) [of s1 s] by blast
  qed
  have i: "i \<in> boxes_used (sandboxes s1)"
    using assms(2) tab by simp
  obtain s2 where s2: "sandbox_destroy (int i) s1 = Some (1, s2)" "sandbox_ok s2 (insert (unat p, k) L) n"
    using k(3) i by (rule sandbox_destroy_used)
  have own: "heap_owns s1 (insert (unat p, k) L \<union> box_regions (sandboxes s) n)"
    using sandbox_okD(4) [OF k(3)] tab by simp
  note box = box_memory [OF assms(1,2)]
  have "p \<noteq> memory_ptr (sandboxes s ! i)"
    using mm.owned_same_start [OF own, of "unat p" k "n i"] k(2) box(1) by auto
  then have "span p (unat sz) \<inter> span (memory_ptr (sandboxes s ! i)) 4096 = {}"
    using box k(1) by (intro mm.owned_spans_disjoint [OF own, where n = k and k = "n i"]) auto
  with k(1) s2 show ?thesis by blast
qed

theorem sandbox_alloc_not_reclaimed_witness:
  "\<exists>(s :: sandbox_state) s1 s2 p k. sandbox_alloc 0 64 s = Some (p, s1) \<and> p \<noteq> NULL
    \<and> sandbox_destroy 0 s1 = Some (1, s2) \<and> (\<exists>n. sandbox_ok s2 {(unat p, k)} n)"
proof -
  obtain s where s: "sandbox_create sandbox_booted = Some (0, s)" "heap_ok s [Blk 4096 False, Blk 2093024 True]"
    "stats_ok s [Blk 4096 False, Blk 2093024 True]" "heap_start s = 0x120000"
    using sandbox_booted_create by blast
  have "\<exists>n. sandbox_ok s {} n \<and> 0 \<in> boxes_used (sandboxes s)"
    using sandbox_booted_ok(1) [of "\<lambda>_. 0"]
  proof (cases rule: sandbox_create_cases)
    case (created i k ptr s')
    with s(1) have "i = 0" "s' = s" by simp_all
    with created sandbox_okD(2) [OF created(4)] show ?thesis
      by (auto simp: boxes_used_def)
  qed (use s(1) in simp_all)
  then obtain n where ok: "sandbox_ok s {} n" and i: "0 \<in> boxes_used (sandboxes s)" by blast
  define t where "t = snd (sandbox_grant_capability 0 CAP_ACCESS_MEMORY s)"
  have ok': "sandbox_ok t {} n"
    unfolding t_def by (rule grant_refines(2) [OF ok])
  have may: "sandbox_check_permission 0 CAP_ACCESS_MEMORY t"
    using no_sandbox_iff [OF ok, of 0] i unfolding t_def grant_refines(3) [OF ok] check_iff by (simp add: authority_def)
  have used: "0 \<in> boxes_used (sandboxes t)"
    using may no_sandbox_iff [OF ok', of 0] by (simp add: sandbox_check_permission_def split: if_splits)
  have heap: "heap_ok t [Blk 4096 False, Blk 2093024 True]" "stats_ok t [Blk 4096 False, Blk 2093024 True]"
    "heap_start t = 0x120000"
    using s(2-4) by (simp_all add: t_def sandbox_grant_capability_def set_box_def heap_ok_def stats_ok_def)
  have "alloc_abs (align_nat (unat (64 :: u32))) (unat (heap_start t)) [Blk 4096 False, Blk 2093024 True]
      = (Some 0x121020, [Blk 4096 False, Blk 64 False, Blk 2092944 True])"
    by (simp add: heap(3) alloc_abs_def align_nat_def carve_def fits_def)
  from kmalloc_blocks [OF heap(1,2) _ _ this] obtain s1 where "kmalloc 64 t = Some (0x121020, s1)"
    by auto
  with may have alloc: "sandbox_alloc (int 0) 64 t = Some (0x121020, s1)"
    by (simp add: sandbox_alloc_def)
  have "unat (64 :: u32) \<le> 4294967288" "(0x121020 :: addr) \<noteq> NULL" by simp_all
  from sandbox_alloc_not_reclaimed [OF ok' used this(1) alloc this(2)] obtain k s2 where
    "sandbox_destroy (int 0) s1 = Some (1, s2)" "sandbox_ok s2 {(unat (0x121020 :: addr), k)} n"
    by blast
  with alloc \<open>(0x121020 :: addr) \<noteq> NULL\<close> show ?thesis
    by (intro exI [of _ t] exI [of _ s1] exI [of _ s2] exI [of _ "0x121020"] exI [of _ k]) auto
qed

end
