(* ===== verification/Registry.thy ===== *)
theory Registry
  imports Mm_Contract
begin

text \<open>
  kernel/src/interfaces/registry.c: a list of named interfaces on the kernel heap, the newest
  first. The head of the list is a static variable; the entries, with their names, are in memory.
  Abstractly the registry is an association list from names to interfaces, and registration
  prepends to it.
\<close>

subsection \<open>Entries and operations\<close>

record registry_state = mm_state +
  interfaces :: addr

text \<open>struct interface_entry: name[32] at offset 0, interface at 32, next at 36; 40 bytes.\<close>

definition sizeof_interface_entry :: u32 where "sizeof_interface_entry = 40"
definition NAME_SIZE :: u32 where "NAME_SIZE = 32"

definition entry_interface :: "mem \<Rightarrow> addr \<Rightarrow> addr" where "entry_interface m p = load32 m (p + 32)"
definition entry_next :: "mem \<Rightarrow> addr \<Rightarrow> addr" where "entry_next m p = load32 m (p + 36)"

definition entry_fill :: "mem \<Rightarrow> addr \<Rightarrow> addr \<Rightarrow> addr \<Rightarrow> addr \<Rightarrow> mem" where
  "entry_fill m entry name iface nxt =
     (let m = strncpy m entry name (NAME_SIZE - 1);
          m = m(entry + (NAME_SIZE - 1) := 0);
          m = store32 m (entry + 32) iface
      in store32 m (entry + 36) nxt)"

definition interface_register :: "addr \<Rightarrow> addr \<Rightarrow> 'a registry_state_scheme \<Rightarrow> 'a registry_state_scheme option" where
  "interface_register name iface s =
     (if name = NULL \<or> iface = NULL then Some s
      else do {
        (entry, s) \<leftarrow> kmalloc sizeof_interface_entry s;
        if entry = NULL
        then Some (printk (''Failed to allocate memory for interface registry'' @ nl) s)
        else let s = with_mem (entry_fill (mem s) entry name iface (interfaces s)) s
             in Some (printk (''Interface registered: %s'' @ nl) (s\<lparr>interfaces := entry\<rparr>))
      })"

partial_function (option) registry_find :: "mem \<Rightarrow> addr \<Rightarrow> addr \<Rightarrow> addr option" where
  "registry_find m current name =
     (if current = NULL then Some NULL
      else do {
        c \<leftarrow> strcmp m current name;
        if c = 0 then Some (entry_interface m current)
        else registry_find m (entry_next m current) name
      })"

definition interface_get :: "addr \<Rightarrow> 'a registry_state_scheme \<Rightarrow> addr option" where
  "interface_get name s =
     (if name = NULL then Some NULL else registry_find (mem s) (interfaces s) name)"

definition interface_exists :: "addr \<Rightarrow> 'a registry_state_scheme \<Rightarrow> bool option" where
  "interface_exists name s = map_option (\<lambda>p. p \<noteq> NULL) (interface_get name s)"

subsection \<open>The registry as an association list\<close>

text \<open>An entry: where it is, the size of its region, its name and its interface.\<close>

type_synonym reg_entry = "addr \<times> nat \<times> u8 list \<times> addr"

fun reg_chain :: "mem \<Rightarrow> addr \<Rightarrow> reg_entry list \<Rightarrow> bool" where
  "reg_chain m q [] \<longleftrightarrow> q = NULL"
| "reg_chain m q ((p, n, name, iface) # es) \<longleftrightarrow> q = p \<and> p \<noteq> NULL \<and> 40 \<le> n \<and> length name \<le> 31
     \<and> cstr_at m p name \<and> entry_interface m p = iface \<and> iface \<noteq> NULL \<and> reg_chain m (entry_next m p) es"

definition reg_regions :: "reg_entry list \<Rightarrow> (nat \<times> nat) set" where
  "reg_regions E = (\<lambda>(p, n, _). (unat p, n)) ` set E"

definition reg_map :: "reg_entry list \<Rightarrow> (u8 list \<times> addr) list" where
  "reg_map E = map (snd \<circ> snd) E"

definition reg_ok :: "'a registry_state_scheme \<Rightarrow> (nat \<times> nat) set \<Rightarrow> reg_entry list \<Rightarrow> bool" where
  "reg_ok s L E \<longleftrightarrow> heap_owns s (L \<union> reg_regions E) \<and> L \<inter> reg_regions E = {}
     \<and> reg_chain (mem s) (interfaces s) E"

text \<open>The registry on a heap where others own \<open>L\<close> holds the associations \<open>al\<close>, the newest first.\<close>

definition registry_rep :: "'a registry_state_scheme \<Rightarrow> (nat \<times> nat) set \<Rightarrow> (u8 list \<times> addr) list \<Rightarrow> bool" where
  "registry_rep s L al \<longleftrightarrow> (\<exists>E. reg_ok s L E \<and> al = reg_map E)"

definition lookup :: "(u8 list \<times> addr) list \<Rightarrow> u8 list \<Rightarrow> addr" where
  "lookup al name = (case map_of al name of None \<Rightarrow> NULL | Some p \<Rightarrow> p)"

lemma reg_map_simps [simp]: "reg_map [] = []" "reg_map ((p, n, k, v) # E) = (k, v) # reg_map E"
  by (simp_all add: reg_map_def)

lemma reg_regions_simps [simp]:
  "reg_regions [] = {}" "reg_regions ((p, n, k, v) # E) = insert (unat p, n) (reg_regions E)"
  by (simp_all add: reg_regions_def)

lemma reg_chain_sizes: "reg_chain m q E \<Longrightarrow> (p, n, k, v) \<in> set E \<Longrightarrow> 40 \<le> n \<and> length k \<le> 31 \<and> v \<noteq> NULL"
  by (induction E arbitrary: q) auto

subsection \<open>Lookup\<close>

lemma registry_find_chain:
  "reg_chain m q E \<Longrightarrow> cstr_at m name ds \<Longrightarrow> registry_find m q name = Some (lookup (reg_map E) ds)"
proof (induction E arbitrary: q)
  case Nil
  then show ?case
    by (subst registry_find.simps) (simp add: lookup_def)
next
  case (Cons e E)
  obtain p n k v where e: "e = (p, n, k, v)" by (cases e)
  with Cons.prems have p: "q = p" "p \<noteq> NULL" "cstr_at m p k" "entry_interface m p = v" "reg_chain m (entry_next m p) E"
    by simp_all
  obtain c where c: "strcmp m p name = Some c" "c = 0 \<longleftrightarrow> k = ds"
    using strcmp_cstr [OF p(3) Cons.prems(2)] by blast
  note ih = Cons.IH [OF p(5) Cons.prems(2)]
  show ?case
    unfolding p(1) by (subst registry_find.simps) (simp add: p c ih e lookup_def)
qed

subsection \<open>Filling an entry\<close>

lemma cstr_at_write_bytes_more:
  "0 \<notin> set cs \<Longrightarrow> length cs + length zs < 4294967295 \<Longrightarrow> cstr_at (write_bytes m d (cs @ 0 # zs)) d cs"
proof (induction cs arbitrary: m d)
  case Nil
  then have "d \<notin> span (d + 1) (length zs)"
    by (intro fresh_in_span) simp
  then show ?case by (simp add: write_bytes_other)
next
  case (Cons c cs)
  from Cons.prems have "d \<notin> span (d + 1) (length (cs @ 0 # zs))"
    by (intro fresh_in_span) simp
  with Cons show ?case
    by (auto simp: write_bytes_other simp del: length_append)
qed

lemma write_bytes_append:
  "write_bytes m a (xs @ ys) = write_bytes (write_bytes m a xs) (a + of_nat (length xs)) ys"
  by (induction xs arbitrary: m a) (simp_all add: algebra_simps)

text \<open>The name is cut to its first 31 characters.\<close>

lemma entry_fill_other:
  assumes "x \<notin> span e 40"
  shows "entry_fill m e name iface nxt x = m x"
proof -
  have "span e 31 \<subseteq> span e 40" "span (e + 31) 1 \<subseteq> span e 40" "span (e + 32) 4 \<subseteq> span e 40" "span (e + 36) 4 \<subseteq> span e 40"
    by (rule span_mono, simp) (rule span_offset_subset, simp)+
  then have "x \<notin> span e 31" "x \<noteq> e + 31" "x \<notin> span (e + 32) 4" "x \<notin> span (e + 36) 4"
    using assms by (auto simp: span_Suc)
  then show ?thesis
    by (simp add: entry_fill_def NAME_SIZE_def Let_def store32_other strncpy_def strncpy_loop_other)
qed

lemma entry_fill_fields:
  fixes iface nxt :: addr
  assumes "cstr_at m name cs" "span e 40 \<inter> span name (Suc (length cs)) = {}"
  defines "m' \<equiv> entry_fill m e name iface nxt"
  shows "cstr_at m' e (take 31 cs)" "entry_interface m' e = iface" "entry_next m' e = nxt"
proof -
  let ?n = "take 31 cs"
  have sub: "span e 31 \<subseteq> span e 40"
    by (rule span_mono) simp
  define m1 where "m1 = (strncpy m e name 31)(e + 31 := 0)"
  have m': "m' = store32 (store32 m1 (e + 32) iface) (e + 36) nxt"
    by (simp add: m'_def m1_def entry_fill_def NAME_SIZE_def Let_def)
  then show "entry_interface m' e = iface" "entry_next m' e = nxt"
    by (simp_all add: entry_interface_def entry_next_def mem_simps)
  have "strncpy m e name 31 = write_bytes m e (take 31 cs @ replicate (31 - length cs) 0)"
    using strncpy_bytes [OF assms(1), of e 31] assms(2) sub by auto
  moreover have "length (take 31 cs @ replicate (31 - length cs) (0 :: u8)) = 31"
    by simp
  ultimately have "m1 = write_bytes m e ((take 31 cs @ replicate (31 - length cs) 0) @ [0])"
    unfolding write_bytes_append m1_def by (simp del: length_append)
  also have "(take 31 cs @ replicate (31 - length cs) 0) @ [0] = ?n @ 0 # replicate (31 - length cs) (0 :: u8)"
    by (simp add: replicate_append_same)
  finally have "cstr_at m1 e ?n"
    using cstr_at_nonzero [OF assms(1)] by (auto intro!: cstr_at_write_bytes_more dest: in_set_takeD)
  moreover have "m' x = m1 x" if "x \<in> span e (Suc (length ?n))" for x
  proof -
    have "x \<in> span e 32"
      using that span_mono [of "Suc (length ?n)" 32 e] by auto
    moreover have "span e 32 \<inter> span (e + 32) 4 = {}" "span e 32 \<inter> span (e + 36) 4 = {}"
      by (rule span_disjoint; simp)+
    ultimately have "x \<notin> span (e + 32) 4" "x \<notin> span (e + 36) 4"
      by blast+
    then show ?thesis
      by (simp add: m' store32_other)
  qed
  ultimately show "cstr_at m' e ?n"
    using cstr_at_span [of e ?n m' m1] by blast
qed

subsection \<open>Registration\<close>

lemma reg_chain_frame:
  assumes "reg_chain m q E" "\<And>p n k v x. (p, n, k, v) \<in> set E \<Longrightarrow> x \<in> span p 40 \<Longrightarrow> m' x = m x"
  shows "reg_chain m' q E"
  using assms
proof (induction E arbitrary: q)
  case Nil
  then show ?case by simp
next
  case (Cons e E)
  obtain p n k v where e: "e = (p, n, k, v)" by (cases e)
  have same: "m' x = m x" if "x \<in> span p 40" for x
    using Cons.prems(2) [of p n k v x] that e by simp
  have sub: "span (p + 32) 4 \<subseteq> span p 40" "span (p + 36) 4 \<subseteq> span p 40"
    by (rule span_offset_subset, simp)+
  have "entry_interface m' p = entry_interface m p" "entry_next m' p = entry_next m p"
    unfolding entry_interface_def entry_next_def using same sub by (auto intro!: load32_span)
  moreover have "cstr_at m' p k \<longleftrightarrow> cstr_at m p k" if "length k \<le> 31"
    using same span_mono [of "Suc (length k)" 40 p] that by (intro cstr_at_span) auto
  moreover have "reg_chain m' (entry_next m p) E"
  proof (rule Cons.IH)
    show "reg_chain m (entry_next m p) E"
      using Cons.prems(1) e by simp
    show "m' x = m x" if "(a, b, c, d) \<in> set E" "x \<in> span a 40" for a b c d x
      using Cons.prems(2) [of a b c d x] that by simp
  qed
  ultimately show ?case
    using Cons.prems(1) e by auto
qed

lemma reg_okD:
  assumes "reg_ok s L E"
  shows "heap_owns s (L \<union> reg_regions E)" "L \<inter> reg_regions E = {}" "reg_chain (mem s) (interfaces s) E"
    "(p, n, k, v) \<in> set E \<Longrightarrow> span p 40 \<subseteq> regions (reg_regions E)"
proof -
  show own: "heap_owns s (L \<union> reg_regions E)" and "L \<inter> reg_regions E = {}" and ch: "reg_chain (mem s) (interfaces s) E"
    using assms by (simp_all add: reg_ok_def)
  assume e: "(p, n, k, v) \<in> set E"
  then have reg: "(unat p, n) \<in> reg_regions E"
    by (force simp: reg_regions_def)
  moreover have "40 \<le> n"
    using reg_chain_sizes [OF ch e] by simp
  ultimately have "span p 40 \<subseteq> region (unat p) n"
    using mm.owned_span [OF own, of p n 40] by auto
  then show "span p 40 \<subseteq> regions (reg_regions E)"
    using region_subset_regions [OF reg] by blast
qed

lemma reg_ok_change:
  assumes "reg_ok s L E" "heap_owns s' (L' \<union> reg_regions E)" "L' \<inter> reg_regions E = {}" "interfaces s' = interfaces s"
    "\<And>x. x \<in> regions (reg_regions E) \<Longrightarrow> mem s' x = mem s x"
  shows "reg_ok s' L' E"
  using assms reg_okD(4) [OF assms(1)] reg_chain_frame [OF reg_okD(3) [OF assms(1)], of "mem s'"]
  by (auto simp: reg_ok_def subset_iff)

lemma more_interfaces: "mm_state.more s = mm_state.more s' \<Longrightarrow> interfaces s = interfaces s'"
  by (cases s; cases s') simp

lemma registry_printk [simp]:
  "interfaces (printk f s) = interfaces s" "reg_ok (printk f s) L E \<longleftrightarrow> reg_ok s L E"
  by (simp_all add: printk_def reg_ok_def heap_owns_def heap_ok_def stats_ok_def)

lemma interfaces_with_mem [simp]: "interfaces (with_mem m s) = interfaces s"
  by (simp add: with_mem_def)

lemma heap_owns_interfaces [simp]:
  "heap_owns (s\<lparr>interfaces := p\<rparr>) L \<longleftrightarrow> heap_owns s L" "heap_arena (s\<lparr>interfaces := p\<rparr>) = heap_arena s"
  by (simp_all add: heap_owns_def heap_ok_def stats_ok_def heap_arena_def)

text \<open>\<open>interface_register\<close> with a name that lies outside the registry: the heap is full, or the
  truncated name is prepended.\<close>

lemma interface_register_cases:
  assumes ok: "reg_ok s L E" and args: "name \<noteq> NULL" "iface \<noteq> NULL" "cstr_at (mem s) name cs"
    and name: "span name (Suc (length cs)) \<subseteq> regions L \<union> - heap_arena s"
  obtains (full) "\<not> heap_grants sizeof_interface_entry s" "interface_register name iface s
      = Some (printk (''Failed to allocate memory for interface registry'' @ nl)
          (printk (''kmalloc(%zu) failed! Out of memory'' @ nl) s))"
  | (entered) s' r n where "interface_register name iface s = Some s'"
      "reg_ok s' L ((r, n, take 31 cs, iface) # E)" "heap_arena s' = heap_arena s"
      "\<And>x. x \<in> regions L \<or> x \<notin> heap_arena s \<Longrightarrow> mem s' x = mem s x"
      "heap_grants sizeof_interface_entry s"
proof -
  note okD = reg_okD [OF ok]
  have big: "0 < unat sizeof_interface_entry" "unat sizeof_interface_entry \<le> 4294967288"
    by (simp_all add: sizeof_interface_entry_def)
  from okD(1) big show thesis
  proof (cases rule: kmalloc_owned)
    case fail
    with args heap_grants_result [OF fail] show ?thesis
      by (intro full) (simp_all add: interface_register_def)
  next
    case (grant r n s1)
    let ?m = "entry_fill (mem s1) r name iface (interfaces s1)"
    have arena: "heap_arena s1 = heap_arena s" and head: "interfaces s1 = interfaces s"
      using same_heap_arena [OF grant(6)] grant(6) more_interfaces [of s1 s] by (auto simp: same_heap_def)
    have n: "40 \<le> n"
      using grant(3) by (simp add: sizeof_interface_entry_def)
    have r: "span r n = region (unat r) n" "span r 40 \<subseteq> region (unat r) n"
      using mm.owned_span [OF grant(5), of r n n] mm.owned_span [OF grant(5), of r n 40] n by auto
    have "regions {(unat r, n)} \<inter> regions (L \<union> reg_regions E) = {}"
      by (rule mm.owned_regions_disjoint) (use grant(4,5) in simp_all)
    then have apart: "span r 40 \<inter> (regions L \<union> regions (reg_regions E)) = {}"
      using r(2) by (auto simp: regions_def)
    have "span r 40 \<subseteq> heap_arena s"
      using mm.owned_span_subset [OF grant(5), of r n 40] mm.owned_arena [OF grant(5)] n arena by blast
    with apart name have disj: "span r 40 \<inter> span name (Suc (length cs)) = {}"
      by blast
    have keep: "mem s1 x = mem s x" if "x \<in> regions L \<union> regions (reg_regions E) \<or> x \<notin> heap_arena s" for x
      using that by (intro grant(8)) (auto simp: regions_def)
    have src: "cstr_at (mem s1) name cs"
      using args(3) name keep cstr_at_span [of name cs "mem s1" "mem s"] by blast
    note fields = entry_fill_fields [OF src disj, of iface "interfaces s1"]
    have other: "?m x = mem s1 x" if "x \<notin> span r 40" for x
      using that by (rule entry_fill_other)
    define s' where "s' = printk (''Interface registered: %s'' @ nl) ((with_mem ?m s1)\<lparr>interfaces := r\<rparr>)"
    have "interface_register name iface s = Some s'"
      using args grant(1,2) by (simp add: interface_register_def s'_def Let_def)
    moreover have "reg_ok s' L ((r, n, take 31 cs, iface) # E)"
    proof -
      have "heap_owns (with_mem ?m s1) (insert (unat r, n) (L \<union> reg_regions E))"
        using grant(5) by (rule mm.owns_write_span [where W = "span r 40"]) (use other r(2) in auto)
      moreover have "reg_chain ?m (interfaces s1) E"
        unfolding head using okD(3)
      proof (rule reg_chain_frame)
        fix p k v x l
        assume "(p, l, k, v) \<in> set E" "x \<in> span p 40"
        then have "x \<in> regions (reg_regions E)"
          using okD(4) by blast
        then show "entry_fill (mem s1) r name iface (interfaces s) x = mem s x"
          using other [of x] keep [of x] apart head by auto
      qed
      ultimately show ?thesis
        using fields grant(2,4) n args(2) okD(2) by (simp add: reg_ok_def s'_def with_mem_def)
    qed
    moreover have "mem s' x = mem s x" if "x \<in> regions L \<or> x \<notin> heap_arena s" for x
    proof -
      have "x \<notin> span r 40"
        using that apart \<open>span r 40 \<subseteq> heap_arena s\<close> by blast
      then show ?thesis
        using that keep [of x] by (auto simp: s'_def entry_fill_other)
    qed
    moreover have "heap_arena s' = heap_arena s"
      by (simp add: s'_def arena)
    moreover have "heap_grants sizeof_interface_entry s"
      using heap_grants_result [OF grant(1)] grant(2) by simp
    ultimately show ?thesis
      using entered by blast
  qed
qed

end
