(* ===== verification/Registry_Props.thy ===== *)
theory Registry_Props
  imports Registry Mm_Props
begin

text \<open>
  The properties of the interface registry, with witnesses on the heap that \<open>mm_init\<close> builds and
  a name of 32 letters below it.
\<close>

subsection \<open>A machine with an empty registry\<close>

definition letters :: mem where
  "letters x = (if 0x8000 \<le> x \<and> x < 0x8020 then 97 else 0)"

definition blank_registry_state :: registry_state where
  "blank_registry_state = \<lparr>mem = letters, klog = [], io = [], heap_start = NULL, heap_end = NULL, first_block = NULL,
     mm_stats = \<lparr>total_memory = 0, heap_size = 0, allocated = 0, alloc_count = 0, free_count = 0\<rparr>,
     interfaces = NULL\<rparr>"

definition registry_booted :: registry_state where
  "registry_booted = mm_init 0x120000 0x9000 blank_registry_state"

lemma letters_cstr:
  "0x8000 \<le> unat a \<Longrightarrow> unat a + k = 0x8020 \<Longrightarrow> cstr_at letters a (replicate k 97)"
proof (induction k arbitrary: a)
  case 0
  then show ?case by (simp add: letters_def word32_less_nat)
next
  case (Suc k)
  then have "unat (a + 1) = unat a + 1"
    using unat_add_of_nat [of a 1] by simp
  with Suc show ?case
    by (simp add: letters_def word32_less_nat word32_le_nat)
qed

lemma registry_room:
  "heap_base 0x120000 \<noteq> NULL" "heap_base 0x120000 < available_memory (mem blank_registry_state) 0x9000"
  by (simp_all add: heap_base_def available_memory_def blank_registry_state_def mb_flags_def load32_def letters_def)

lemma registry_booted_fields:
  "heap_arena registry_booted = {x. 0x120000 \<le> x \<and> x < 0x320000}" "interfaces registry_booted = NULL"
  "unat x < 0x120000 \<Longrightarrow> mem registry_booted x = letters x"
proof -
  have size: "chosen_heap_size (mem blank_registry_state) 0x120000 0x9000 = 0x200000"
    by (simp add: chosen_heap_size_def heap_base_def available_memory_def blank_registry_state_def mb_flags_def
        load32_def letters_def HEAP_SIZE_def)
  show "heap_arena registry_booted = {x. 0x120000 \<le> x \<and> x < 0x320000}"
    by (simp add: heap_arena_def registry_booted_def mm_init_fields size heap_base_def)
  have "interfaces registry_booted = interfaces blank_registry_state"
    unfolding registry_booted_def by (rule more_interfaces) (rule mm_init_fields)
  then show "interfaces registry_booted = NULL"
    by (simp add: blank_registry_state_def)
  assume "unat x < 0x120000"
  then have "mem registry_booted x = mem blank_registry_state x"
    unfolding registry_booted_def by (intro mm_init_other) (simp_all add: heap_base_def)
  then show "mem registry_booted x = letters x"
    by (simp add: blank_registry_state_def)
qed

lemma registry_booted_rep: "registry_rep registry_booted {} []"
proof -
  have "heap_owns registry_booted {}"
    unfolding heap_owns_def registry_booted_def using mm_init_heap_ok [OF registry_room]
    by (intro exI [of _ "[Blk (unat (chosen_heap_size (mem blank_registry_state) 0x120000 0x9000) - 16) True]"]) simp
  then have "reg_ok registry_booted {} []"
    by (simp add: reg_ok_def registry_booted_fields(2))
  then show ?thesis
    unfolding registry_rep_def by (intro exI [of _ "[]"]) simp
qed

lemma registry_booted_name:
  assumes "0x8000 \<le> unat a" "unat a + k = 0x8020"
  shows "cstr_at (mem registry_booted) a (replicate k 97)"
    "span a (Suc (length (replicate k (97 :: u8)))) \<subseteq> regions {} \<union> - heap_arena registry_booted"
proof -
  have low: "unat x \<le> 0x8020" if "x \<in> span a (Suc k)" for x
    using that assms by (simp add: in_span_nowrap)
  then show "cstr_at (mem registry_booted) a (replicate k 97)"
    using letters_cstr [OF assms] cstr_at_span [of a "replicate k 97" "mem registry_booted" letters]
      registry_booted_fields(3) by fastforce
  show "span a (Suc (length (replicate k (97 :: u8)))) \<subseteq> regions {} \<union> - heap_arena registry_booted"
    using low by (fastforce simp: registry_booted_fields(1) word32_le_nat)
qed

lemma registry_booted_kmalloc:
  "\<exists>s1. kmalloc sizeof_interface_entry registry_booted = Some (0x120010, s1)"
proof -
  have heap: "heap_ok registry_booted [Blk 2097136 True]" "stats_ok registry_booted [Blk 2097136 True]"
    using mm_init_heap_ok [OF registry_room]
    by (simp_all add: registry_booted_def chosen_heap_size_def heap_base_def available_memory_def
        blank_registry_state_def mb_flags_def load32_def letters_def HEAP_SIZE_def)
  have start: "heap_start registry_booted = 0x120000"
    by (simp add: registry_booted_def mm_init_fields heap_base_def)
  have "alloc_abs (align_nat (unat sizeof_interface_entry)) (unat (heap_start registry_booted)) [Blk 2097136 True]
      = (Some 0x120010, [Blk 40 False, Blk 2097080 True])"
    by (simp add: start alloc_abs_def align_nat_def sizeof_interface_entry_def carve_def fits_def)
  from kmalloc_blocks [OF heap _ _ this] show ?thesis
    by (auto simp: sizeof_interface_entry_def)
qed

subsection \<open>Registration and lookup\<close>

text \<open>C13: \<open>interface_register\<close> refines prepending to an association list, and says exactly when
  it does. A null name or a null interface is ignored and nothing changes. Otherwise, for a name
  outside the registry, when the heap grants the 40 bytes of an entry the pair of the name, cut to
  31 characters, and the interface is the newest entry and the memory of others is unchanged; when
  it does not, the registry and everything else but the log stay as they are.\<close>

theorem interface_register_refines:
  assumes "registry_rep s L al" "cstr_at (mem s) name cs"
    "span name (Suc (length cs)) \<subseteq> regions L \<union> - heap_arena s"
  defines "refused \<equiv> printk (''Failed to allocate memory for interface registry'' @ nl)
          (printk (''kmalloc(%zu) failed! Out of memory'' @ nl) s)"
  shows "if name = NULL \<or> iface = NULL then interface_register name iface s = Some s
    else if heap_grants sizeof_interface_entry s then
      (\<exists>s'. interface_register name iface s = Some s' \<and> registry_rep s' L ((take 31 cs, iface) # al)
        \<and> (\<forall>x. x \<in> regions L \<or> x \<notin> heap_arena s \<longrightarrow> mem s' x = mem s x))
    else interface_register name iface s = Some refused \<and> registry_rep refused L al"
proof (cases "name \<noteq> NULL \<and> iface \<noteq> NULL")
  case False
  then show ?thesis
    by (auto simp: interface_register_def)
next
  case True
  from assms(1) obtain E where E: "reg_ok s L E" "al = reg_map E"
    by (auto simp: registry_rep_def)
  from E(1) True [THEN conjunct1] True [THEN conjunct2] assms(2,3) show ?thesis
  proof (cases rule: interface_register_cases)
    case full
    with E True show ?thesis
      by (auto simp: registry_rep_def refused_def)
  next
    case (entered s' r n)
    have "registry_rep s' L ((take 31 cs, iface) # al)"
      unfolding registry_rep_def using entered(2) E(2)
      by (intro exI [of _ "(r, n, take 31 cs, iface) # E"]) simp
    with True entered show ?thesis by simp
  qed
qed

theorem interface_register_refines_witness:
  "(\<exists>s'. interface_register 0x801E 0x1234 registry_booted = Some s'
      \<and> registry_rep s' {} [([97, 97], 0x1234)])
   \<and> interface_register 0x801E NULL registry_booted = Some registry_booted"
proof -
  have "0x8000 \<le> unat (0x801E :: addr)" "unat (0x801E :: addr) + 2 = 0x8020" by simp_all
  note name = registry_booted_name [OF this]
  have two: "take 31 (replicate 2 97) = [97, 97 :: u8]"
    by (simp add: numeral_2_eq_2)
  obtain s1 where "kmalloc sizeof_interface_entry registry_booted = Some (0x120010, s1)"
    using registry_booted_kmalloc by blast
  then have "heap_grants sizeof_interface_entry registry_booted"
    by (simp add: heap_grants_result)
  with interface_register_refines [OF registry_booted_rep name, of "0x1234"]
    interface_register_refines [OF registry_booted_rep name, of NULL] show ?thesis
    unfolding two by auto
qed

lemma interface_get_lookup:
  assumes "registry_rep s L al" "cstr_at (mem s) name ds" "name \<noteq> NULL"
  shows "interface_get name s = Some (lookup al ds)"
proof -
  from assms(1) obtain E where E: "reg_ok s L E" "al = reg_map E"
    by (auto simp: registry_rep_def)
  show ?thesis
    using registry_find_chain [OF reg_okD(3) [OF E(1)] assms(2)] assms(3) by (simp add: interface_get_def E(2))
qed

text \<open>C14: \<open>interface_get\<close> computes the lookup in the association list: it returns for every name,
  with the interface registered last under that name, or NULL; \<open>interface_exists\<close> tells whether
  there is one. Neither changes the state.\<close>

theorem interface_get_refines:
  assumes "registry_rep s L al" "cstr_at (mem s) name ds" "name \<noteq> NULL"
  shows "interface_get name s = Some (lookup al ds) \<and> interface_exists name s = Some (ds \<in> fst ` set al)"
proof -
  from assms(1) obtain E where E: "reg_ok s L E" "al = reg_map E"
    by (auto simp: registry_rep_def)
  note ch = reg_okD(3) [OF E(1)]
  note get = interface_get_lookup [OF assms]
  have "v \<noteq> NULL" if "(k, v) \<in> set al" for k v
    using that reg_chain_sizes [OF ch] by (fastforce simp: E(2) reg_map_def)
  moreover have "map_of al ds = None \<longleftrightarrow> ds \<notin> fst ` set al"
    by (rule map_of_eq_None_iff)
  ultimately have "lookup al ds \<noteq> NULL \<longleftrightarrow> ds \<in> fst ` set al"
    by (cases "map_of al ds") (auto simp: lookup_def dest: map_of_SomeD)
  with get show ?thesis
    by (simp add: interface_exists_def)
qed

theorem interface_get_refines_witness:
  "interface_get 0x801E registry_booted = Some NULL \<and> interface_exists 0x801E registry_booted = Some False"
  using interface_get_refines [OF registry_booted_rep registry_booted_name(1) [of "0x801E" 2]]
  by (simp add: lookup_def)

text \<open>A name of 32 characters or more can be registered but never found: the entry holds its
  first 31 characters, while the search compares the whole name. The interface answers to the
  truncated name instead.\<close>

theorem interface_long_names:
  assumes "registry_rep s L al" "cstr_at (mem s) name cs" "31 < length cs" "name \<noteq> NULL"
    "span name (Suc (length cs)) \<subseteq> regions L \<union> - heap_arena s" "interface_register name iface s = Some s'"
    "interfaces s' \<noteq> interfaces s"
  shows "interface_get name s' = Some NULL
    \<and> (cstr_at (mem s') short (take 31 cs) \<and> short \<noteq> NULL \<longrightarrow> interface_get short s' = Some iface)"
proof -
  from assms(1) obtain E where E: "reg_ok s L E" "al = reg_map E"
    by (auto simp: registry_rep_def)
  have iface: "iface \<noteq> NULL"
    using assms(4,6,7) by (auto simp: interface_register_def)
  from E(1) assms(4) iface assms(2,5) show ?thesis
  proof (cases rule: interface_register_cases)
    case full
    with assms(6,7) show ?thesis by auto
  next
    case (entered t r n)
    with assms(6) have t: "t = s'" by simp
    note ch = reg_okD(3) [OF entered(2)]
    have name: "cstr_at (mem t) name cs"
      using assms(2,5) entered(4) cstr_at_span [of name cs "mem t" "mem s"] by blast
    have "cs \<notin> fst ` set (reg_map E)"
    proof
      assume "cs \<in> fst ` set (reg_map E)"
      then obtain p l v where "(p, l, cs, v) \<in> set E"
        by (auto simp: reg_map_def)
      with reg_chain_sizes [OF ch, of p l cs v] assms(3) show False by simp
    qed
    moreover have "length (take 31 cs) = 31"
      using assms(3) by simp
    then have "cs \<noteq> take 31 cs"
      using assms(3) by (metis less_irrefl)
    ultimately have "cs \<notin> fst ` set (reg_map ((r, n, take 31 cs, iface) # E))"
      by (simp del: take_all_iff)
    then have "lookup (reg_map ((r, n, take 31 cs, iface) # E)) cs = NULL"
      unfolding lookup_def by (simp only: map_of_eq_None_iff [symmetric] option.case)
    then have "interface_get name s' = Some NULL"
      using registry_find_chain [OF ch name] assms(4) by (simp add: interface_get_def t)
    moreover have "interface_get short s' = Some iface" if "cstr_at (mem s') short (take 31 cs)" "short \<noteq> NULL"
      using registry_find_chain [OF ch] that by (simp add: interface_get_def t lookup_def)
    ultimately show ?thesis by blast
  qed
qed

theorem interface_long_names_witness:
  "\<exists>s'. interface_register 0x8000 0x1234 registry_booted = Some s' \<and> interface_get 0x8000 s' = Some NULL"
proof -
  have "0x8000 \<le> unat (0x8000 :: addr)" "unat (0x8000 :: addr) + 32 = 0x8020" by simp_all
  note name = registry_booted_name [OF this]
  obtain s1 where "kmalloc sizeof_interface_entry registry_booted = Some (0x120010, s1)"
    using registry_booted_kmalloc by blast
  then obtain s' where s': "interface_register 0x8000 0x1234 registry_booted = Some s'" "interfaces s' = 0x120010"
    by (simp add: interface_register_def Let_def)
  then have "interfaces s' \<noteq> interfaces registry_booted"
    by (simp add: registry_booted_fields(2))
  from interface_long_names [OF registry_booted_rep name(1) _ _ name(2) s'(1) this] s'(1) show ?thesis
    by simp
qed

end
