(* ===== verification/Services.thy ===== *)
theory Services
  imports Ipc_Props Sandbox_Props Registry_Props
begin

text \<open>
  The services of the kernel together: message queues (kernel/src/ipc/ipc.c), sandboxes
  (kernel/src/sandbox/sandbox.c) and the interface registry (kernel/src/interfaces/registry.c) are
  clients of one heap. \<open>serve\<close> is a call of one of their operations; the invariant \<open>services_ok\<close> says
  that each of them is well formed on a heap where the regions of the other two, and of everybody
  else, belong to others.
\<close>

subsection \<open>The state of all services\<close>

record system_state = sandbox_state +
  sys_interfaces :: addr

text \<open>The part of the state the registry works on, and its return into the whole.\<close>

definition registry_view :: "system_state \<Rightarrow> registry_state" where
  "registry_view s = \<lparr>mem = mem s, klog = klog s, io = io s, heap_start = heap_start s, heap_end = heap_end s,
     first_block = first_block s, mm_stats = mm_stats s, interfaces = sys_interfaces s\<rparr>"

definition with_registry :: "registry_state \<Rightarrow> system_state \<Rightarrow> system_state" where
  "with_registry t s = s\<lparr>mem := mem t, klog := klog t, io := io t, heap_start := heap_start t, heap_end := heap_end t,
     first_block := first_block t, mm_stats := mm_stats t, sys_interfaces := interfaces t\<rparr>"

lemma registry_view_simps [simp]:
  "mem (registry_view s) = mem s" "interfaces (registry_view s) = sys_interfaces s"
  "heap_owns (registry_view s) L \<longleftrightarrow> heap_owns s L" "heap_arena (registry_view s) = heap_arena s"
  by (simp_all add: registry_view_def heap_owns_def heap_ok_def stats_ok_def heap_arena_def)

lemma with_registry_simps [simp]:
  "mem (with_registry t s) = mem t" "sys_interfaces (with_registry t s) = interfaces t"
  "heap_owns (with_registry t s) L \<longleftrightarrow> heap_owns t L" "heap_arena (with_registry t s) = heap_arena t"
  "sandboxes (with_registry t s) = sandboxes s" "sandbox_count (with_registry t s) = sandbox_count s"
  by (simp_all add: with_registry_def heap_owns_def heap_ok_def stats_ok_def heap_arena_def)

lemma registry_view_with [simp]: "registry_view (with_registry t s) = t"
  by (simp add: registry_view_def with_registry_def)

subsection \<open>Requests\<close>

datatype request =
    Req_send u32 addr u32 u32
  | Req_receive addr addr u32 addr
  | Req_process
  | Req_create
  | Req_destroy int
  | Req_grant int u32
  | Req_revoke int u32
  | Req_alloc int u32
  | Req_register addr addr
  | Req_lookup addr
  | Req_write addr u8

text \<open>What a request returns, as a number, and the state after it; \<open>None\<close> if it does not return. The
  last request is a write of a client to its own memory.\<close>

fun serve :: "addr \<Rightarrow> request \<Rightarrow> system_state \<Rightarrow> (int \<times> system_state) option" where
  "serve mq (Req_send to_pid data sz ty) s = ipc_send mq to_pid data sz ty s"
| "serve mq (Req_receive from_pid buffer sz type) s = ipc_receive mq from_pid buffer sz type s"
| "serve mq Req_process s = map_option (\<lambda>s. (0, s)) (ipc_process_messages mq s)"
| "serve mq Req_create s = sandbox_create s"
| "serve mq (Req_destroy i) s = sandbox_destroy i s"
| "serve mq (Req_grant i c) s = Some (sandbox_grant_capability i c s)"
| "serve mq (Req_revoke i c) s = Some (sandbox_revoke_capability i c s)"
| "serve mq (Req_alloc i sz) s = map_option (map_prod uint id) (sandbox_alloc i sz s)"
| "serve mq (Req_register name iface) s =
     map_option (\<lambda>t. (0, with_registry t s)) (interface_register name iface (registry_view s))"
| "serve mq (Req_lookup name) s = map_option (\<lambda>p. (uint p, s)) (interface_get name (registry_view s))"
| "serve mq (Req_write a v) s = Some (0, with_mem ((mem s)(a := v)) s)"

subsection \<open>The invariant\<close>

definition services_ok :: "addr \<Rightarrow> system_state \<Rightarrow> (nat \<times> nat) set \<Rightarrow> queues \<Rightarrow> (nat \<Rightarrow> nat) \<Rightarrow> reg_entry list \<Rightarrow> bool" where
  "services_ok mq s L Q n E \<longleftrightarrow>
     ipc_ok mq s (L \<union> box_regions (sandboxes s) n \<union> reg_regions E) Q
     \<and> sandbox_ok s (L \<union> node_regions Q \<union> reg_regions E) n
     \<and> reg_ok (registry_view s) (L \<union> node_regions Q \<union> box_regions (sandboxes s) n) E"

lemma services_okD:
  assumes "services_ok mq s L Q n E"
  shows "ipc_ok mq s (L \<union> box_regions (sandboxes s) n \<union> reg_regions E) Q"
    "sandbox_ok s (L \<union> node_regions Q \<union> reg_regions E) n"
    "reg_ok (registry_view s) (L \<union> node_regions Q \<union> box_regions (sandboxes s) n) E"
    "heap_owns s (L \<union> node_regions Q \<union> box_regions (sandboxes s) n \<union> reg_regions E)"
    "(L \<union> node_regions Q) \<inter> box_regions (sandboxes s) n = {}" "(L \<union> box_regions (sandboxes s) n) \<inter> node_regions Q = {}"
    "reg_regions E \<inter> (L \<union> node_regions Q \<union> box_regions (sandboxes s) n) = {}"
proof -
  show ok: "ipc_ok mq s (L \<union> box_regions (sandboxes s) n \<union> reg_regions E) Q"
    "sandbox_ok s (L \<union> node_regions Q \<union> reg_regions E) n"
    "reg_ok (registry_view s) (L \<union> node_regions Q \<union> box_regions (sandboxes s) n) E"
    using assms by (simp_all add: services_ok_def)
  show "heap_owns s (L \<union> node_regions Q \<union> box_regions (sandboxes s) n \<union> reg_regions E)"
    using reg_okD(1) [OF ok(3)] by simp
  show "(L \<union> node_regions Q) \<inter> box_regions (sandboxes s) n = {}" "(L \<union> box_regions (sandboxes s) n) \<inter> node_regions Q = {}"
    "reg_regions E \<inter> (L \<union> node_regions Q \<union> box_regions (sandboxes s) n) = {}"
    using sandbox_okD(5) [OF ok(2)] ipc_okD(2) [OF ok(1)] reg_okD(2) [OF ok(3)] by blast+
qed

text \<open>The regions of the clients as memory.\<close>

lemma services_memory:
  assumes "services_ok mq s L Q n E"
  shows "regions (L \<union> node_regions Q \<union> box_regions (sandboxes s) n \<union> reg_regions E) \<subseteq> heap_arena s"
    "regions L \<inter> regions (reg_regions E) = {}" "regions (node_regions Q) \<inter> regions (reg_regions E) = {}"
    "regions L \<inter> regions (node_regions Q) = {}" "regions L \<inter> regions (box_regions (sandboxes s) n) = {}"
    "regions (node_regions Q) \<inter> regions (box_regions (sandboxes s) n) = {}"
    "regions (box_regions (sandboxes s) n) \<inter> regions (reg_regions E) = {}"
proof -
  note okD = services_okD [OF assms]
  show "regions (L \<union> node_regions Q \<union> box_regions (sandboxes s) n \<union> reg_regions E) \<subseteq> heap_arena s"
    by (rule mm.owned_arena) (rule okD)
  have "regions (L \<union> node_regions Q \<union> box_regions (sandboxes s) n) \<inter> regions (reg_regions E) = {}"
    using mm.owned_regions_disjoint [of s "L \<union> node_regions Q \<union> box_regions (sandboxes s) n" "reg_regions E"] okD(4,7) by blast
  moreover have "regions (L \<union> node_regions Q \<union> reg_regions E) \<inter> regions (box_regions (sandboxes s) n) = {}"
    using mm.owned_regions_disjoint [OF sandbox_okD(4) [OF okD(2)] sandbox_okD(5) [OF okD(2)]] .
  moreover have "regions (L \<union> box_regions (sandboxes s) n \<union> reg_regions E) \<inter> regions (node_regions Q) = {}"
    using mm.owned_regions_disjoint [OF ipc_okD(1) [OF okD(1)] ipc_okD(2) [OF okD(1)]] .
  ultimately show "regions L \<inter> regions (reg_regions E) = {}" "regions (node_regions Q) \<inter> regions (reg_regions E) = {}"
    "regions L \<inter> regions (node_regions Q) = {}" "regions L \<inter> regions (box_regions (sandboxes s) n) = {}"
    "regions (node_regions Q) \<inter> regions (box_regions (sandboxes s) n) = {}"
    "regions (box_regions (sandboxes s) n) \<inter> regions (reg_regions E) = {}"
    by (auto simp: regions_Un)
qed

subsection \<open>What an operation of one service leaves of the others\<close>

text \<open>After an operation of the queues.\<close>

lemma services_after_ipc:
  assumes ok: "services_ok mq s L Q n E"
    and ipc: "ipc_ok mq s' (L \<union> box_regions (sandboxes s) n \<union> reg_regions E) Q'"
    and more: "mm_state.more s' = mm_state.more s"
    and keep: "\<And>x. x \<in> regions (reg_regions E) \<Longrightarrow> mem s' x = mem s x"
  shows "services_ok mq s' L Q' n E"
proof -
  note okD = services_okD [OF ok] and ipcD = ipc_okD [OF ipc]
  have tab: "sandboxes s' = sandboxes s" "sandbox_count s' = sandbox_count s" "sys_interfaces s' = sys_interfaces s"
    using more by (cases s; cases s'; simp)+
  have own: "heap_owns s' (L \<union> node_regions Q' \<union> reg_regions E \<union> box_regions (sandboxes s) n)"
    using ipcD(1) by (simp add: Un_ac)
  have "sandbox_ok s' (L \<union> node_regions Q' \<union> reg_regions E) n"
    using sandbox_okD(1,3) [OF okD(2)] own okD(5,7) ipcD(2) unfolding sandbox_ok_def tab by blast
  moreover have "reg_ok (registry_view s') (L \<union> node_regions Q' \<union> box_regions (sandboxes s) n) E"
  proof (rule reg_ok_change [OF okD(3)])
    show "heap_owns (registry_view s') (L \<union> node_regions Q' \<union> box_regions (sandboxes s) n \<union> reg_regions E)"
      using own by (simp add: Un_ac)
    show "(L \<union> node_regions Q' \<union> box_regions (sandboxes s) n) \<inter> reg_regions E = {}"
      using okD(7) ipcD(2) by blast
  qed (use tab keep in simp_all)
  ultimately show ?thesis
    using ipc tab by (simp add: services_ok_def)
qed

text \<open>After an operation of the sandboxes.\<close>

lemma services_after_sandbox:
  assumes ok: "services_ok mq s L Q n E"
    and box: "sandbox_ok s' (L' \<union> node_regions Q \<union> reg_regions E) n'"
    and L': "L' \<inter> (node_regions Q \<union> reg_regions E) = {}"
    and reg: "sys_interfaces s' = sys_interfaces s" and arena: "heap_arena s' = heap_arena s"
    and keep: "\<And>x. x \<in> regions (L \<union> node_regions Q \<union> reg_regions E) \<or> x \<notin> heap_arena s \<Longrightarrow> mem s' x = mem s x"
  shows "services_ok mq s' L' Q n' E"
proof -
  note okD = services_okD [OF ok] and boxD = sandbox_okD [OF box]
  have own: "heap_owns s' (L' \<union> node_regions Q \<union> reg_regions E \<union> box_regions (sandboxes s') n')"
    by (rule boxD)
  have "ipc_ok mq s' (L' \<union> box_regions (sandboxes s') n' \<union> reg_regions E) Q"
  proof (rule ipc_ok_frame [OF okD(1)])
    show "heap_owns s' (L' \<union> box_regions (sandboxes s') n' \<union> reg_regions E \<union> node_regions Q)"
      using own by (simp add: Un_ac)
    show "(L' \<union> box_regions (sandboxes s') n' \<union> reg_regions E) \<inter> node_regions Q = {}"
      using L' okD(7) boxD(5) by blast
    show "mem s' x = mem s x" if "x \<in> heads mq \<union> regions (node_regions Q)" for x
      using that ipc_okD(3) [OF okD(1)] by (intro keep) (auto simp: regions_Un)
  qed (rule arena)
  moreover have "reg_ok (registry_view s') (L' \<union> node_regions Q \<union> box_regions (sandboxes s') n') E"
  proof (rule reg_ok_change [OF okD(3)])
    show "heap_owns (registry_view s') (L' \<union> node_regions Q \<union> box_regions (sandboxes s') n' \<union> reg_regions E)"
      using own by (simp add: Un_ac)
    show "(L' \<union> node_regions Q \<union> box_regions (sandboxes s') n') \<inter> reg_regions E = {}"
      using L' okD(7) boxD(5) by blast
    show "mem (registry_view s') x = mem (registry_view s) x" if "x \<in> regions (reg_regions E)" for x
      using that keep [of x] by (simp add: regions_Un)
  qed (simp add: reg)
  ultimately show ?thesis
    using box by (simp add: services_ok_def)
qed

text \<open>After a registration.\<close>

lemma services_after_register:
  assumes ok: "services_ok mq s L Q n E"
    and reg: "reg_ok t (L \<union> node_regions Q \<union> box_regions (sandboxes s) n) E'"
    and arena: "heap_arena t = heap_arena s"
    and keep: "\<And>x. x \<in> regions (L \<union> node_regions Q \<union> box_regions (sandboxes s) n) \<or> x \<notin> heap_arena s \<Longrightarrow> mem t x = mem s x"
  shows "services_ok mq (with_registry t s) L Q n E'"
proof -
  note okD = services_okD [OF ok] and regD = reg_okD [OF reg]
  have own: "heap_owns t (L \<union> node_regions Q \<union> box_regions (sandboxes s) n \<union> reg_regions E')"
    by (rule regD)
  have "ipc_ok mq (with_registry t s) (L \<union> box_regions (sandboxes s) n \<union> reg_regions E') Q"
  proof (rule ipc_ok_frame [OF okD(1)])
    show "heap_owns (with_registry t s) (L \<union> box_regions (sandboxes s) n \<union> reg_regions E' \<union> node_regions Q)"
      using own by (simp add: Un_ac)
    show "(L \<union> box_regions (sandboxes s) n \<union> reg_regions E') \<inter> node_regions Q = {}"
      using okD(6) regD(2) by blast
    show "mem (with_registry t s) x = mem s x" if "x \<in> heads mq \<union> regions (node_regions Q)" for x
      using that ipc_okD(3) [OF okD(1)] keep [of x] by (auto simp: regions_Un)
  qed (simp add: arena)
  moreover have "sandbox_ok (with_registry t s) (L \<union> node_regions Q \<union> reg_regions E') n"
  proof -
    have "heap_owns (with_registry t s) (L \<union> node_regions Q \<union> reg_regions E' \<union> box_regions (sandboxes s) n)"
      using own by (simp add: Un_ac)
    moreover have "(L \<union> node_regions Q \<union> reg_regions E') \<inter> box_regions (sandboxes s) n = {}"
      using okD(5) regD(2) by blast
    ultimately show ?thesis
      using sandbox_okD(1,3) [OF okD(2)] by (simp add: sandbox_ok_def)
  qed
  ultimately show ?thesis
    using reg by (simp add: services_ok_def)
qed

end
