(* ===== verification/Services_Props.thy ===== *)
theory Services_Props
  imports Services
begin

text \<open>
  The services together refine the product of their specifications: every request returns, is a step
  of the specification of its own service with the same result, and leaves what the other services
  store, and the memory of the callers, as it is.
\<close>

subsection \<open>The specification\<close>

record services =
  mail :: "nat \<Rightarrow> ipc_msg list"
  table :: capability_table
  directory :: "(u8 list \<times> addr) list"

datatype service_event =
    Send u32 u32 "u8 list"
  | Receive nat
  | Process
  | Box sandbox_event
  | Register "u8 list" addr
  | Lookup "u8 list"
  | Write

inductive spec_step :: "services \<Rightarrow> service_event \<Rightarrow> int \<Rightarrow> services \<Rightarrow> bool" where
  sent: "unat to_pid < 32
    \<Longrightarrow> spec_step \<sigma> (Send to_pid ty bs) 1 (\<sigma>\<lparr>mail := (mail \<sigma>)(unat to_pid := mail \<sigma> (unat to_pid) @ [Msg 0 to_pid ty bs])\<rparr>)"
| not_sent: "spec_step \<sigma> (Send to_pid ty bs) 0 \<sigma>"
| received: "mail \<sigma> 0 = msg # rest
    \<Longrightarrow> spec_step \<sigma> (Receive k) (sint (of_nat (min k (length (mdata msg))) :: u32)) (\<sigma>\<lparr>mail := (mail \<sigma>)(0 := rest)\<rparr>)"
| no_message: "mail \<sigma> 0 = [] \<Longrightarrow> spec_step \<sigma> (Receive k) 0 \<sigma>"
| processed: "mail \<sigma> 0 = msg # rest \<Longrightarrow> spec_step \<sigma> Process 0 (\<sigma>\<lparr>mail := (mail \<sigma>)(0 := rest)\<rparr>)"
| idle: "mail \<sigma> 0 = [] \<Longrightarrow> spec_step \<sigma> Process 0 \<sigma>"
| boxed: "table_step g (table \<sigma>) e r A \<Longrightarrow> spec_step \<sigma> (Box e) r (\<sigma>\<lparr>table := A\<rparr>)"
| registered: "spec_step \<sigma> (Register name iface) 0 (\<sigma>\<lparr>directory := (take 31 name, iface) # directory \<sigma>\<rparr>)"
| not_registered: "spec_step \<sigma> (Register name iface) 0 \<sigma>"
| looked_up: "spec_step \<sigma> (Lookup name) (uint (lookup (directory \<sigma>) name)) \<sigma>"
| written: "spec_step \<sigma> Write 0 \<sigma>"

inductive spec_run :: "services \<Rightarrow> (service_event \<times> int) list \<Rightarrow> services \<Rightarrow> bool" for \<sigma>0 where
  start: "spec_run \<sigma>0 [] \<sigma>0"
| step: "spec_run \<sigma>0 tr \<sigma> \<Longrightarrow> spec_step \<sigma> e r \<sigma>' \<Longrightarrow> spec_run \<sigma>0 (tr @ [(e, r)]) \<sigma>'"

text \<open>A state of the services holds a state of the specification; \<open>L\<close> are the regions of the heap
  that belong to nobody of the three.\<close>

definition services_rep :: "addr \<Rightarrow> system_state \<Rightarrow> (nat \<times> nat) set \<Rightarrow> services \<Rightarrow> bool" where
  "services_rep mq s L \<sigma> \<longleftrightarrow> (\<exists>Q n E. services_ok mq s L Q n E
     \<and> (\<forall>i < 32. mail \<sigma> i = map (snd \<circ> snd) (Q i)) \<and> table \<sigma> = authority s \<and> directory \<sigma> = reg_map E)"

text \<open>What a request means to the specification. Its pointers must lead into the memory \<open>U\<close> of the
  clients, or be null where the code allows it.\<close>

definition outs_in :: "addr set \<Rightarrow> addr \<Rightarrow> addr \<Rightarrow> nat \<Rightarrow> addr \<Rightarrow> bool" where
  "outs_in U from_pid buffer k type \<longleftrightarrow>
     out_span from_pid 4 \<union> out_span type 4 \<union> out_span buffer k \<subseteq> U
     \<and> out_span from_pid 4 \<inter> out_span type 4 = {} \<and> out_span from_pid 4 \<inter> out_span buffer k = {}
     \<and> out_span type 4 \<inter> out_span buffer k = {}"

fun describes :: "addr set \<Rightarrow> mem \<Rightarrow> request \<Rightarrow> service_event \<Rightarrow> bool" where
  "describes U m (Req_send to_pid data sz ty) e \<longleftrightarrow> unat to_pid < 32 \<and> unat sz \<le> 4294967264
     \<and> span data (unat sz) \<subseteq> U \<and> e = Send to_pid ty (bytes_at m data (unat sz))"
| "describes U m (Req_receive from_pid buffer sz type) e \<longleftrightarrow>
     outs_in U from_pid buffer (unat sz) type \<and> e = Receive (unat sz)"
| "describes U m Req_process e \<longleftrightarrow> e = Process"
| "describes U m Req_create e \<longleftrightarrow> e = Box Create"
| "describes U m (Req_destroy i) e \<longleftrightarrow> e = Box (Destroy i)"
| "describes U m (Req_grant i c) e \<longleftrightarrow> e = Box (Grant i c)"
| "describes U m (Req_revoke i c) e \<longleftrightarrow> e = Box (Revoke i c)"
| "describes U m (Req_alloc i sz) e \<longleftrightarrow> unat sz \<le> 4294967288 \<and> e = Box (Alloc i sz)"
| "describes U m (Req_register name iface) e \<longleftrightarrow> name \<noteq> NULL \<and> iface \<noteq> NULL
     \<and> (\<exists>cs. cstr_at m name cs \<and> span name (Suc (length cs)) \<subseteq> U \<and> e = Register cs iface)"
| "describes U m (Req_lookup name) e \<longleftrightarrow> name \<noteq> NULL \<and> (\<exists>cs. cstr_at m name cs \<and> e = Lookup cs)"
| "describes U m (Req_write a v) e \<longleftrightarrow> a \<in> U \<and> e = Write"

text \<open>The requests of clients with the memory \<open>U\<close>, with their results, from a state on.\<close>

inductive served :: "addr \<Rightarrow> addr set \<Rightarrow> system_state \<Rightarrow> (service_event \<times> int) list \<Rightarrow> system_state \<Rightarrow> bool"
  for mq U s0 where
  start: "served mq U s0 [] s0"
| step: "served mq U s0 tr s \<Longrightarrow> describes U (mem s) req e \<Longrightarrow> serve mq req s = Some (r, s')
    \<Longrightarrow> served mq U s0 (tr @ [(e, r)]) s'"

subsection \<open>One request\<close>

text \<open>The conclusion about one request.\<close>

definition serves :: "addr \<Rightarrow> request \<Rightarrow> system_state \<Rightarrow> (nat \<times> nat) set \<Rightarrow> services \<Rightarrow> service_event \<Rightarrow> bool" where
  "serves mq req s L \<sigma> e \<longleftrightarrow> (\<exists>r s' L' \<sigma>'. serve mq req s = Some (r, s') \<and> spec_step \<sigma> e r \<sigma>'
     \<and> services_rep mq s' L' \<sigma>' \<and> L \<subseteq> L' \<and> heap_arena s' = heap_arena s)"

lemma servesI:
  assumes "serve mq req s = Some (r, s')" "spec_step \<sigma> e r \<sigma>'" "services_ok mq s' L' Q n E"
    "\<And>i. i < 32 \<Longrightarrow> mail \<sigma>' i = map (snd \<circ> snd) (Q i)" "table \<sigma>' = authority s'" "directory \<sigma>' = reg_map E"
    "L \<subseteq> L'" "heap_arena s' = heap_arena s"
  shows "serves mq req s L \<sigma> e"
  unfolding serves_def services_rep_def using assms by blast

lemma authority_more: "mm_state.more s' = mm_state.more s \<Longrightarrow> authority s' = authority s"
  by (simp add: authority_def no_sandbox_def fun_eq_iff more_sandboxes [of s' s])

lemma kmalloc_more: "kmalloc sz s = Some (r, s') \<Longrightarrow> mm_state.more s' = mm_state.more s"
  by (auto simp: kmalloc_def Let_def printk_def split: if_splits bind_splits)

lemma kmalloc_bounds: "kmalloc sz s = Some (r, s') \<Longrightarrow> heap_start s' = heap_start s \<and> heap_end s' = heap_end s"
  by (auto simp: kmalloc_def Let_def printk_def split: if_splits bind_splits)

lemma kfree_more: "kfree p s = Some s' \<Longrightarrow> mm_state.more s' = mm_state.more s"
  by (auto simp: kfree_def Let_def printk_def split: if_splits bind_splits)

lemma ipc_send_more: "ipc_send mq to_pid data sz ty s = Some (r, s') \<Longrightarrow> mm_state.more s' = mm_state.more s"
  by (auto simp: ipc_send_def Let_def printk_def dest!: kmalloc_more split: if_splits bind_splits)

lemma ipc_receive_more: "ipc_receive mq f b sz ty s = Some (r, s') \<Longrightarrow> mm_state.more s' = mm_state.more s"
  by (auto simp: ipc_receive_def Let_def printk_def dest!: kfree_more split: if_splits bind_splits prod.splits)

lemma ipc_process_more: "ipc_process_messages mq s = Some s' \<Longrightarrow> mm_state.more s' = mm_state.more s"
  by (auto simp: ipc_process_messages_def Let_def printk_def dest!: kfree_more split: if_splits bind_splits prod.splits)

lemma interface_register_arena:
  "interface_register name iface s = Some s' \<Longrightarrow> heap_arena s' = heap_arena s"
  by (auto simp: interface_register_def Let_def printk_def with_mem_def heap_arena_def dest!: kmalloc_bounds
      split: if_splits bind_splits)

lemma authority_with_registry: "authority (with_registry t s) = authority s"
  by (simp add: authority_def no_sandbox_def fun_eq_iff)

text \<open>The clients' memory is that of others to every service.\<close>

lemma caller_memory_mono: "L \<subseteq> L' \<Longrightarrow> caller_memory mq s L \<subseteq> caller_memory mq s L'"
  by (auto simp: caller_memory_def regions_def)

lemma callers_apart:
  assumes "services_ok mq s L Q n E"
  shows "caller_memory mq s L \<inter> regions (reg_regions E) = {}" "caller_memory mq s L \<inter> regions (node_regions Q) = {}"
    "caller_memory mq s L \<inter> regions (box_regions (sandboxes s) n) = {}"
    "caller_memory mq s L \<subseteq> regions L \<union> - heap_arena s"
  using services_memory [OF assms] by (auto simp: caller_memory_def regions_Un)

lemma reg_caller_memory: "services_ok mq s L Q n E
    \<Longrightarrow> regions (reg_regions E) \<subseteq> caller_memory mq s (L \<union> box_regions (sandboxes s) n \<union> reg_regions E)"
  by (auto simp: caller_memory_def regions_Un)

lemma serve_send:
  assumes ok: "services_ok mq s L Q n E" and \<sigma>: "\<And>i. i < 32 \<Longrightarrow> mail \<sigma> i = map (snd \<circ> snd) (Q i)"
      "table \<sigma> = authority s" "directory \<sigma> = reg_map E"
    and U: "U \<subseteq> caller_memory mq s L" and req: "describes U (mem s) (Req_send to_pid data sz ty) e"
  shows "serves mq (Req_send to_pid data sz ty) s L \<sigma> e"
proof -
  note okD = services_okD [OF ok]
  let ?L = "L \<union> box_regions (sandboxes s) n \<union> reg_regions E"
  have to: "unat to_pid < 32" "unat sz \<le> 4294967264" and e: "e = Send to_pid ty (bytes_at (mem s) data (unat sz))"
    using req by simp_all
  have data: "span data (unat sz) \<subseteq> regions ?L \<union> - heap_arena s"
    using req U callers_apart(4) [OF ok] by (auto simp: regions_Un)
  from okD(1) to data show ?thesis
  proof (cases rule: ipc_send_nodes [where ty = ty])
    case (fail s')
    note more = ipc_send_more [OF fail(1)]
    have "services_ok mq s' L Q n E"
      by (rule services_after_ipc [OF ok fail(2) more]) (simp add: fail(3))
    then show ?thesis
      using fail(1,4) \<sigma> authority_more [OF more]
      by (intro servesI [where L' = L and s' = s' and n = n and E = E and \<sigma>' = \<sigma>]) (auto simp: e intro: spec_step.not_sent)
  next
    case (sent s' r k)
    note more = ipc_send_more [OF sent(1)]
    let ?msg = "Msg 0 to_pid ty (bytes_at (mem s) data (unat sz))"
    have "services_ok mq s' L (Q(unat to_pid := Q (unat to_pid) @ [(r, k, ?msg)])) n E"
      by (rule services_after_ipc [OF ok sent(2) more]) (use sent(3) reg_caller_memory [OF ok] in blast)
    then show ?thesis
      using sent(1,4) \<sigma> authority_more [OF more] spec_step.sent [OF to(1)]
      by (intro servesI [where L' = L and s' = s' and n = n and E = E and \<sigma>' = "\<sigma>\<lparr>mail := (mail \<sigma>)(unat to_pid := mail \<sigma> (unat to_pid) @ [?msg])\<rparr>"])
        (auto simp: e)
  qed
qed

lemma serve_receive:
  assumes ok: "services_ok mq s L Q n E" and \<sigma>: "\<And>i. i < 32 \<Longrightarrow> mail \<sigma> i = map (snd \<circ> snd) (Q i)"
      "table \<sigma> = authority s" "directory \<sigma> = reg_map E"
    and U: "U \<subseteq> caller_memory mq s L" and req: "describes U (mem s) (Req_receive from_pid buffer sz type) e"
  shows "serves mq (Req_receive from_pid buffer sz type) s L \<sigma> e"
proof (cases "Q 0")
  case Nil
  then have "mail \<sigma> 0 = []" using \<sigma>(1) [of 0] by simp
  then have "spec_step \<sigma> e 0 \<sigma>"
    using req spec_step.no_message by simp
  with Nil show ?thesis
    using ipc_empty_nodes(1) [OF services_okD(1) [OF ok] Nil] ok \<sigma> by (intro servesI [where L' = L]) auto
next
  case (Cons node rest)
  obtain p k msg where node: "node = (p, k, msg)" by (cases node)
  note okD = services_okD [OF ok]
  let ?L = "L \<union> box_regions (sandboxes s) n \<union> reg_regions E"
  let ?W = "out_span from_pid 4 \<union> out_span type 4 \<union> out_span buffer (unat sz)"
  have outs: "?W \<subseteq> caller_memory mq s L" "out_span from_pid 4 \<inter> out_span type 4 = {}"
      "out_span from_pid 4 \<inter> out_span buffer (unat sz) = {}" "out_span type 4 \<inter> out_span buffer (unat sz) = {}"
    and e: "e = Receive (unat sz)"
    using req U unfolding describes.simps outs_in_def by blast+
  then have W: "?W \<subseteq> caller_memory mq s ?L"
    using caller_memory_mono [of L ?L mq s] by blast
  obtain s' where s': "ipc_receive mq from_pid buffer sz type s
        = Some (sint (of_nat (min (unat sz) (length (mdata msg))) :: u32), s')"
      "ipc_ok mq s' ?L (Q(0 := rest))" "heap_arena s' = heap_arena s"
      "\<And>x. x \<in> caller_memory mq s ?L \<Longrightarrow> x \<notin> ?W \<Longrightarrow> mem s' x = mem s x"
  proof (rule ipc_receive_nodes [OF okD(1) Cons [unfolded node] W outs(2-4)])
    fix s'
    let ?k = "min (unat sz) (length (mdata msg))"
    assume s': "ipc_receive mq from_pid buffer sz type s = Some (sint (of_nat ?k :: u32), s')"
      "ipc_ok mq s' ?L (Q(0 := rest))" "heap_arena s' = heap_arena s"
      "\<And>x. x \<in> caller_memory mq s ?L
        \<Longrightarrow> x \<notin> out_span from_pid 4 \<union> out_span type 4 \<union> out_span buffer ?k \<Longrightarrow> mem s' x = mem s x"
    have "out_span buffer ?k \<subseteq> out_span buffer (unat sz)"
      by (simp add: out_span_def span_mono)
    then have "mem s' x = mem s x" if "x \<in> caller_memory mq s ?L" "x \<notin> ?W" for x
      using s'(4) that by blast
    with s'(1-3) show ?thesis
      by (rule that)
  qed
  note more = ipc_receive_more [OF s'(1)]
  have "services_ok mq s' L (Q(0 := rest)) n E"
    by (rule services_after_ipc [OF ok s'(2) more])
      (use s'(4) outs(1) reg_caller_memory [OF ok] callers_apart(1) [OF ok] in blast)
  moreover have "mail \<sigma> 0 = msg # map (snd \<circ> snd) rest"
    using \<sigma>(1) [of 0] by (simp add: Cons node)
  ultimately show ?thesis
    using s'(1,3) \<sigma> authority_more [OF more] spec_step.received [of \<sigma> msg "map (snd \<circ> snd) rest" "unat sz"]
    by (intro servesI [where L' = L and s' = s' and n = n and E = E and \<sigma>' = "\<sigma>\<lparr>mail := (mail \<sigma>)(0 := map (snd \<circ> snd) rest)\<rparr>" and Q = "Q(0 := rest)"])
      (simp_all add: e)
qed

lemma serve_process:
  assumes ok: "services_ok mq s L Q n E" and \<sigma>: "\<And>i. i < 32 \<Longrightarrow> mail \<sigma> i = map (snd \<circ> snd) (Q i)"
      "table \<sigma> = authority s" "directory \<sigma> = reg_map E"
  shows "serves mq Req_process s L \<sigma> Process"
proof (cases "Q 0")
  case Nil
  then have "spec_step \<sigma> Process 0 \<sigma>"
    using \<sigma>(1) [of 0] spec_step.idle by simp
  then show ?thesis
    using ipc_empty_nodes(2) [OF services_okD(1) [OF ok] Nil] ok \<sigma> by (intro servesI [where L' = L]) auto
next
  case (Cons node rest)
  obtain p k msg where node: "node = (p, k, msg)" by (cases node)
  obtain s' where s': "ipc_process_messages mq s = Some s'"
      "ipc_ok mq s' (L \<union> box_regions (sandboxes s) n \<union> reg_regions E) (Q(0 := rest))"
      "\<And>x. x \<in> caller_memory mq s (L \<union> box_regions (sandboxes s) n \<union> reg_regions E) \<Longrightarrow> mem s' x = mem s x"
      "heap_arena s' = heap_arena s"
    using ipc_process_nodes [OF services_okD(1) [OF ok] Cons [unfolded node]] by metis
  note more = ipc_process_more [OF s'(1)]
  have "services_ok mq s' L (Q(0 := rest)) n E"
    by (rule services_after_ipc [OF ok s'(2) more]) (use s'(3) reg_caller_memory [OF ok] in blast)
  moreover have "mail \<sigma> 0 = msg # map (snd \<circ> snd) rest"
    using \<sigma>(1) [of 0] by (simp add: Cons node)
  ultimately show ?thesis
    using s'(1,4) \<sigma> authority_more [OF more] spec_step.processed [of \<sigma> msg "map (snd \<circ> snd) rest"]
    by (intro servesI [where L' = L and s' = s' and n = n and E = E and \<sigma>' = "\<sigma>\<lparr>mail := (mail \<sigma>)(0 := map (snd \<circ> snd) rest)\<rparr>" and Q = "Q(0 := rest)"])
      simp_all
qed

subsection \<open>Sandboxes\<close>

text \<open>What an operation of the sandbox manager leaves alone: \<open>same_outside\<close> for memory that is
  owned, and the part of the state that belongs to the registry.\<close>

definition same_outside :: "(nat \<times> nat) set \<Rightarrow> system_state \<Rightarrow> system_state \<Rightarrow> bool" where
  "same_outside L s s' \<longleftrightarrow> heap_arena s' = heap_arena s \<and> sys_interfaces s' = sys_interfaces s
     \<and> (\<forall>x. x \<in> regions L \<or> x \<notin> heap_arena s \<longrightarrow> mem s' x = mem s x)"

lemma same_outside_refl [simp]: "same_outside L s s"
  by (simp add: same_outside_def)

lemma set_box_interfaces [simp]: "sys_interfaces (set_box i f s) = sys_interfaces s"
  by (simp add: set_box_def)

lemma sys_interfaces_printk [simp]: "sys_interfaces (printk f s) = sys_interfaces s"
  by (simp add: printk_def)

lemma more_sys_interfaces: "mm_state.more s' = mm_state.more s \<Longrightarrow> sys_interfaces s' = sys_interfaces s"
  by (cases s; cases s') simp

lemma kmalloc_same_outside:
  assumes "kmalloc sz s = Some (r, s')" "heap_owns s L" "0 < unat sz" "unat sz \<le> 4294967288"
  shows "same_outside L s s'"
  using mm.alloc_frame [OF assms(2-4,1)] more_sys_interfaces [of s' s] by (auto simp: same_outside_def)

lemma kfree_same_outside:
  assumes "kfree r s = Some s'" "heap_owns s L" "(unat r, n) \<in> L"
  shows "same_outside L s s'"
  using mm.release_owned [OF assms(2,3)] assms(1) more_sys_interfaces [of s' s] by (auto simp: same_outside_def)

lemma sandbox_create_same_outside:
  assumes ok: "sandbox_ok s L n" and create: "sandbox_create s = Some (r, s')"
  shows "same_outside (L \<union> box_regions (sandboxes s) n) s s'"
proof (cases "sandbox_count s \<ge> 32 \<or> first_free 0 (sandboxes s) = None")
  case True
  with create have "mem s' = mem s" "heap_arena s' = heap_arena s" "sys_interfaces s' = sys_interfaces s"
    by (auto simp: sandbox_create_def split: if_splits option.splits)
  then show ?thesis
    by (simp add: same_outside_def)
next
  case False
  then obtain i where i: "first_free 0 (sandboxes s) = Some i" and "\<not> sandbox_count s \<ge> 32"
    by auto
  let ?t = "(set_box i (\<lambda>b. b\<lparr>used := 1, sandbox_ident := int i, capabilities := 0\<rparr>) s)\<lparr>sandbox_count := sandbox_count s + 1\<rparr>"
  obtain ptr t where k: "kmalloc SANDBOX_MEMORY_SIZE ?t = Some (ptr, t)"
      and s': "mem s' = mem t" "heap_arena s' = heap_arena t" "sys_interfaces s' = sys_interfaces t"
    using create i \<open>\<not> sandbox_count s \<ge> 32\<close> by (auto simp: sandbox_create_def Let_def split: bind_splits if_splits)
  have "heap_owns ?t (L \<union> box_regions (sandboxes s) n)"
    using sandbox_okD(4) [OF ok] by simp
  from kmalloc_same_outside [OF k this] s' show ?thesis
    by (simp add: same_outside_def SANDBOX_MEMORY_SIZE_def)
qed

lemma sandbox_destroy_same_outside:
  assumes ok: "sandbox_ok s L n" and destroy: "sandbox_destroy i s = Some (r, s')"
  shows "same_outside (L \<union> box_regions (sandboxes s) n) s s'"
proof (cases "no_sandbox i s")
  case True
  with destroy show ?thesis by (simp add: sandbox_destroy_def)
next
  case False
  then obtain t where k: "kfree (memory_ptr (sandboxes s ! nat i)) s = Some t"
      and s': "mem s' = mem t" "heap_arena s' = heap_arena t" "sys_interfaces s' = sys_interfaces t"
    using destroy by (auto simp: sandbox_destroy_def Let_def split: bind_splits)
  have "(unat (memory_ptr (sandboxes s ! nat i)), n (nat i)) \<in> L \<union> box_regions (sandboxes s) n"
    using False no_sandbox_iff [OF ok, of i] by (auto simp: box_regions_def)
  from kfree_same_outside [OF k sandbox_okD(4) [OF ok] this] s' show ?thesis
    by (simp add: same_outside_def)
qed

lemma sandbox_alloc_same_outside:
  assumes ok: "sandbox_ok s L n" and "unat sz \<le> 4294967288" and alloc: "sandbox_alloc i sz s = Some (p, s')"
  shows "same_outside (L \<union> box_regions (sandboxes s) n) s s'"
proof (cases "sandbox_check_permission i CAP_ACCESS_MEMORY s \<and> sz \<noteq> 0")
  case True
  then have "kmalloc sz s = Some (p, s')" "0 < unat sz"
    using alloc by (simp_all add: sandbox_alloc_def unat_gt_0)
  with assms(2) sandbox_okD(4) [OF ok] show ?thesis
    by (intro kmalloc_same_outside)
next
  case False
  with alloc have "s' = s"
    by (auto simp: sandbox_alloc_def kmalloc_def split: if_splits)
  then show ?thesis by simp
qed

text \<open>Every operation of the manager is one of the services.\<close>

lemma serve_box:
  assumes ok: "services_ok mq s L Q n E" and \<sigma>: "\<And>i. i < 32 \<Longrightarrow> mail \<sigma> i = map (snd \<circ> snd) (Q i)"
      "table \<sigma> = authority s" "directory \<sigma> = reg_map E"
    and serve: "serve mq req s = Some (r, s')" and step: "table_step g (authority s) e r (authority s')"
    and box: "sandbox_ok s' (L' \<union> node_regions Q \<union> reg_regions E) n'"
    and L': "L \<subseteq> L'" "L' \<inter> (node_regions Q \<union> reg_regions E) = {}"
    and same: "same_outside (L \<union> node_regions Q \<union> reg_regions E \<union> box_regions (sandboxes s) n) s s'"
  shows "serves mq req s L \<sigma> (Box e)"
proof -
  have "services_ok mq s' L' Q n' E"
    by (rule services_after_sandbox [OF ok box L'(2)]) (use same in \<open>auto simp: same_outside_def regions_Un\<close>)
  moreover have "spec_step \<sigma> (Box e) r (\<sigma>\<lparr>table := authority s'\<rparr>)"
    using step \<sigma>(2) by (intro spec_step.boxed) simp
  ultimately show ?thesis
    using serve L'(1) same \<sigma>(1,3)
    by (intro servesI [where L' = L' and s' = s' and n = n' and E = E and Q = Q and \<sigma>' = "\<sigma>\<lparr>table := authority s'\<rparr>"])
      (simp_all add: same_outside_def)
qed

lemma serve_sandbox:
  assumes ok: "services_ok mq s L Q n E" and \<sigma>: "\<And>i. i < 32 \<Longrightarrow> mail \<sigma> i = map (snd \<circ> snd) (Q i)"
      "table \<sigma> = authority s" "directory \<sigma> = reg_map E"
  shows "serves mq Req_create s L \<sigma> (Box Create)" "serves mq (Req_destroy i) s L \<sigma> (Box (Destroy i))"
    "serves mq (Req_grant i c) s L \<sigma> (Box (Grant i c))" "serves mq (Req_revoke i c) s L \<sigma> (Box (Revoke i c))"
    "unat sz \<le> 4294967288 \<Longrightarrow> serves mq (Req_alloc i sz) s L \<sigma> (Box (Alloc i sz))"
proof -
  let ?L = "L \<union> node_regions Q \<union> reg_regions E"
  note okD = services_okD [OF ok] and serve = serve_box [OF ok \<sigma>]
  have apart: "L \<inter> (node_regions Q \<union> reg_regions E) = {}"
    using okD(6,7) by blast
  show "serves mq Req_create s L \<sigma> (Box Create)"
  proof -
    obtain r s' where op: "sandbox_create s = Some (r, s')"
      using sandbox_create_returns [OF okD(2)] by blast
    obtain n' where "sandbox_ok s' ?L n'" "table_step (\<lambda>sz. heap_grants sz s) (authority s) Create r (authority s')"
      using create_refines [OF okD(2) op] by blast
    with op show ?thesis
      using apart sandbox_create_same_outside [OF okD(2) op] by (intro serve [where L' = L and s' = s']) simp_all
  qed
  show "serves mq (Req_destroy i) s L \<sigma> (Box (Destroy i))"
  proof -
    obtain r s' where op: "sandbox_destroy i s = Some (r, s')"
      using sandbox_destroy_returns [OF okD(2)] by blast
    have "sandbox_ok s' ?L n" "table_step (\<lambda>_. True) (authority s) (Destroy i) r (authority s')"
      using destroy_refines [OF okD(2) op] by blast+
    then show ?thesis
      using apart op sandbox_destroy_same_outside [OF okD(2) op]
      by (intro serve [where L' = L and s' = s' and n' = n]) simp_all
  qed
  show "serves mq (Req_grant i c) s L \<sigma> (Box (Grant i c))"
  proof -
    obtain r s' where op: "sandbox_grant_capability i c s = (r, s')" by fastforce
    then have "same_outside (?L \<union> box_regions (sandboxes s) n) s s'"
      by (auto simp: sandbox_grant_capability_def same_outside_def split: if_splits)
    moreover have "sandbox_ok s' ?L n" "table_step (\<lambda>_. True) (authority s) (Grant i c) r (authority s')"
      using grant_step [OF okD(2) op] by blast+
    ultimately show ?thesis
      using apart op by (intro serve [where L' = L and s' = s' and n' = n]) simp_all
  qed
  show "serves mq (Req_revoke i c) s L \<sigma> (Box (Revoke i c))"
  proof -
    obtain r s' where op: "sandbox_revoke_capability i c s = (r, s')" by fastforce
    then have "same_outside (?L \<union> box_regions (sandboxes s) n) s s'"
      by (auto simp: sandbox_revoke_capability_def same_outside_def split: if_splits)
    moreover have "sandbox_ok s' ?L n" "table_step (\<lambda>_. True) (authority s) (Revoke i c) r (authority s')"
      using revoke_step [OF okD(2) op] by blast+
    ultimately show ?thesis
      using apart op by (intro serve [where L' = L and s' = s' and n' = n]) simp_all
  qed
  assume sz: "unat sz \<le> 4294967288"
  show "serves mq (Req_alloc i sz) s L \<sigma> (Box (Alloc i sz))"
  proof -
    have "\<exists>p s'. sandbox_alloc i sz s = Some (p, s')"
      using sandbox_alloc_returns [OF okD(2) sz] .
    then obtain p s' where op: "sandbox_alloc i sz s = Some (p, s')" by blast
    obtain L'' where L'': "sandbox_ok s' L'' n" "table_step (\<lambda>sz. heap_grants sz s) (authority s) (Alloc i sz) (uint p) (authority s')"
        "L'' = ?L \<or> (\<exists>k. (unat p, k) \<notin> ?L \<union> box_regions (sandboxes s) n \<and> L'' = insert (unat p, k) ?L)"
      using alloc_refines [OF okD(2) sz op] by blast
    have "\<exists>L'. L'' = L' \<union> node_regions Q \<union> reg_regions E \<and> L \<subseteq> L' \<and> L' \<inter> (node_regions Q \<union> reg_regions E) = {}"
      using L''(3)
    proof (elim disjE exE conjE)
      assume "L'' = ?L"
      with apart show ?thesis by blast
    next
      fix k assume "(unat p, k) \<notin> ?L \<union> box_regions (sandboxes s) n" "L'' = insert (unat p, k) ?L"
      with apart show ?thesis
        by (intro exI [of _ "insert (unat p, k) L"]) blast
    qed
    then obtain L' where "sandbox_ok s' (L' \<union> node_regions Q \<union> reg_regions E) n" "L \<subseteq> L'"
        "L' \<inter> (node_regions Q \<union> reg_regions E) = {}"
      using L''(1) by blast
    then show ?thesis
      using op L''(2) sandbox_alloc_same_outside [OF okD(2) sz op]
      by (intro serve [where L' = L' and s' = s' and n' = n]) simp_all
  qed
qed

subsection \<open>The registry and the clients\<close>

lemma serve_registry:
  assumes ok: "services_ok mq s L Q n E" and \<sigma>: "\<And>i. i < 32 \<Longrightarrow> mail \<sigma> i = map (snd \<circ> snd) (Q i)"
      "table \<sigma> = authority s" "directory \<sigma> = reg_map E"
    and name: "name \<noteq> NULL" "cstr_at (mem s) name cs"
  shows "serves mq (Req_lookup name) s L \<sigma> (Lookup cs)"
    "iface \<noteq> NULL \<Longrightarrow> span name (Suc (length cs)) \<subseteq> caller_memory mq s L
      \<Longrightarrow> serves mq (Req_register name iface) s L \<sigma> (Register cs iface)"
proof -
  note okD = services_okD [OF ok]
  let ?L = "L \<union> node_regions Q \<union> box_regions (sandboxes s) n"
  have "registry_rep (registry_view s) ?L (directory \<sigma>)"
    using okD(3) \<sigma>(3) by (auto simp: registry_rep_def)
  then have "interface_get name (registry_view s) = Some (lookup (directory \<sigma>) cs)"
    using interface_get_lookup [of "registry_view s" ?L "directory \<sigma>" name cs] name by simp
  then show "serves mq (Req_lookup name) s L \<sigma> (Lookup cs)"
    using ok \<sigma> spec_step.looked_up [of \<sigma> cs]
    by (intro servesI [where L' = L and s' = s and n = n and E = E and Q = Q and \<sigma>' = \<sigma>]) simp_all
  assume iface: "iface \<noteq> NULL" and low: "span name (Suc (length cs)) \<subseteq> caller_memory mq s L"
  then have "span name (Suc (length cs)) \<subseteq> regions ?L \<union> - heap_arena (registry_view s)"
    using callers_apart(4) [OF ok] by (auto simp: regions_Un)
  with okD(3) name(1) iface name(2) [folded registry_view_simps(1)]
  show "serves mq (Req_register name iface) s L \<sigma> (Register cs iface)"
  proof (cases rule: interface_register_cases)
    case full
    let ?t = "printk (''Failed to allocate memory for interface registry'' @ nl)
        (printk (''kmalloc(%zu) failed! Out of memory'' @ nl) (registry_view s))"
    have "services_ok mq (with_registry ?t s) L Q n E"
      by (rule services_after_register [OF ok]) (simp_all add: okD(3))
    then show ?thesis
      using full(2) \<sigma> spec_step.not_registered [of \<sigma> cs iface]
      by (intro servesI [where L' = L and s' = "with_registry ?t s" and n = n and E = E and Q = Q and \<sigma>' = \<sigma>])
        (simp_all add: authority_with_registry)
  next
    case (entered t r k)
    have arena: "heap_arena t = heap_arena s"
      using entered(3) by simp
    let ?\<sigma> = "\<sigma>\<lparr>directory := (take 31 cs, iface) # directory \<sigma>\<rparr>"
    have "services_ok mq (with_registry t s) L Q n ((r, k, take 31 cs, iface) # E)"
      by (rule services_after_register [OF ok entered(2) arena]) (use entered(4) in simp)
    then show ?thesis
      using entered(1) \<sigma> arena spec_step.registered [of \<sigma> cs iface]
      by (intro servesI [where L' = L and s' = "with_registry t s" and n = n and E = "(r, k, take 31 cs, iface) # E"
            and Q = Q and \<sigma>' = ?\<sigma>]) (simp_all add: authority_with_registry)
  qed
qed

lemma serve_write:
  assumes ok: "services_ok mq s L Q n E" and \<sigma>: "\<And>i. i < 32 \<Longrightarrow> mail \<sigma> i = map (snd \<circ> snd) (Q i)"
      "table \<sigma> = authority s" "directory \<sigma> = reg_map E"
    and a: "a \<in> caller_memory mq s L"
  shows "serves mq (Req_write a v) s L \<sigma> Write"
proof -
  note okD = services_okD [OF ok]
  let ?s = "with_mem ((mem s)(a := v)) s"
  have "a \<in> caller_memory mq s (L \<union> box_regions (sandboxes s) n \<union> reg_regions E)"
    using a caller_memory_mono [of L "L \<union> box_regions (sandboxes s) n \<union> reg_regions E" mq s] by blast
  then have "ipc_ok mq ?s (L \<union> box_regions (sandboxes s) n \<union> reg_regions E) Q"
    by (intro ipc_ok_caller [OF okD(1)]) auto
  moreover have more: "mm_state.more ?s = mm_state.more s" by simp
  ultimately have "services_ok mq ?s L Q n E"
    by (rule services_after_ipc [OF ok]) (use a callers_apart(1) [OF ok] in auto)
  then show ?thesis
    using \<sigma> authority_more [OF more] spec_step.written [of \<sigma>]
    by (intro servesI [where L' = L and s' = ?s and n = n and E = E and Q = Q and \<sigma>' = \<sigma>]) simp_all
qed

text \<open>Every request.\<close>

lemma serve_refines:
  assumes rep: "services_rep mq s L \<sigma>" and U: "U \<subseteq> caller_memory mq s L" and req: "describes U (mem s) req e"
  shows "serves mq req s L \<sigma> e"
proof -
  obtain Q n E where ok: "services_ok mq s L Q n E" and \<sigma>: "\<And>i. i < 32 \<Longrightarrow> mail \<sigma> i = map (snd \<circ> snd) (Q i)"
      "table \<sigma> = authority s" "directory \<sigma> = reg_map E"
    using rep by (auto simp: services_rep_def)
  note box = serve_sandbox [OF ok \<sigma>]
  show ?thesis
  proof (cases req)
    case (Req_send to_pid data sz ty)
    with serve_send [OF ok \<sigma> U] req show ?thesis by blast
  next
    case (Req_receive from_pid buffer sz type)
    with serve_receive [OF ok \<sigma> U] req show ?thesis by blast
  next
    case Req_process
    with serve_process [OF ok \<sigma>] req show ?thesis by simp
  next
    case (Req_register name iface)
    with req obtain cs where "name \<noteq> NULL" "iface \<noteq> NULL" "cstr_at (mem s) name cs" "span name (Suc (length cs)) \<subseteq> U"
      "e = Register cs iface" by auto
    with Req_register U serve_registry(2) [OF ok \<sigma>, of name cs iface] show ?thesis by blast
  next
    case (Req_lookup name)
    with req serve_registry(1) [OF ok \<sigma>] show ?thesis by auto
  next
    case (Req_write a v)
    with req U serve_write [OF ok \<sigma>, of a v] show ?thesis by auto
  qed (use box req in auto)
qed

subsection \<open>Runs\<close>

lemma caller_memory_stays:
  "U \<subseteq> caller_memory mq s L \<Longrightarrow> heap_arena s' = heap_arena s \<Longrightarrow> L \<subseteq> L' \<Longrightarrow> U \<subseteq> caller_memory mq s' L'"
  by (auto simp: caller_memory_def regions_def)

lemma served_rep:
  assumes "served mq U s0 tr s" "services_rep mq s0 L \<sigma>0" "U \<subseteq> caller_memory mq s0 L"
  shows "\<exists>\<sigma> L'. spec_run \<sigma>0 tr \<sigma> \<and> services_rep mq s L' \<sigma> \<and> L \<subseteq> L' \<and> U \<subseteq> caller_memory mq s L'"
  using assms(1)
proof (induction rule: served.induct)
  case start
  show ?case using assms(2,3) spec_run.start by blast
next
  case (step tr s req e r s')
  then obtain \<sigma> L1 where \<sigma>: "spec_run \<sigma>0 tr \<sigma>" "services_rep mq s L1 \<sigma>" "L \<subseteq> L1" "U \<subseteq> caller_memory mq s L1"
    by blast
  from serve_refines [OF \<sigma>(2,4) step(2)] step(3) obtain L' \<sigma>' where
    "spec_step \<sigma> e r \<sigma>'" "services_rep mq s' L' \<sigma>'" "L1 \<subseteq> L'" "heap_arena s' = heap_arena s"
    unfolding serves_def by auto
  then show ?case
    using spec_run.step [OF \<sigma>(1)] \<sigma>(3) caller_memory_stays [OF \<sigma>(4)] by blast
qed

text \<open>C7. Queues, sandboxes and registry share one heap without disturbing each other: every run of
  requests by clients whose pointers lead into their own memory is a run of the three specifications
  side by side, with the same results (messages first in first out, capabilities as granted and
  revoked, lookups of the last registration). Each request touches the state of its own service only, and
  in every state reached every request returns.\<close>

theorem services_run_refines:
  assumes "services_rep mq s0 L \<sigma>0" "U \<subseteq> caller_memory mq s0 L" "served mq U s0 tr s"
  shows "(\<exists>\<sigma> L'. spec_run \<sigma>0 tr \<sigma> \<and> services_rep mq s L' \<sigma> \<and> L \<subseteq> L')
    \<and> (\<forall>req e. describes U (mem s) req e \<longrightarrow> (\<exists>r s'. serve mq req s = Some (r, s')))"
proof -
  obtain \<sigma> L' where \<sigma>: "spec_run \<sigma>0 tr \<sigma>" "services_rep mq s L' \<sigma>" "L \<subseteq> L'" "U \<subseteq> caller_memory mq s L'"
    using served_rep [OF assms(3,1,2)] by blast
  then show ?thesis
    using serve_refines [OF \<sigma>(2,4)] unfolding serves_def by blast
qed

subsection \<open>A system after its initialisation\<close>

lemma services_boot:
  assumes "heap_owns s L" "heads mq \<inter> heap_arena s = {}" "unat mq + 256 \<le> 4294967296"
    "length (sandboxes s) = 32" "sys_interfaces s = NULL"
  shows "services_rep mq (sandbox_init (ipc_init mq s)) L \<lparr>mail = (\<lambda>_. []), table = (\<lambda>_. None), directory = []\<rparr>"
proof -
  let ?t = "ipc_init mq s"
  have more: "mm_state.more ?t = mm_state.more s"
    by (simp add: ipc_init_def printk_def)
  have tab: "sandboxes ?t = sandboxes s" "sys_interfaces ?t = NULL"
    using more_sandboxes(1) [OF more] more_sys_interfaces [OF more] assms(5) by simp_all
  have none: "node_regions (\<lambda>_. []) = {}" "reg_regions [] = {}"
    by (simp_all add: node_regions_def)
  have ipc: "ipc_ok mq ?t L (\<lambda>_. [])"
    by (rule ipc_init_nodes(1) [OF assms(1-3)])
  then have own: "heap_owns ?t L"
    using ipc_okD(1) [OF ipc] by (simp add: none)
  have "boxes_used (sandboxes (sandbox_init ?t)) = {}"
    by (auto simp: boxes_used_def sandbox_init_def)
  then have boxes: "box_regions (sandboxes (sandbox_init ?t)) (\<lambda>_. 0) = {}"
    by (simp add: box_regions_def)
  have same: "mem (sandbox_init ?t) = mem ?t" "heap_arena (sandbox_init ?t) = heap_arena ?t"
    "heap_owns (sandbox_init ?t) L \<longleftrightarrow> heap_owns ?t L" "sys_interfaces (sandbox_init ?t) = NULL"
    by (simp_all add: sandbox_init_def tab)
  have box: "sandbox_ok (sandbox_init ?t) L (\<lambda>_. 0)" "authority (sandbox_init ?t) = (\<lambda>_. None)"
    using sandbox_init_ok [OF own] assms(4) by (simp_all add: tab fun_eq_iff)
  have "ipc_ok mq (sandbox_init ?t) L (\<lambda>_. [])"
    by (rule ipc_ok_frame [OF ipc]) (simp_all add: same own none)
  with box(1) have "services_ok mq (sandbox_init ?t) L (\<lambda>_. []) (\<lambda>_. 0) []"
    using own by (simp add: services_ok_def boxes none reg_ok_def same)
  then show ?thesis
    unfolding services_rep_def using box(2)
    by (intro exI [of _ "\<lambda>_. []"] exI [of _ "\<lambda>_. 0"] exI [of _ "[]"]) (simp add: reg_map_def)
qed

definition blank_system :: system_state where
  "blank_system = \<lparr>mem = (\<lambda>_. 0), klog = [], io = [], heap_start = NULL, heap_end = NULL, first_block = NULL,
     mm_stats = \<lparr>total_memory = 0, heap_size = 0, allocated = 0, alloc_count = 0, free_count = 0\<rparr>,
     sandboxes = replicate 32 \<lparr>used = 0, sandbox_ident = 0, capabilities = 0, memory_ptr = NULL\<rparr>,
     sandbox_count = 0, sys_interfaces = NULL\<rparr>"

definition booted_system :: system_state where
  "booted_system = sandbox_init (ipc_init 0x119000 (mm_init 0x120000 0x9000 blank_system))"

lemma booted_system_rep:
  "services_rep 0x119000 booted_system {} \<lparr>mail = (\<lambda>_. []), table = (\<lambda>_. None), directory = []\<rparr>"
  "heap_arena booted_system = {x. 0x120000 \<le> x \<and> x < 0x320000}"
proof -
  let ?s = "mm_init 0x120000 0x9000 blank_system"
  have "load32 (mem blank_system) 0x9000 = 0"
    by (simp add: blank_system_def load32_def)
  note booted = booted_over [OF this]
  have own: "heap_owns ?s {}"
    unfolding heap_owns_def using booted(1,2) by (intro exI [of _ "[Blk 2097136 True]"]) simp
  have tab: "length (sandboxes ?s) = 32" "sys_interfaces ?s = NULL"
    using more_sandboxes(1) [OF booted(5)] more_sys_interfaces [OF booted(5)] by (simp_all add: blank_system_def)
  have heads: "heads 0x119000 \<inter> heap_arena ?s = {}"
    by (auto simp: heads_def in_span_nowrap booted(4) word32_le_nat)
  show "services_rep 0x119000 booted_system {} \<lparr>mail = (\<lambda>_. []), table = (\<lambda>_. None), directory = []\<rparr>"
    unfolding booted_system_def by (rule services_boot [OF own heads _ tab]) simp
  show "heap_arena booted_system = {x. 0x120000 \<le> x \<and> x < 0x320000}"
    by (simp add: booted_system_def sandbox_init_def ipc_init_def booted(4))
qed

text \<open>After the creation of a sandbox a message of four bytes for process 5 can be sent.\<close>

theorem services_run_refines_witness:
  "\<exists>r s r' s'. serve 0x119000 Req_create booted_system = Some (r, s)
    \<and> serve 0x119000 (Req_send 5 0x9000 4 1) s = Some (r', s')"
proof -
  let ?U = "span (0x9000 :: addr) 4"
  have U: "?U \<subseteq> caller_memory 0x119000 booted_system {}"
    by (auto simp: caller_memory_def booted_system_rep(2) in_span_nowrap heads_def word32_le_nat)
  note run = services_run_refines [OF booted_system_rep(1) U]
  have "describes ?U (mem booted_system) Req_create (Box Create)" by simp
  with run [OF served.start] obtain r s where s: "serve 0x119000 Req_create booted_system = Some (r, s)"
    by blast
  have "served 0x119000 ?U booted_system ([] @ [(Box Create, r)]) s"
    by (rule served.step [OF served.start _ s]) simp
  moreover have "describes ?U (mem s) (Req_send 5 0x9000 4 1) (Send 5 1 (bytes_at (mem s) 0x9000 4))"
    by simp
  ultimately obtain r' s' where "serve 0x119000 (Req_send 5 0x9000 4 1) s = Some (r', s')"
    using run by blast
  with s show ?thesis by blast
qed

end
