(* ===== verification/Console.thy ===== *)
theory Console
  imports Machine
begin

text \<open>
  The port accesses of include/kernel/hal/port_io.h, the serial console of
  kernel/src/hal/serial.c on top of them, and kernel/src/printk.c and kernel/src/debug.c on top
  of the console. What the devices answer is a parameter, \<open>dev\<close>: the value read from a port,
  given the history of port accesses. The waiting loops may not end, so they are partial.
\<close>

type_synonym device = "io_event list \<Rightarrow> u16 \<Rightarrow> u16"

subsection \<open>Ports\<close>

definition inb :: "device \<Rightarrow> u16 \<Rightarrow> 'a machine_scheme \<Rightarrow> u8 \<times> 'a machine_scheme" where
  "inb dev port s = (let v = ucast (dev (io s) port) in (v, s\<lparr>io := io s @ [Inb port v]\<rparr>))"

definition outb :: "u16 \<Rightarrow> u8 \<Rightarrow> 'a machine_scheme \<Rightarrow> 'a machine_scheme" where
  "outb port v s = s\<lparr>io := io s @ [Outb port v]\<rparr>"

text \<open>The pause of include/kernel/io.h, a write to an unused port.\<close>

definition io_wait :: "'a machine_scheme \<Rightarrow> 'a machine_scheme" where
  "io_wait s = outb 0x80 0 s"

definition inw :: "device \<Rightarrow> u16 \<Rightarrow> 'a machine_scheme \<Rightarrow> u16 \<times> 'a machine_scheme" where
  "inw dev port s = (let v = dev (io s) port in (v, s\<lparr>io := io s @ [Inw port v]\<rparr>))"

definition outw :: "u16 \<Rightarrow> u16 \<Rightarrow> 'a machine_scheme \<Rightarrow> 'a machine_scheme" where
  "outw port v s = s\<lparr>io := io s @ [Outw port v]\<rparr>"

lemma port_simps [simp]:
  "io (outb port v s) = io s @ [Outb port v]" "io (snd (inb dev port s)) = io s @ [Inb port (fst (inb dev port s))]"
  "mem (outb port v s) = mem s" "mem (snd (inb dev port s)) = mem s"
  "klog (outb port v s) = klog s" "klog (snd (inb dev port s)) = klog s"
  "machine.more (outb port v s) = machine.more s" "machine.more (snd (inb dev port s)) = machine.more s"
  "mem (outw port w s) = mem s" "mem (snd (inw dev port s)) = mem s"
  by (simp_all add: outb_def inb_def inw_def outw_def Let_def)

subsection \<open>The serial port\<close>

definition COM1 :: u16 where "COM1 = 0x3F8"

definition serial_init :: "'a machine_scheme \<Rightarrow> 'a machine_scheme" where
  "serial_init s =
     (let s = outb (COM1 + 1) 0x00 s;
          s = outb (COM1 + 3) 0x80 s;
          s = outb (COM1 + 0) 0x03 s;
          s = outb (COM1 + 1) 0x00 s;
          s = outb (COM1 + 3) 0x03 s;
          s = outb (COM1 + 2) 0xC7 s
      in outb (COM1 + 4) 0x0B s)"

definition serial_initialize :: "'a machine_scheme \<Rightarrow> 'a machine_scheme" where
  "serial_initialize s = serial_init s"

definition serial_init_com1 :: "'a machine_scheme \<Rightarrow> 'a machine_scheme" where
  "serial_init_com1 s = serial_init s"

definition serial_is_ready :: "device \<Rightarrow> 'a machine_scheme \<Rightarrow> bool \<times> 'a machine_scheme" where
  "serial_is_ready dev s = (let (v, s) = inb dev (COM1 + 5) s in (v AND 0x20 \<noteq> 0, s))"

partial_function (option) serial_wait :: "device \<Rightarrow> 'a machine_scheme \<Rightarrow> 'a machine_scheme option" where
  "serial_wait dev s =
     (if fst (serial_is_ready dev s) then Some (snd (serial_is_ready dev s))
      else serial_wait dev (snd (serial_is_ready dev s)))"

definition serial_write :: "device \<Rightarrow> u8 \<Rightarrow> 'a machine_scheme \<Rightarrow> 'a machine_scheme option" where
  "serial_write dev c s = do { s \<leftarrow> serial_wait dev s; Some (outb COM1 c s) }"

definition serial_putc :: "device \<Rightarrow> u8 \<Rightarrow> 'a machine_scheme \<Rightarrow> 'a machine_scheme option" where
  "serial_putc dev c s =
     do { s \<leftarrow> (if c = 0x0A then serial_write dev 0x0D s else Some s); serial_write dev c s }"

partial_function (option) serial_puts :: "device \<Rightarrow> addr \<Rightarrow> 'a machine_scheme \<Rightarrow> 'a machine_scheme option" where
  "serial_puts dev str s =
     (if mem s str \<noteq> 0 then do { s \<leftarrow> serial_putc dev (mem s str) s; serial_puts dev (str + 1) s }
      else Some s)"

text \<open>A string given by its bytes, as \<open>serial_puts\<close> sends it: a literal lies where the linker puts it.\<close>

fun put_string :: "device \<Rightarrow> u8 list \<Rightarrow> 'a machine_scheme \<Rightarrow> 'a machine_scheme option" where
  "put_string dev [] s = Some s"
| "put_string dev (c # cs) s = do { s \<leftarrow> serial_putc dev c s; put_string dev cs s }"

definition serial_received :: "device \<Rightarrow> 'a machine_scheme \<Rightarrow> u8 \<times> 'a machine_scheme" where
  "serial_received dev s = (let (v, s) = inb dev (COM1 + 5) s in (v AND 1, s))"

partial_function (option) serial_wait_received :: "device \<Rightarrow> 'a machine_scheme \<Rightarrow> 'a machine_scheme option" where
  "serial_wait_received dev s =
     (if fst (serial_received dev s) \<noteq> 0 then Some (snd (serial_received dev s))
      else serial_wait_received dev (snd (serial_received dev s)))"

definition serial_read :: "device \<Rightarrow> 'a machine_scheme \<Rightarrow> (u8 \<times> 'a machine_scheme) option" where
  "serial_read dev s = do { s \<leftarrow> serial_wait_received dev s; Some (inb dev COM1 s) }"

subsection \<open>printk.c\<close>

text \<open>\<open>printk\<close> of a format string in memory, byte for byte.\<close>

definition printk_serial :: "device \<Rightarrow> addr \<Rightarrow> 'a machine_scheme \<Rightarrow> 'a machine_scheme option" where
  "printk_serial dev format s = serial_puts dev format s"

definition kprintf_serial :: "device \<Rightarrow> addr \<Rightarrow> 'a machine_scheme \<Rightarrow> (int \<times> 'a machine_scheme) option" where
  "kprintf_serial dev format s = do { s \<leftarrow> printk_serial dev format s; Some (0, s) }"

text \<open>\<open>printk\<close> of a literal: its bytes go out on the port, and the log records that they did. Without
  the port, this is \<open>Machine.printk\<close>.\<close>

definition ascii :: "string \<Rightarrow> u8 list" where "ascii = map of_char"

definition kprint :: "device \<Rightarrow> string \<Rightarrow> 'a machine_scheme \<Rightarrow> 'a machine_scheme option" where
  "kprint dev format s = do { s \<leftarrow> put_string dev (ascii format) s; Some (printk format s) }"

partial_function (option) vsnprintf_loop :: "mem \<Rightarrow> addr \<Rightarrow> u32 \<Rightarrow> addr \<Rightarrow> u32 \<Rightarrow> (u32 \<times> mem) option" where
  "vsnprintf_loop m str sz format i =
     (if i < sz - 1 \<and> m (format + i) \<noteq> 0
      then vsnprintf_loop (m(str + i := m (format + i))) str sz format (i + 1)
      else Some (i, m(str + i := 0)))"

definition vsnprintf :: "mem \<Rightarrow> addr \<Rightarrow> u32 \<Rightarrow> addr \<Rightarrow> (int \<times> mem) option" where
  "vsnprintf m str sz format = map_option (\<lambda>(i, m). (sint i, m)) (vsnprintf_loop m str sz format 0)"

definition snprintf :: "mem \<Rightarrow> addr \<Rightarrow> u32 \<Rightarrow> addr \<Rightarrow> (int \<times> mem) option" where
  "snprintf m str sz format = vsnprintf m str sz format"

subsection \<open>debug.c and panic.c\<close>

text \<open>A handler that ends in \<open>cli\<close> and an endless \<open>hlt\<close> leaves the machine halted.\<close>

datatype 's outcome = Returned 's | Halted 's

record debug_state = machine +
  current_test :: addr

definition debug_set_test_name :: "addr \<Rightarrow> 'a debug_state_scheme \<Rightarrow> 'a debug_state_scheme" where
  "debug_set_test_name name s = s\<lparr>current_test := name\<rparr>"

definition debug_test_start :: "addr \<Rightarrow> 'a debug_state_scheme \<Rightarrow> 'a debug_state_scheme" where
  "debug_test_start name s = printk ''Test: %s... '' (debug_set_test_name name s)"

definition debug_test_end :: "'a debug_state_scheme \<Rightarrow> 'a debug_state_scheme" where
  "debug_test_end s = debug_set_test_name NULL (printk (''OK'' @ nl) s)"

definition cli :: "'a machine_scheme \<Rightarrow> 'a machine_scheme" where "cli s = s\<lparr>io := io s @ [Cli]\<rparr>"
definition sti :: "'a machine_scheme \<Rightarrow> 'a machine_scheme" where "sti s = s\<lparr>io := io s @ [Sti]\<rparr>"

definition panic :: "addr \<Rightarrow> addr \<Rightarrow> u32 \<Rightarrow> 'a machine_scheme \<Rightarrow> 'a machine_scheme outcome" where
  "panic message file line s = Halted (cli (printk (''PANIC: %s at %s:%d'' @ nl) s))"

definition kernel_panic :: "addr \<Rightarrow> 'a machine_scheme \<Rightarrow> 'a machine_scheme outcome" where
  "kernel_panic message s = Halted (cli (printk (''System halted'' @ nl) (printk (''KERNEL PANIC: %s'' @ nl) s)))"

text \<open>The two buffers of \<open>debug_assert\<close> are on the stack, its format string and the message of the
  panic are literals; where the compiler puts them is a parameter.\<close>

definition debug_assert :: "addr \<Rightarrow> addr \<Rightarrow> addr \<Rightarrow> addr \<Rightarrow> bool \<Rightarrow> addr \<Rightarrow> u32 \<Rightarrow> addr
    \<Rightarrow> 'a machine_scheme \<Rightarrow> 'a machine_scheme outcome option" where
  "debug_assert buffer full_msg literal failed condition file line format s =
     (if condition then Some (Returned s)
      else do {
        (_, m) \<leftarrow> vsnprintf (mem s) buffer 256 format;
        (_, m) \<leftarrow> snprintf m full_msg 256 literal;
        Some (panic failed file line (printk (''%s'' @ nl) (s\<lparr>mem := m\<rparr>)))
      })"

text \<open>\<open>kprintf\<close> of debug.c hands the format to \<open>serial_puts\<close>, as \<open>printk\<close> does.\<close>

definition kprintf :: "device \<Rightarrow> addr \<Rightarrow> 'a machine_scheme \<Rightarrow> (int \<times> 'a machine_scheme) option" where
  "kprintf dev format s = do { s \<leftarrow> serial_puts dev format s; Some (0, s) }"

subsection \<open>Waiting for the transmitter\<close>

text \<open>Polling the line status register \<open>k\<close> times.\<close>

definition status :: "device \<Rightarrow> io_event list \<Rightarrow> u8" where
  "status dev h = ucast (dev h (COM1 + 5))"

fun polls :: "device \<Rightarrow> nat \<Rightarrow> io_event list \<Rightarrow> io_event list" where
  "polls dev 0 h = h"
| "polls dev (Suc k) h = polls dev k (h @ [Inb (COM1 + 5) (status dev h)])"

text \<open>The transmitter becomes ready after some number of polls, whatever happened before.\<close>

definition becomes_ready :: "device \<Rightarrow> io_event list \<Rightarrow> bool" where
  "becomes_ready dev h \<longleftrightarrow> (\<exists>k. status dev (polls dev k h) AND 0x20 \<noteq> 0)"

text \<open>The bytes written to the data register.\<close>

definition transmitted :: "io_event list \<Rightarrow> u8 list" where
  "transmitted h = concat (map (\<lambda>e. case e of Outb p v \<Rightarrow> (if p = COM1 then [v] else []) | _ \<Rightarrow> []) h)"

lemma transmitted_simps [simp]:
  "transmitted [] = []" "transmitted (h @ h') = transmitted h @ transmitted h'"
  "transmitted (Outb COM1 v # h) = v # transmitted h" "transmitted (Inb p v # h) = transmitted h"
  by (simp_all add: transmitted_def)

lemma serial_is_ready_simps [simp]:
  "fst (serial_is_ready dev s) \<longleftrightarrow> status dev (io s) AND 0x20 \<noteq> 0"
  "snd (serial_is_ready dev s) = s\<lparr>io := io s @ [Inb (COM1 + 5) (status dev (io s))]\<rparr>"
  by (simp_all add: serial_is_ready_def inb_def status_def Let_def)

text \<open>Waiting ends at the first poll that finds the transmitter ready.\<close>

lemma serial_wait_polls:
  assumes "status dev (polls dev k (io s)) AND 0x20 \<noteq> 0"
    "\<And>j. j < k \<Longrightarrow> status dev (polls dev j (io s)) AND 0x20 = 0"
  shows "serial_wait dev s = Some (s\<lparr>io := polls dev (Suc k) (io s)\<rparr>)"
  using assms
proof (induction k arbitrary: s)
  case 0
  then show ?case
    by (subst serial_wait.simps) simp
next
  case (Suc k)
  let ?s = "s\<lparr>io := io s @ [Inb (COM1 + 5) (status dev (io s))]\<rparr>"
  have "status dev (polls dev j (io ?s)) AND 0x20 = 0" if "j < k" for j
    using Suc.prems(2) [of "Suc j"] that by simp
  then have "serial_wait dev ?s = Some (?s\<lparr>io := polls dev (Suc k) (io ?s)\<rparr>)"
    using Suc.prems(1) by (intro Suc.IH) simp_all
  moreover have "status dev (io s) AND 0x20 = 0"
    using Suc.prems(2) [of 0] by simp
  ultimately show ?case
    by (subst serial_wait.simps) simp
qed

lemma serial_wait_only_ready:
  assumes "serial_wait dev s = Some t"
  shows "becomes_ready dev (io s)"
proof (rule serial_wait.raw_induct [where P = "\<lambda>dev s t. becomes_ready dev (io s)", OF _ assms])
  fix wait and dev :: device and s t :: "'a machine_scheme"
  let ?s = "s\<lparr>io := io s @ [Inb (COM1 + 5) (status dev (io s))]\<rparr>"
  assume ih: "\<And>dev (s :: 'a machine_scheme) t. wait dev s = Some t \<Longrightarrow> becomes_ready dev (io s)"
    and eq: "(if fst (serial_is_ready dev s) then Some (snd (serial_is_ready dev s))
      else wait dev (snd (serial_is_ready dev s))) = Some t"
  show "becomes_ready dev (io s)"
  proof (cases "status dev (io s) AND 0x20 \<noteq> 0")
    case True
    then show ?thesis
      unfolding becomes_ready_def by (intro exI [of _ 0]) simp
  next
    case False
    with eq have "wait dev ?s = Some t" by simp
    then have "becomes_ready dev (io ?s)"
      by (rule ih)
    then obtain k where "status dev (polls dev k (io s @ [Inb (COM1 + 5) (status dev (io s))])) AND 0x20 \<noteq> 0"
      by (auto simp: becomes_ready_def)
    then show ?thesis
      unfolding becomes_ready_def by (intro exI [of _ "Suc k"]) simp
  qed
qed

definition wait_history :: "device \<Rightarrow> io_event list \<Rightarrow> io_event list" where
  "wait_history dev h = polls dev (Suc (LEAST k. status dev (polls dev k h) AND 0x20 \<noteq> 0)) h"

lemma serial_wait_eq:
  "serial_wait dev s = (if becomes_ready dev (io s) then Some (s\<lparr>io := wait_history dev (io s)\<rparr>) else None)"
proof (cases "becomes_ready dev (io s)")
  case True
  then have "status dev (polls dev (LEAST k. status dev (polls dev k (io s)) AND 0x20 \<noteq> 0) (io s)) AND 0x20 \<noteq> 0"
    unfolding becomes_ready_def by (rule LeastI_ex)
  moreover have "status dev (polls dev j (io s)) AND 0x20 = 0"
    if "j < (LEAST k. status dev (polls dev k (io s)) AND 0x20 \<noteq> 0)" for j
    using not_less_Least [OF that] by simp
  ultimately show ?thesis
    using True serial_wait_polls [of dev _ s] by (simp add: wait_history_def)
next
  case False
  then show ?thesis
    using serial_wait_only_ready [of dev s] by (cases "serial_wait dev s") auto
qed

text \<open>Sending bytes: the transmitter has to become ready for each of them in turn, after the history
  that the bytes before left.\<close>

fun ready_for :: "device \<Rightarrow> u8 list \<Rightarrow> io_event list \<Rightarrow> bool" where
  "ready_for dev [] h \<longleftrightarrow> True"
| "ready_for dev (c # cs) h \<longleftrightarrow> becomes_ready dev h \<and> ready_for dev cs (wait_history dev h @ [Outb COM1 c])"

fun sent_history :: "device \<Rightarrow> u8 list \<Rightarrow> io_event list \<Rightarrow> io_event list" where
  "sent_history dev [] h = h"
| "sent_history dev (c # cs) h = sent_history dev cs (wait_history dev h @ [Outb COM1 c])"

lemma ready_for_append [simp]:
  "ready_for dev (bs @ cs) h \<longleftrightarrow> ready_for dev bs h \<and> ready_for dev cs (sent_history dev bs h)"
  by (induction bs arbitrary: h) auto

lemma sent_history_append [simp]:
  "sent_history dev (bs @ cs) h = sent_history dev cs (sent_history dev bs h)"
  by (induction bs arbitrary: h) auto

lemma always_ready: "(\<And>h. becomes_ready dev h) \<Longrightarrow> ready_for dev bs h"
  by (induction bs arbitrary: h) auto

text \<open>Polling and sending touch no port but the two of the serial line.\<close>

definition serial_traffic :: "io_event list \<Rightarrow> bool" where
  "serial_traffic h \<longleftrightarrow> list_all (\<lambda>e. case e of Inb p v \<Rightarrow> p = COM1 + 5 | Outb p v \<Rightarrow> p = COM1 | _ \<Rightarrow> False) h"

lemma serial_traffic_simps [simp]:
  "serial_traffic []" "serial_traffic (h @ h') \<longleftrightarrow> serial_traffic h \<and> serial_traffic h'"
  "serial_traffic (Inb p v # h) \<longleftrightarrow> p = COM1 + 5 \<and> serial_traffic h"
  "serial_traffic (Outb p v # h) \<longleftrightarrow> p = COM1 \<and> serial_traffic h"
  by (simp_all add: serial_traffic_def)

lemma polls_events: "\<exists>q. polls dev k h = h @ q \<and> serial_traffic q \<and> transmitted q = []"
proof (induction k arbitrary: h)
  case (Suc k)
  from Suc.IH [of "h @ [Inb (COM1 + 5) (status dev h)]"] obtain q where
    "polls dev (Suc k) h = h @ [Inb (COM1 + 5) (status dev h)] @ q" "serial_traffic q" "transmitted q = []"
    by auto
  then show ?case
    by (intro exI [of _ "[Inb (COM1 + 5) (status dev h)] @ q"]) (simp del: append_assoc add: append_assoc [symmetric])
qed simp

lemma sent_history_events: "\<exists>q. sent_history dev bs h = h @ q \<and> serial_traffic q \<and> transmitted q = bs"
proof (induction bs arbitrary: h)
  case (Cons c cs)
  obtain q where q: "wait_history dev h = h @ q" "serial_traffic q" "transmitted q = []"
    unfolding wait_history_def using polls_events by blast
  obtain r where r: "sent_history dev cs (h @ q @ [Outb COM1 c]) = (h @ q @ [Outb COM1 c]) @ r" "serial_traffic r"
    "transmitted r = cs"
    using Cons.IH [of "h @ q @ [Outb COM1 c]"] by blast
  have "transmitted (q @ [Outb COM1 c] @ r) = c # cs"
    unfolding transmitted_simps q(3) r(3) by simp
  with q r show ?case
    by (intro exI [of _ "q @ [Outb COM1 c] @ r"]) simp
qed simp

lemma serial_write_eq:
  "serial_write dev c s = (if ready_for dev [c] (io s) then Some (s\<lparr>io := sent_history dev [c] (io s)\<rparr>) else None)"
  by (simp add: serial_write_def serial_wait_eq outb_def)

text \<open>A newline goes out as a carriage return and a newline.\<close>

fun crlf :: "u8 list \<Rightarrow> u8 list" where
  "crlf [] = []"
| "crlf (c # cs) = (if c = 0x0A then [0x0D, 0x0A] else [c]) @ crlf cs"

lemma crlf_append [simp]: "crlf (bs @ cs) = crlf bs @ crlf cs"
  by (induction bs) auto

lemma serial_putc_eq:
  "serial_putc dev c s
     = (if ready_for dev (crlf [c]) (io s) then Some (s\<lparr>io := sent_history dev (crlf [c]) (io s)\<rparr>) else None)"
  by (simp add: serial_putc_def serial_write_eq)

lemma put_string_eq:
  "put_string dev cs s
     = (if ready_for dev (crlf cs) (io s) then Some (s\<lparr>io := sent_history dev (crlf cs) (io s)\<rparr>) else None)"
proof (induction cs arbitrary: s)
  case Nil
  then show ?case by simp
next
  case (Cons c cs)
  have "crlf (c # cs) = crlf [c] @ crlf cs"
    by simp
  then show ?case
    by (cases "ready_for dev (crlf [c]) (io s)")
      (simp_all only: put_string.simps serial_putc_eq ready_for_append sent_history_append if_True if_False
        simp_thms bind.bind_lunit bind.bind_lzero Cons.IH, simp)
qed

text \<open>\<open>serial_puts\<close> of a C string sends its bytes.\<close>

lemma serial_puts_cstr: "cstr_at (mem s) str cs \<Longrightarrow> serial_puts dev str s = put_string dev cs s"
proof (induction cs arbitrary: str s)
  case Nil
  then show ?case
    by (subst serial_puts.simps) simp
next
  case (Cons c cs)
  have "serial_puts dev (str + 1) t = put_string dev cs t" if "serial_putc dev c s = Some t" for t
  proof (rule Cons.IH)
    have "mem t = mem s"
      using that by (auto simp: serial_putc_eq simp del: crlf.simps split: if_splits)
    with Cons.prems show "cstr_at (mem t) (str + 1) cs" by simp
  qed
  with Cons.prems show ?case
    by (subst serial_puts.simps) (cases "serial_putc dev c s"; simp)
qed

lemma kprint_literal:
  assumes "cstr_at (mem s) p (ascii format)"
  shows "kprint dev format s = map_option (printk format) (printk_serial dev p s)"
  by (cases "put_string dev (ascii format) s")
    (simp_all add: kprint_def printk_serial_def serial_puts_cstr [OF assms])

lemma kprint_ready:
  assumes "\<And>h. becomes_ready dev h"
  shows "\<exists>q. kprint dev format s = Some ((printk format s)\<lparr>io := io s @ q\<rparr>) \<and> serial_traffic q
    \<and> transmitted q = crlf (ascii format)"
proof -
  obtain q where "sent_history dev (crlf (ascii format)) (io s) = io s @ q" "serial_traffic q"
    "transmitted q = crlf (ascii format)"
    using sent_history_events by blast
  then show ?thesis
    using always_ready [OF assms] by (intro exI [of _ q]) (simp add: kprint_def put_string_eq printk_def)
qed

lemma kprint_silent:
  assumes "\<not> becomes_ready dev (io s)" "format \<noteq> []"
  shows "kprint dev format s = None"
proof -
  have "\<not> ready_for dev (crlf (ascii format)) (io s)"
    using assms by (cases format) (auto simp: ascii_def)
  then show ?thesis
    by (simp add: kprint_def put_string_eq)
qed

end
