(* ===== verification/Console_Props.thy ===== *)
theory Console_Props
  imports Console
begin

text \<open>
  The properties of the console: what the serial port transmits, when it hangs, and what
  \<open>vsnprintf\<close> writes.
\<close>

subsection \<open>Strings on the serial port\<close>

text \<open>C33. \<open>printk\<close> of a C string returns exactly when the transmitter becomes ready for each of its
  bytes in turn, after the history that the bytes before left (a carriage return goes out before every
  newline); otherwise it hangs, because there is no timeout. When it returns, the history has grown by
  accesses to the serial port only, which transmitted exactly these bytes, and nothing else has
  changed. So on a transmitter that becomes ready after every history every \<open>printk\<close> returns, and on
  one that does not become ready now every non-empty \<open>printk\<close> hangs.\<close>

theorem printk_transmits:
  fixes s :: "'a machine_scheme"
  assumes "cstr_at (mem s) format cs"
  shows "(case printk_serial dev format s of
      None \<Rightarrow> \<not> ready_for dev (crlf cs) (io s)
    | Some t \<Rightarrow> ready_for dev (crlf cs) (io s)
        \<and> (\<exists>q. t = s\<lparr>io := io s @ q\<rparr> \<and> serial_traffic q \<and> transmitted q = crlf cs))
    \<and> ((\<forall>h. becomes_ready dev h) \<longrightarrow> ready_for dev (crlf cs) (io s))
    \<and> (cs \<noteq> [] \<and> \<not> becomes_ready dev (io s) \<longrightarrow> \<not> ready_for dev (crlf cs) (io s))"
proof (intro conjI impI)
  obtain q where "sent_history dev (crlf cs) (io s) = io s @ q" "serial_traffic q" "transmitted q = crlf cs"
    using sent_history_events by blast
  then show "case printk_serial dev format s of
      None \<Rightarrow> \<not> ready_for dev (crlf cs) (io s)
    | Some t \<Rightarrow> ready_for dev (crlf cs) (io s)
        \<and> (\<exists>q. t = s\<lparr>io := io s @ q\<rparr> \<and> serial_traffic q \<and> transmitted q = crlf cs)"
    unfolding printk_serial_def serial_puts_cstr [OF assms] put_string_eq by auto
  show "ready_for dev (crlf cs) (io s)" if "\<forall>h. becomes_ready dev h"
    using that by (intro always_ready) blast
  show "\<not> ready_for dev (crlf cs) (io s)" if "cs \<noteq> [] \<and> \<not> becomes_ready dev (io s)"
    using that by (cases cs) auto
qed

definition hello :: "machine" where
  "hello = \<lparr>mem = (\<lambda>_. 0)(0x1000 := 0x48, 0x1001 := 0x0A), klog = [], io = []\<rparr>"

lemma cstr_hello: "cstr_at (mem hello) 0x1000 [0x48, 0x0A]"
  by (simp add: hello_def)

text \<open>A transmitter that is ready at every second poll, and one that is never ready.\<close>

theorem printk_transmits_witness:
  "(\<exists>h. printk_serial (\<lambda>h _. if even (length h) then 0 else 0x60) 0x1000 hello
      = Some (hello\<lparr>io := h\<rparr>) \<and> transmitted h = [0x48, 0x0D, 0x0A] \<and> serial_traffic h)
   \<and> printk_serial (\<lambda>_ _. 0) 0x1000 hello = None"
proof
  let ?dev = "\<lambda>h _. if even (length h) then 0 else (0x60 :: u16)"
  have "becomes_ready ?dev h" for h
    unfolding becomes_ready_def
    by (intro exI [of _ "if even (length h) then 1 else 0"]) (simp add: status_def)
  then have ready: "\<forall>h. becomes_ready ?dev h" by blast
  have "io hello = []"
    by (simp add: hello_def)
  with ready printk_transmits [OF cstr_hello, of ?dev]
  show "\<exists>h. printk_serial ?dev 0x1000 hello = Some (hello\<lparr>io := h\<rparr>) \<and> transmitted h = [0x48, 0x0D, 0x0A]
      \<and> serial_traffic h"
    by (auto split: option.splits)
  have "\<not> becomes_ready (\<lambda>_ _. 0) (io hello)"
    by (simp add: becomes_ready_def status_def)
  then show "printk_serial (\<lambda>_ _. 0) 0x1000 hello = None"
    using printk_transmits [OF cstr_hello, of "\<lambda>_ _. 0"] by (auto split: option.splits)
qed

subsection \<open>Formatting into a buffer\<close>

lemma vsnprintf_loop_cstr:
  assumes "cstr_at m (format + i) cs" "unat i + k = unat (sz - 1)"
    "span (str + i) (Suc (min k (length cs))) \<inter> span (format + i) (Suc (length cs)) = {}"
  shows "vsnprintf_loop m str sz format i
    = Some (i + of_nat (min k (length cs)), write_bytes m (str + i) (take k cs @ [0]))"
  using assms
proof (induction cs arbitrary: m i k)
  case Nil
  then show ?case by (subst vsnprintf_loop.simps) simp
next
  case (Cons c cs)
  show ?case
  proof (cases k)
    case 0
    with Cons.prems have "\<not> i < sz - 1" by (simp add: word32_less_nat)
    with 0 show ?thesis by (subst vsnprintf_loop.simps) simp
  next
    case (Suc j)
    let ?m = "m(str + i := c)"
    have lt: "i < sz - 1"
      using Cons.prems(2) Suc by (simp add: word32_less_nat)
    have i1: "unat (i + 1) = Suc (unat i)"
      using Cons.prems(2) Suc unat32_less [of "sz - 1"] unat_add_of_nat [of i 1] by simp
    have disj: "span (str + i) (Suc (min k (length (c # cs)))) \<inter> span (format + i) (Suc (length (c # cs))) = {}"
      by (rule Cons.prems(3))
    have "str + i \<notin> span (format + (i + 1)) (Suc (length cs))"
      using disj by (auto simp: span_Suc [of "str + i"] span_Suc [of "format + i"] add.assoc)
    then have "cstr_at ?m (format + (i + 1)) cs"
      using Cons.prems(1) by (simp add: cstr_at_upd add.assoc)
    moreover have "span (str + (i + 1)) (Suc (min j (length cs))) \<inter> span (format + (i + 1)) (Suc (length cs)) = {}"
      using disj by (auto simp: Suc span_Suc [of "str + i"] span_Suc [of "format + i"] add.assoc)
    moreover have "unat (i + 1) + j = unat (sz - 1)"
      using Cons.prems(2) Suc i1 by simp
    ultimately have "vsnprintf_loop ?m str sz format (i + 1)
        = Some (i + 1 + of_nat (min j (length cs)), write_bytes ?m (str + (i + 1)) (take j cs @ [0]))"
      using Cons.IH by blast
    with lt Cons.prems(1) Suc show ?thesis
      by (subst vsnprintf_loop.simps) (simp add: add.assoc)
  qed
qed

text \<open>C34. \<open>vsnprintf\<close> into a buffer of \<open>sz\<close> bytes: for \<open>0 < sz\<close> it writes at most \<open>sz\<close> bytes,
  the format cut to \<open>sz - 1\<close> characters and a final 0 (the arguments are never formatted), and
  returns the number of characters written, not the number needed. For \<open>sz = 0\<close> the bound
  \<open>size - 1\<close> wraps and the whole format is copied, over whatever follows the buffer.\<close>

theorem vsnprintf_bounded:
  assumes "cstr_at m format cs" "unat sz \<le> 2147483648" "length cs < 2147483648"
    "span str (Suc (length cs)) \<inter> span format (Suc (length cs)) = {}"
  shows "vsnprintf m str sz format =
    (if sz = 0 then Some (int (length cs), write_bytes m str (cs @ [0]))
     else Some (int (min (unat sz - 1) (length cs)), write_bytes m str (take (unat sz - 1) cs @ [0])))"
proof -
  have sint_small: "sint (of_nat n :: u32) = int n" if "n < 2147483648" for n
    using that by (simp add: signed_of_nat signed_take_bit_int_eq_self)
  have pred: "unat (sz - 1) = (if sz = 0 then 4294967295 else unat sz - 1)"
    by (auto simp: unat_minus_one unsigned_minus_1_eq_mask mask_eq_exp_minus_1)
  let ?k = "unat (sz - 1)"
  have "span str (Suc (min ?k (length cs))) \<subseteq> span str (Suc (length cs))"
    by (rule span_mono) simp
  then have "vsnprintf_loop m str sz format 0 = Some (of_nat (min ?k (length cs)), write_bytes m str (take ?k cs @ [0]))"
    using vsnprintf_loop_cstr [of m format 0 cs ?k sz str] assms(1,4) by auto
  moreover have "min ?k (length cs) < 2147483648"
    using assms(3) by simp
  ultimately have v: "vsnprintf m str sz format = Some (int (min ?k (length cs)), write_bytes m str (take ?k cs @ [0]))"
    by (simp add: vsnprintf_def sint_small)
  show ?thesis
  proof (cases "sz = 0")
    case True
    then have "?k = 4294967295"
      using pred by simp
    moreover have "min 4294967295 (length cs) = length cs" "take 4294967295 cs = cs"
      using assms(3) by simp_all
    ultimately show ?thesis
      using True v by metis
  next
    case False
    then have "?k = unat sz - 1"
      using pred by simp
    with False v show ?thesis by metis
  qed
qed

theorem vsnprintf_bounded_witness:
  "vsnprintf (mem hello) 0x2000 2 0x1000 = Some (1, write_bytes (mem hello) 0x2000 [0x48, 0])
   \<and> vsnprintf (mem hello) 0x2000 0 0x1000 = Some (2, write_bytes (mem hello) 0x2000 [0x48, 0x0A, 0])"
proof -
  have disj: "span (0x2000 :: addr) (Suc (length [0x48, 0x0A :: u8])) \<inter> span 0x1000 (Suc (length [0x48, 0x0A :: u8])) = {}"
    by (rule span_disjoint) simp_all
  show ?thesis
    using vsnprintf_bounded [OF cstr_hello _ _ disj, of 2] vsnprintf_bounded [OF cstr_hello _ _ disj, of 0]
    by simp
qed

end
