(* ===== verification/Tty.thy ===== *)
theory Tty
  imports Machine
begin

text \<open>
  The VGA text terminal: include/kernel/vga.h, kernel/src/vga.c and kernel/src/tty.c. The screen
  is video memory, 80 columns and 25 rows of 16-bit cells at 0xB8000; the static variables of
  tty.c are the fields of \<open>tty_state\<close>. A specification of the terminal on the list of its 2000
  cells and a linear cursor is refined by the code.
\<close>

subsection \<open>vga.h and vga.c\<close>

datatype vga_color = VGA_COLOR_BLACK | VGA_COLOR_BLUE | VGA_COLOR_GREEN | VGA_COLOR_CYAN
  | VGA_COLOR_RED | VGA_COLOR_MAGENTA | VGA_COLOR_BROWN | VGA_COLOR_LIGHT_GREY
  | VGA_COLOR_DARK_GREY | VGA_COLOR_LIGHT_BLUE | VGA_COLOR_LIGHT_GREEN | VGA_COORD_LIGHT_CYAN
  | VGA_COLOR_LIGHT_RED | VGA_COLOR_LIGHT_MAGENTA | VGA_COLOR_LIGHT_BROWN | VGA_COLOR_WHITE

text \<open>The value of an enumeration constant.\<close>

fun vga_color_value :: "vga_color \<Rightarrow> u32" where
  "vga_color_value VGA_COLOR_BLACK = 0"
| "vga_color_value VGA_COLOR_BLUE = 1"
| "vga_color_value VGA_COLOR_GREEN = 2"
| "vga_color_value VGA_COLOR_CYAN = 3"
| "vga_color_value VGA_COLOR_RED = 4"
| "vga_color_value VGA_COLOR_MAGENTA = 5"
| "vga_color_value VGA_COLOR_BROWN = 6"
| "vga_color_value VGA_COLOR_LIGHT_GREY = 7"
| "vga_color_value VGA_COLOR_DARK_GREY = 8"
| "vga_color_value VGA_COLOR_LIGHT_BLUE = 9"
| "vga_color_value VGA_COLOR_LIGHT_GREEN = 10"
| "vga_color_value VGA_COORD_LIGHT_CYAN = 11"
| "vga_color_value VGA_COLOR_LIGHT_RED = 12"
| "vga_color_value VGA_COLOR_LIGHT_MAGENTA = 13"
| "vga_color_value VGA_COLOR_LIGHT_BROWN = 14"
| "vga_color_value VGA_COLOR_WHITE = 15"

definition VGA_WIDTH :: u32 where "VGA_WIDTH = 80"
definition VGA_HEIGHT :: u32 where "VGA_HEIGHT = 25"

text \<open>A C enumeration also takes values without a name, so the arguments are integers.\<close>

definition vga_entry_color :: "u32 \<Rightarrow> u32 \<Rightarrow> u8" where
  "vga_entry_color fg bg = ucast (fg OR push_bit 4 bg)"

definition vga_entry :: "u8 \<Rightarrow> u8 \<Rightarrow> u16" where
  "vga_entry uc color = ucast uc OR push_bit 8 (ucast color)"

definition vga_init :: "'a machine_scheme \<Rightarrow> 'a machine_scheme" where
  "vga_init s = printk (''VGA initialized'' @ nl) s"

subsection \<open>tty.c\<close>

record tty_state = machine +
  terminal_row :: u32
  terminal_column :: u32
  terminal_color :: u8
  terminal_buffer :: addr

text \<open>\<open>terminal_buffer[index]\<close>: the cells have two bytes.\<close>

definition screen_cell :: "addr \<Rightarrow> u32 \<Rightarrow> addr" where
  "screen_cell buffer index = buffer + 2 * index"

fun clear_row :: "addr \<Rightarrow> u16 \<Rightarrow> u32 \<Rightarrow> nat \<Rightarrow> u32 \<Rightarrow> mem \<Rightarrow> mem" where
  "clear_row buffer v y 0 x m = m"
| "clear_row buffer v y (Suc n) x m =
     clear_row buffer v y n (x + 1) (store16 m (screen_cell buffer (y * VGA_WIDTH + x)) v)"

fun clear_rows :: "addr \<Rightarrow> u16 \<Rightarrow> nat \<Rightarrow> u32 \<Rightarrow> mem \<Rightarrow> mem" where
  "clear_rows buffer v 0 y m = m"
| "clear_rows buffer v (Suc n) y m =
     clear_rows buffer v n (y + 1) (clear_row buffer v y (unat VGA_WIDTH) 0 m)"

definition tty_init :: "'a tty_state_scheme \<Rightarrow> 'a tty_state_scheme" where
  "tty_init s =
     (let color = vga_entry_color (vga_color_value VGA_COLOR_LIGHT_GREY) (vga_color_value VGA_COLOR_BLACK)
      in s\<lparr>mem := clear_rows 0xB8000 (vga_entry 0x20 color) (unat VGA_HEIGHT) 0 (mem s),
           terminal_row := 0, terminal_column := 0, terminal_color := color, terminal_buffer := 0xB8000\<rparr>)"

definition terminal_initialize :: "'a tty_state_scheme \<Rightarrow> 'a tty_state_scheme" where
  "terminal_initialize s = tty_init s"

definition terminal_set_color :: "u8 \<Rightarrow> u8 \<Rightarrow> 'a tty_state_scheme \<Rightarrow> 'a tty_state_scheme" where
  "terminal_set_color fg bg s = s\<lparr>terminal_color := vga_entry_color (ucast fg) (ucast bg)\<rparr>"

text \<open>\<open>if (++terminal_row == VGA_HEIGHT) terminal_row = 0;\<close>\<close>

definition terminal_next_row :: "'a tty_state_scheme \<Rightarrow> 'a tty_state_scheme" where
  "terminal_next_row s =
     s\<lparr>terminal_row := (if terminal_row s + 1 = VGA_HEIGHT then 0 else terminal_row s + 1)\<rparr>"

definition terminal_putchar :: "u8 \<Rightarrow> 'a tty_state_scheme \<Rightarrow> 'a tty_state_scheme" where
  "terminal_putchar c s =
     (if c = 0x0A then terminal_next_row (s\<lparr>terminal_column := 0\<rparr>)
      else
        let index = terminal_row s * VGA_WIDTH + terminal_column s;
            s = s\<lparr>mem := store16 (mem s) (screen_cell (terminal_buffer s) index) (vga_entry c (terminal_color s)),
                  terminal_column := terminal_column s + 1\<rparr>
        in if terminal_column s = VGA_WIDTH then terminal_next_row (s\<lparr>terminal_column := 0\<rparr>) else s)"

fun terminal_write_loop :: "addr \<Rightarrow> u32 \<Rightarrow> nat \<Rightarrow> 'a tty_state_scheme \<Rightarrow> 'a tty_state_scheme" where
  "terminal_write_loop data i 0 s = s"
| "terminal_write_loop data i (Suc n) s =
     terminal_write_loop data (i + 1) n (terminal_putchar (mem s (data + i)) s)"

definition terminal_write :: "addr \<Rightarrow> u32 \<Rightarrow> 'a tty_state_scheme \<Rightarrow> 'a tty_state_scheme" where
  "terminal_write data sz s = terminal_write_loop data 0 (unat sz) s"

definition terminal_puts :: "addr \<Rightarrow> 'a tty_state_scheme \<Rightarrow> 'a tty_state_scheme option" where
  "terminal_puts str s = do { n \<leftarrow> strlen (mem s) str; Some (terminal_write str n s) }"

definition terminal_register_handler :: "addr \<Rightarrow> 'a tty_state_scheme \<Rightarrow> 'a tty_state_scheme" where
  "terminal_register_handler handler s = s"

definition tty_module_init :: "'a tty_state_scheme \<Rightarrow> int \<times> 'a tty_state_scheme" where
  "tty_module_init s = (0, tty_init s)"

subsection \<open>The specification: a list of cells and a cursor\<close>

record terminal =
  term_cells :: "u16 list"
  cursor :: nat
  color :: u8

text \<open>A newline moves to the start of the next row, any other character fills the cell at the
  cursor; after the last screen_cell the cursor starts over at the first one (nothing scrolls).\<close>

definition term_putc :: "u8 \<Rightarrow> terminal \<Rightarrow> terminal" where
  "term_putc c t =
     (if c = 0x0A then t\<lparr>cursor := Suc (cursor t div 80) * 80 mod 2000\<rparr>
      else t\<lparr>term_cells := (term_cells t)[cursor t := vga_entry c (color t)], cursor := Suc (cursor t) mod 2000\<rparr>)"

definition video :: "addr set" where "video = span 0xB8000 4000"

definition screen :: "mem \<Rightarrow> u16 list" where
  "screen m = map (\<lambda>i. load16 m (screen_cell 0xB8000 (of_nat i))) [0..<2000]"

definition tty_ok :: "'a tty_state_scheme \<Rightarrow> bool" where
  "tty_ok s \<longleftrightarrow> terminal_buffer s = 0xB8000 \<and> terminal_row s < VGA_HEIGHT \<and> terminal_column s < VGA_WIDTH"

definition tty_abs :: "'a tty_state_scheme \<Rightarrow> terminal" where
  "tty_abs s = \<lparr>term_cells = screen (mem s), cursor = unat (terminal_row s) * 80 + unat (terminal_column s),
     color = terminal_color s\<rparr>"

subsection \<open>Cells of video memory\<close>

lemma unat_cell: "i < 2000 \<Longrightarrow> unat (screen_cell 0xB8000 (of_nat i)) = 0xB8000 + 2 * i"
proof -
  assume "i < 2000"
  then have "unat (0xB8000 + of_nat (2 * i) :: addr) = unat (0xB8000 :: addr) + 2 * i"
    by (intro unat_add_of_nat) simp
  then show ?thesis
    by (simp add: screen_cell_def)
qed

lemma cell_video: "i < 2000 \<Longrightarrow> span (screen_cell 0xB8000 (of_nat i)) 2 \<subseteq> video"
  by (auto simp: video_def in_span_nowrap unat_cell)

lemma cells_apart: "i < 2000 \<Longrightarrow> k < 2000 \<Longrightarrow> i \<noteq> k
   \<Longrightarrow> span (screen_cell 0xB8000 (of_nat k)) 2 \<inter> span (screen_cell 0xB8000 (of_nat i)) 2 = {}"
  by (cases "i < k") (auto simp: in_span_nowrap unat_cell)

lemma length_screen [simp]: "length (screen m) = 2000"
  by (simp add: screen_def)

lemma screen_store: 
  assumes "k < 2000"
  shows "screen (store16 m (screen_cell 0xB8000 (of_nat k)) v) = (screen m)[k := v]"
proof (rule nth_equalityI)
  fix i
  assume "i < length (screen (store16 m (screen_cell 0xB8000 (of_nat k)) v))"
  then have i: "i < 2000" by simp
  have "load16 (store16 m (screen_cell 0xB8000 (of_nat k)) v) (screen_cell 0xB8000 (of_nat i))
      = load16 m (screen_cell 0xB8000 (of_nat i))" if "i \<noteq> k"
    using cells_apart [OF i assms that] by (intro load16_span store16_other) auto
  with i show "screen (store16 m (screen_cell 0xB8000 (of_nat k)) v) ! i = (screen m)[k := v] ! i"
    by (cases "i = k") (auto simp: screen_def)
qed simp

lemma store_cell_other: "k < 2000 \<Longrightarrow> x \<notin> video \<Longrightarrow> store16 m (screen_cell 0xB8000 (of_nat k)) v x = m x"
  using cell_video by (intro store16_other) blast

lemma screen_cong:
  assumes "\<And>x. x \<in> video \<Longrightarrow> m x = m' x"
  shows "screen m = screen m'"
proof -
  have "load16 m (screen_cell 0xB8000 (of_nat i)) = load16 m' (screen_cell 0xB8000 (of_nat i))" if "i < 2000" for i
    using cell_video [OF that] by (intro load16_span assms) auto
  then show ?thesis by (simp add: screen_def)
qed

subsection \<open>The refinement\<close>

lemma row_cases:
  assumes "terminal_row s < VGA_HEIGHT"
  shows "unat (terminal_row (terminal_next_row s)) = Suc (unat (terminal_row s)) mod 25"
proof -
  from assms have r: "unat (terminal_row s) < 25"
    by (simp add: VGA_HEIGHT_def word32_less_nat)
  then have "unat (terminal_row s + 1) = Suc (unat (terminal_row s))"
    using unat_add_of_nat [of "terminal_row s" 1] by simp
  moreover from this have "terminal_row s + 1 = VGA_HEIGHT \<longleftrightarrow> Suc (unat (terminal_row s)) = 25"
    by (simp add: VGA_HEIGHT_def word_unat_eq_iff)
  ultimately show ?thesis
    using r by (auto simp: terminal_next_row_def)
qed

lemma next_row_simps [simp]:
  "mem (terminal_next_row s) = mem s" "terminal_column (terminal_next_row s) = terminal_column s"
  "terminal_color (terminal_next_row s) = terminal_color s"
  "terminal_buffer (terminal_next_row s) = terminal_buffer s"
  "klog (terminal_next_row s) = klog s" "io (terminal_next_row s) = io s"
  "tty_state.more (terminal_next_row s) = tty_state.more s"
  by (simp_all add: terminal_next_row_def)

lemma next_row_ok: "terminal_row s < VGA_HEIGHT \<Longrightarrow> terminal_row (terminal_next_row s) < VGA_HEIGHT"
  using row_cases [of s] by (simp add: VGA_HEIGHT_def word32_less_nat)

lemma putchar_frame:
  "klog (terminal_putchar c s) = klog s" "io (terminal_putchar c s) = io s"
  "terminal_color (terminal_putchar c s) = terminal_color s"
  "terminal_buffer (terminal_putchar c s) = terminal_buffer s"
  "tty_state.more (terminal_putchar c s) = tty_state.more s"
  by (simp_all add: terminal_putchar_def Let_def)

lemma next_row_newline:
  assumes "tty_ok s"
  shows "tty_ok (terminal_next_row (s\<lparr>terminal_column := 0\<rparr>))"
    "tty_abs (terminal_next_row (s\<lparr>terminal_column := 0\<rparr>))
      = (tty_abs s)\<lparr>cursor := Suc (cursor (tty_abs s) div 80) * 80 mod 2000\<rparr>"
proof -
  let ?s = "s\<lparr>terminal_column := 0\<rparr>"
  from assms have ok: "terminal_row ?s < VGA_HEIGHT" "unat (terminal_column s) < 80"
    by (simp_all add: tty_ok_def VGA_WIDTH_def word32_less_nat)
  with assms next_row_ok [of ?s] show "tty_ok (terminal_next_row ?s)"
    by (simp add: tty_ok_def VGA_WIDTH_def)
  have "Suc r mod 25 * 80 = Suc r * 80 mod 2000" for r :: nat
    by (simp add: mult_mod_left)
  moreover have "(unat (terminal_row s) * 80 + unat (terminal_column s)) div 80 = unat (terminal_row s)"
    using ok(2) by simp
  ultimately show "tty_abs (terminal_next_row ?s)
      = (tty_abs s)\<lparr>cursor := Suc (cursor (tty_abs s) div 80) * 80 mod 2000\<rparr>"
    using row_cases [OF ok(1)] by (simp add: tty_abs_def)
qed

lemma terminal_putchar_refines:
  assumes "tty_ok s"
  shows "tty_ok (terminal_putchar c s)" "tty_abs (terminal_putchar c s) = term_putc c (tty_abs s)"
    "x \<notin> video \<Longrightarrow> mem (terminal_putchar c s) x = mem s x"
proof -
  let ?r = "unat (terminal_row s)" and ?c = "unat (terminal_column s)"
  let ?k = "?r * 80 + ?c" and ?e = "vga_entry c (terminal_color s)"
  let ?w = "s\<lparr>mem := store16 (mem s) (screen_cell (terminal_buffer s) (terminal_row s * VGA_WIDTH + terminal_column s)) ?e,
    terminal_column := terminal_column s + 1\<rparr>"
  have b: "terminal_buffer s = 0xB8000" and r: "?r < 25" and c: "?c < 80" and rh: "terminal_row s < VGA_HEIGHT"
    using assms by (simp_all add: tty_ok_def VGA_HEIGHT_def VGA_WIDTH_def word32_less_nat)
  have idx: "terminal_row s * VGA_WIDTH + terminal_column s = of_nat ?k"
    by (simp add: VGA_WIDTH_def)
  have k: "?k < 2000"
    using r c by simp
  have c1: "unat (terminal_column s + 1) = Suc ?c"
    using unat_add_of_nat [of "terminal_column s" 1] c by simp
  have full: "terminal_column s + 1 = VGA_WIDTH \<longleftrightarrow> Suc ?c = 80"
    by (simp only: word_unat_eq_iff c1 VGA_WIDTH_def) simp
  have screen_w: "screen (mem ?w) = (screen (mem s))[?k := ?e]"
    unfolding idx b using screen_store [OF k, of "mem s" ?e] by simp
  have mem_w: "mem ?w x = mem s x" if "x \<notin> video" for x
    unfolding idx b using store_cell_other [OF k that] by simp
  have res: "terminal_putchar c s = (if c = 0x0A then terminal_next_row (s\<lparr>terminal_column := 0\<rparr>)
     else if Suc ?c = 80 then terminal_next_row (?w\<lparr>terminal_column := 0\<rparr>) else ?w)"
    by (simp add: terminal_putchar_def Let_def full)
  consider (nl) "c = 0x0A" | (wrap) "c \<noteq> 0x0A" "Suc ?c = 80" | (step) "c \<noteq> 0x0A" "Suc ?c < 80"
    using c by linarith
  then have "tty_ok (terminal_putchar c s) \<and> tty_abs (terminal_putchar c s) = term_putc c (tty_abs s)
      \<and> (x \<notin> video \<longrightarrow> mem (terminal_putchar c s) x = mem s x)"
  proof cases
    case nl
    have "terminal_putchar c s = terminal_next_row (s\<lparr>terminal_column := 0\<rparr>)"
      unfolding res using nl by (rule if_P)
    with nl next_row_newline [OF assms] show ?thesis
      by (simp add: term_putc_def)
  next
    case wrap
    let ?v = "s\<lparr>mem := mem ?w\<rparr>"
    have w: "?w\<lparr>terminal_column := 0\<rparr> = ?v\<lparr>terminal_column := 0\<rparr>" by simp
    have "tty_ok ?v" using assms by (simp add: tty_ok_def)
    from next_row_newline [OF this] have v: "tty_ok (terminal_next_row (?v\<lparr>terminal_column := 0\<rparr>))"
      "tty_abs (terminal_next_row (?v\<lparr>terminal_column := 0\<rparr>))
        = (tty_abs ?v)\<lparr>cursor := Suc (cursor (tty_abs ?v) div 80) * 80 mod 2000\<rparr>" .
    have "tty_abs ?v = (tty_abs s)\<lparr>term_cells := (term_cells (tty_abs s))[?k := ?e]\<rparr>"
      using screen_w by (simp add: tty_abs_def)
    moreover have "Suc ?k = Suc ?r * 80" "?k div 80 = ?r"
      using wrap c by simp_all
    ultimately have "(tty_abs ?v)\<lparr>cursor := Suc (cursor (tty_abs ?v) div 80) * 80 mod 2000\<rparr> = term_putc c (tty_abs s)"
      using wrap by (simp add: term_putc_def) (simp add: tty_abs_def)
    with v wrap w mem_w show ?thesis
      by (simp add: res)
  next
    case step
    then have "tty_ok ?w"
      using b rh c1 by (simp add: tty_ok_def VGA_WIDTH_def word32_less_nat)
    moreover have "Suc ?k mod 2000 = ?r * 80 + Suc ?c"
      using step r by simp
    ultimately show ?thesis
      using step screen_w mem_w c1 by (simp add: res tty_abs_def term_putc_def)
  qed
  then show "tty_ok (terminal_putchar c s)" "tty_abs (terminal_putchar c s) = term_putc c (tty_abs s)"
    "x \<notin> video \<Longrightarrow> mem (terminal_putchar c s) x = mem s x"
    by auto
qed

lemma terminal_write_loop_refines:
  assumes "tty_ok s" "span (data + i) n \<inter> video = {}"
  shows "tty_ok (terminal_write_loop data i n s)
    \<and> tty_abs (terminal_write_loop data i n s) = fold term_putc (bytes_at (mem s) (data + i) n) (tty_abs s)
    \<and> (\<forall>x. x \<notin> video \<longrightarrow> mem (terminal_write_loop data i n s) x = mem s x)"
  using assms
proof (induction n arbitrary: i s)
  case 0
  then show ?case by simp
next
  case (Suc n)
  let ?s = "terminal_putchar (mem s (data + i)) s"
  note step = terminal_putchar_refines [OF Suc.prems(1)]
  have disj: "span (data + (i + 1)) n \<inter> video = {}"
    using Suc.prems(2) by (auto simp: span_Suc [of "data + i"] add.assoc)
  have "bytes_at (mem ?s) (data + (i + 1)) n = bytes_at (mem s) (data + (i + 1)) n"
    using disj by (intro bytes_at_span step(3)) auto
  with Suc.IH [OF step(1) disj] step show ?case
    by (simp add: bytes_at_Suc add.assoc)
qed

lemma terminal_write_loop_frame:
  "klog (terminal_write_loop data i n s) = klog s" "io (terminal_write_loop data i n s) = io s"
  "tty_state.more (terminal_write_loop data i n s) = tty_state.more s"
  by (induction n arbitrary: i s) (simp_all add: putchar_frame)

subsection \<open>Clearing the screen\<close>

lemma clear_row_cells:
  assumes "y < 25" "x + n \<le> 80"
  shows "screen (clear_row 0xB8000 v (of_nat y) n (of_nat x) m)
      = map (\<lambda>i. if y * 80 + x \<le> i \<and> i < y * 80 + x + n then v else screen m ! i) [0..<2000]
    \<and> (\<forall>a. a \<notin> video \<longrightarrow> clear_row 0xB8000 v (of_nat y) n (of_nat x) m a = m a)"
  using assms
proof (induction n arbitrary: x m)
  case 0
  show ?case
    by (intro conjI nth_equalityI) auto
next
  case (Suc n)
  let ?k = "y * 80 + x"
  define m' where "m' = store16 m (screen_cell 0xB8000 (of_nat (y * 80 + x))) v"
  have k: "?k < 2000" using Suc.prems by linarith
  have m': "screen m' = (screen m)[?k := v]" "a \<notin> video \<Longrightarrow> m' a = m a" for a
    unfolding m'_def by (rule screen_store [OF k], rule store_cell_other [OF k])
  have "of_nat y * VGA_WIDTH + of_nat x = (of_nat ?k :: u32)" "(of_nat x + 1 :: u32) = of_nat (Suc x)"
    by (simp_all add: VGA_WIDTH_def)
  then have eq: "clear_row 0xB8000 v (of_nat y) (Suc n) (of_nat x) m
      = clear_row 0xB8000 v (of_nat y) n (of_nat (Suc x)) m'"
    by (simp only: clear_row.simps m'_def)
  have ih: "screen (clear_row 0xB8000 v (of_nat y) n (of_nat (Suc x)) m')
      = map (\<lambda>i. if y * 80 + Suc x \<le> i \<and> i < y * 80 + Suc x + n then v else screen m' ! i) [0..<2000]
    \<and> (\<forall>a. a \<notin> video \<longrightarrow> clear_row 0xB8000 v (of_nat y) n (of_nat (Suc x)) m' a = m' a)"
    using Suc.prems by (intro Suc.IH) simp_all
  have "map (\<lambda>i. if y * 80 + Suc x \<le> i \<and> i < y * 80 + Suc x + n then v else screen m' ! i) [0..<2000]
      = map (\<lambda>i. if y * 80 + x \<le> i \<and> i < y * 80 + x + Suc n then v else screen m ! i) [0..<2000]"
    using k by (intro map_cong) (auto simp: m'(1) nth_list_update)
  with ih m'(2) show ?case
    unfolding eq by simp
qed

lemma clear_rows_cells:
  assumes "y + n \<le> 25"
  shows "screen (clear_rows 0xB8000 v n (of_nat y) m)
      = map (\<lambda>i. if y * 80 \<le> i \<and> i < (y + n) * 80 then v else screen m ! i) [0..<2000]
    \<and> (\<forall>a. a \<notin> video \<longrightarrow> clear_rows 0xB8000 v n (of_nat y) m a = m a)"
  using assms
proof (induction n arbitrary: y m)
  case 0
  show ?case
    by (intro conjI nth_equalityI) auto
next
  case (Suc n)
  have w: "unat VGA_WIDTH = 80"
    by (simp add: VGA_WIDTH_def)
  let ?m = "clear_row 0xB8000 v (of_nat y) 80 0 m"
  have row: "screen ?m = map (\<lambda>i. if y * 80 \<le> i \<and> i < y * 80 + 80 then v else screen m ! i) [0..<2000]
    \<and> (\<forall>a. a \<notin> video \<longrightarrow> ?m a = m a)"
    using clear_row_cells [of y 0 80 v m] Suc.prems by simp
  have "clear_rows 0xB8000 v (Suc n) (of_nat y) m = clear_rows 0xB8000 v n (of_nat (Suc y)) ?m"
    by (simp only: clear_rows.simps w) (simp add: add.commute)
  moreover have "screen (clear_rows 0xB8000 v n (of_nat (Suc y)) ?m)
      = map (\<lambda>i. if Suc y * 80 \<le> i \<and> i < (Suc y + n) * 80 then v else screen ?m ! i) [0..<2000]
    \<and> (\<forall>a. a \<notin> video \<longrightarrow> clear_rows 0xB8000 v n (of_nat (Suc y)) ?m a = ?m a)"
    using Suc.prems by (intro Suc.IH) simp
  moreover have "map (\<lambda>i. if Suc y * 80 \<le> i \<and> i < (Suc y + n) * 80 then v else screen ?m ! i) [0..<2000]
      = map (\<lambda>i. if y * 80 \<le> i \<and> i < (y + Suc n) * 80 then v else screen m ! i) [0..<2000]"
    using Suc.prems row by (intro map_cong) (auto simp: not_le not_less)
  ultimately show ?case
    using row by simp
qed

subsection \<open>The properties of the terminal\<close>

text \<open>\<open>tty_init\<close> establishes the invariant of the terminal: the cursor is in the first
  cell, every one of the 2000 cells is a blank in light grey on black, and no byte outside video
  memory has changed.\<close>

theorem tty_init_clears:
  "tty_ok (tty_init s)
   \<and> tty_abs (tty_init s) = \<lparr>term_cells = replicate 2000 0x0720, cursor = 0, color = 7\<rparr>
   \<and> (\<forall>x. x \<notin> video \<longrightarrow> mem (tty_init s) x = mem s x)"
proof -
  have h: "unat VGA_HEIGHT = 25"
    by (simp add: VGA_HEIGHT_def)
  have c: "vga_entry_color (vga_color_value VGA_COLOR_LIGHT_GREY) (vga_color_value VGA_COLOR_BLACK) = 7"
    "vga_entry 0x20 7 = 0x0720"
    by (simp_all add: vga_entry_color_def vga_entry_def)
  have "map (\<lambda>i. if i < 2000 then v else screen m ! i) [0..<2000] = replicate 2000 v" for v m
    by (intro nth_equalityI) simp_all
  then have "screen (clear_rows 0xB8000 v 25 0 m) = replicate 2000 v
      \<and> (\<forall>a. a \<notin> video \<longrightarrow> clear_rows 0xB8000 v 25 0 m a = m a)" for v m
    using clear_rows_cells [of 0 25 v m] by simp
  then show ?thesis
    unfolding tty_init_def Let_def c h by (simp add: tty_ok_def tty_abs_def VGA_WIDTH_def VGA_HEIGHT_def)
qed

text \<open>C29. \<open>terminal_puts\<close> of a C string outside video memory returns and does what writing its
  characters one by one does in the specification: the cells, the cursor (which wraps from the last
  row to the first) and the color agree, the invariant holds again, and no byte outside video
  memory has changed.\<close>

theorem terminal_puts_refines:
  fixes s :: "'a tty_state_scheme"
  assumes "tty_ok s" "cstr_at (mem s) str cs" "length cs < 4294967296" "span str (length cs) \<inter> video = {}"
  shows "\<exists>t. terminal_puts str s = Some t \<and> tty_ok t \<and> tty_abs t = fold term_putc cs (tty_abs s)
    \<and> (\<forall>x. x \<notin> video \<longrightarrow> mem t x = mem s x) \<and> klog t = klog s \<and> io t = io s"
proof -
  have n: "unat (of_nat (length cs) :: u32) = length cs"
    using assms(3) by simp
  have "bytes_at (mem s) str (length cs) = cs"
    using assms(2) by (rule cstr_at_bytes)
  with terminal_write_loop_refines [OF assms(1), of str 0 "length cs"] assms(4) show ?thesis
    by (intro exI [of _ "terminal_write_loop str 0 (length cs) s"])
      (simp add: terminal_puts_def strlen_cstr [OF assms(2)] terminal_write_def n terminal_write_loop_frame)
qed

text \<open>A two-character string, written when the cursor is in the last cell but one.\<close>

definition full_screen :: tty_state where
  "full_screen = \<lparr>mem = (\<lambda>_. 0)(0x1000 := 0x48, 0x1001 := 0x49), klog = [], io = [],
     terminal_row = 24, terminal_column = 79, terminal_color = 7, terminal_buffer = 0xB8000\<rparr>"

theorem terminal_puts_refines_witness:
  "\<exists>t. terminal_puts 0x1000 full_screen = Some t
    \<and> tty_abs t = \<lparr>term_cells = (replicate 2000 0)[1999 := 0x0748, 0 := 0x0749], cursor = 1, color = 7\<rparr>"
proof -
  have ok: "tty_ok full_screen"
    by (simp add: tty_ok_def full_screen_def VGA_WIDTH_def VGA_HEIGHT_def)
  have str: "cstr_at (mem full_screen) 0x1000 [0x48, 0x49]"
    by (simp add: full_screen_def)
  have disj: "span (0x1000 :: addr) (length [0x48, 0x49 :: u8]) \<inter> video = {}"
    unfolding video_def by (rule span_disjoint) simp_all
  have "screen ((\<lambda>_. 0)(0x1000 := a, 0x1001 := b)) = screen (\<lambda>_. 0)" for a b
    by (rule screen_cong) (auto simp: video_def in_span_nowrap)
  then have out: "screen ((\<lambda>_. 0)(0x1000 := a, 0x1001 := b)) = replicate 2000 0" for a b
    by (simp add: screen_def load16_def map_replicate_const)
  have "fold term_putc [0x48, 0x49] (tty_abs full_screen)
      = \<lparr>term_cells = (replicate 2000 0)[1999 := 0x0748, 0 := 0x0749], cursor = 1, color = 7\<rparr>"
    by (simp add: tty_abs_def full_screen_def out term_putc_def vga_entry_def)
  with terminal_puts_refines [OF ok str _ disj] show ?thesis
    by auto
qed

end
