(* ===== verification/Gdt.thy ===== *)
theory Gdt
  imports Mm
begin

text \<open>
  The segment descriptors of kernel/src/gdt/gdt.c. The static tables of gdt.c and the register
  that \<open>lgdt\<close> loads (kernel/src/gdt/gdt_flush.asm) are fields of \<open>gdt_state\<close>. What a descriptor
  means to the processor is read from the 64 bits it has in memory, by the layout of the
  processor's manual; the packed structure is those 64 bits.
\<close>

record gdt_entry =
  limit_low :: u16
  base_low :: u16
  base_middle :: u8
  access :: u8
  granularity :: u8
  base_high :: u8

record gdt_ptr =
  gp_limit :: u16
  gp_base :: u32

record gdt_state = mm_state +
  gdt_entries :: "gdt_entry list"
  gdt_ptr :: gdt_ptr
  gdtr :: gdt_ptr

definition sizeof_gdt_entry :: u32 where "sizeof_gdt_entry = 8"

definition gdt_set_gate :: "nat \<Rightarrow> u32 \<Rightarrow> u32 \<Rightarrow> u8 \<Rightarrow> u8 \<Rightarrow> 'a gdt_state_scheme \<Rightarrow> 'a gdt_state_scheme" where
  "gdt_set_gate num base limit acc gran s =
     s\<lparr>gdt_entries := (gdt_entries s)[num :=
       \<lparr>limit_low = ucast (limit AND 0xFFFF),
        base_low = ucast (base AND 0xFFFF),
        base_middle = ucast (drop_bit 16 base AND 0xFF),
        access = acc,
        granularity = ucast (drop_bit 16 limit AND 0x0F) OR (gran AND 0xF0),
        base_high = ucast (drop_bit 24 base AND 0xFF)\<rparr>]\<rparr>"

text \<open>\<open>lgdt\<close>, and the reload of the segment registers with the selectors 0x08 and 0x10.\<close>

definition gdt_flush :: "'a gdt_state_scheme \<Rightarrow> 'a gdt_state_scheme" where
  "gdt_flush s = s\<lparr>gdtr := gdt_ptr s\<rparr>"

text \<open>\<open>table\<close> is the address of the static array.\<close>

definition init_gdt :: "addr \<Rightarrow> 'a gdt_state_scheme \<Rightarrow> 'a gdt_state_scheme" where
  "init_gdt table s =
     (let s = s\<lparr>gdt_ptr := \<lparr>gp_limit = ucast (sizeof_gdt_entry * 3 - 1), gp_base = table\<rparr>\<rparr>;
          s = gdt_set_gate 0 0 0 0 0 s;
          s = gdt_set_gate 1 0 0xFFFFFFFF 0x9A 0xCF s;
          s = gdt_set_gate 2 0 0xFFFFFFFF 0x92 0xCF s;
          s = gdt_flush s
      in printk (''GDT loaded at 0x%x, limit: 0x%x'' @ nl) s)"

definition gdt_init :: "addr \<Rightarrow> 'a gdt_state_scheme \<Rightarrow> 'a gdt_state_scheme" where
  "gdt_init table s = init_gdt table (printk (''GDT initialization'' @ nl) s)"

subsection \<open>The processor's view of a descriptor\<close>

text \<open>The packed structure, first field at the lowest address, as a little-endian 64-bit value.\<close>

definition gdt_entry_bits :: "gdt_entry \<Rightarrow> u64" where
  "gdt_entry_bits e = ucast (limit_low e) OR push_bit 16 (ucast (base_low e))
     OR push_bit 32 (ucast (base_middle e)) OR push_bit 40 (ucast (access e))
     OR push_bit 48 (ucast (granularity e)) OR push_bit 56 (ucast (base_high e))"

text \<open>Base: bits 16 to 39 and 56 to 63. Limit: bits 0 to 15 and 48 to 51. Access byte: bits 40 to
  47. Flags: bits 52 to 55, the highest of them scales the limit to pages of 4096 bytes.\<close>

definition desc_base :: "u64 \<Rightarrow> u32" where
  "desc_base d = ucast (drop_bit 16 d AND 0xFFFFFF) OR push_bit 24 (ucast (drop_bit 56 d))"

definition desc_limit :: "u64 \<Rightarrow> u32" where
  "desc_limit d = ucast (d AND 0xFFFF) OR push_bit 16 (ucast (drop_bit 48 d AND 0xF))"

definition desc_access :: "u64 \<Rightarrow> u8" where
  "desc_access d = ucast (drop_bit 40 d)"

definition desc_flags :: "u64 \<Rightarrow> u8" where
  "desc_flags d = ucast (drop_bit 52 d AND 0xF)"

definition desc_last_byte :: "u64 \<Rightarrow> u32" where
  "desc_last_byte d =
     (if bit (desc_flags d) 3 then push_bit 12 (desc_limit d) OR 0xFFF else desc_limit d)"

text \<open>The descriptor in slot \<open>n\<close> of the table the processor uses.\<close>

definition descriptor :: "'a gdt_state_scheme \<Rightarrow> nat \<Rightarrow> u64" where
  "descriptor s n = gdt_entry_bits (gdt_entries s ! n)"

lemma low_masks:
  "bit (0xF :: int) n \<longleftrightarrow> n < 4" "bit (0xFF :: int) n \<longleftrightarrow> n < 8" "bit (0xFFFF :: int) n \<longleftrightarrow> n < 16"
  "bit (0xFFFFFF :: int) n \<longleftrightarrow> n < 24"
  using bit_mask_iff [where 'a = int, of 4 n] bit_mask_iff [where 'a = int, of 8 n]
    bit_mask_iff [where 'a = int, of 16 n] bit_mask_iff [where 'a = int, of 24 n]
  by (simp_all add: mask_eq_exp_minus_1)

lemma bit_0xF0: "bit (0xF0 :: int) n \<longleftrightarrow> 4 \<le> n \<and> n < 8"
proof -
  have "(0xF0 :: int) = push_bit 4 0xF" by simp
  then show ?thesis
    by (simp only: bit_push_bit_iff low_masks) auto
qed

lemma bit_gdt_entry_bits:
  "bit (gdt_entry_bits e) n \<longleftrightarrow>
     (if n < 16 then bit (limit_low e) n else if n < 32 then bit (base_low e) (n - 16)
      else if n < 40 then bit (base_middle e) (n - 32) else if n < 48 then bit (access e) (n - 40)
      else if n < 56 then bit (granularity e) (n - 48) else n < 64 \<and> bit (base_high e) (n - 56))"
proof -
  have out: "n < 16" if "bit (w :: u16) n" for w n
    using bit_imp_le_length [OF that] by simp
  have out8: "n < 8" if "bit (w :: u8) n" for w n
    using bit_imp_le_length [OF that] by simp
  consider "n < 16" | "16 \<le> n" "n < 32" | "32 \<le> n" "n < 40" | "40 \<le> n" "n < 48" | "48 \<le> n" "n < 56" | "56 \<le> n"
    by linarith
  then show ?thesis
    by cases (auto simp: gdt_entry_bits_def bit_simps dest: out out8)
qed

text \<open>What the fields hold after \<open>gdt_set_gate\<close>, bit by bit.\<close>

definition gate_entry :: "u32 \<Rightarrow> u32 \<Rightarrow> u8 \<Rightarrow> u8 \<Rightarrow> gdt_entry" where
  "gate_entry base limit acc gran =
     \<lparr>limit_low = ucast (limit AND 0xFFFF), base_low = ucast (base AND 0xFFFF),
      base_middle = ucast (drop_bit 16 base AND 0xFF), access = acc,
      granularity = ucast (drop_bit 16 limit AND 0x0F) OR (gran AND 0xF0),
      base_high = ucast (drop_bit 24 base AND 0xFF)\<rparr>"

lemma gate_entry_bits:
  "n < 16 \<Longrightarrow> bit (limit_low (gate_entry base limit acc gran)) n \<longleftrightarrow> bit limit n"
  "n < 16 \<Longrightarrow> bit (base_low (gate_entry base limit acc gran)) n \<longleftrightarrow> bit base n"
  "n < 8 \<Longrightarrow> bit (base_middle (gate_entry base limit acc gran)) n \<longleftrightarrow> bit base (16 + n)"
  "n < 8 \<Longrightarrow> bit (base_high (gate_entry base limit acc gran)) n \<longleftrightarrow> bit base (24 + n)"
  "n < 4 \<Longrightarrow> bit (granularity (gate_entry base limit acc gran)) n \<longleftrightarrow> bit limit (16 + n)"
  "4 \<le> n \<Longrightarrow> n < 8 \<Longrightarrow> bit (granularity (gate_entry base limit acc gran)) n \<longleftrightarrow> bit gran n"
  "access (gate_entry base limit acc gran) = acc"
  by (simp_all add: gate_entry_def bit_simps low_masks bit_0xF0)

lemma gate_entry_base: "desc_base (gdt_entry_bits (gate_entry base limit acc gran)) = base"
proof (rule bit_word_eqI)
  fix n
  assume "n < LENGTH(32)"
  then consider "n < 16" | "16 \<le> n" "n < 24" | "24 \<le> n" "n < 32"
    by fastforce
  then show "bit (desc_base (gdt_entry_bits (gate_entry base limit acc gran))) n \<longleftrightarrow> bit base n"
    by cases (auto simp: desc_base_def bit_simps low_masks bit_gdt_entry_bits gate_entry_bits)
qed

lemma gate_entry_limit: "desc_limit (gdt_entry_bits (gate_entry base limit acc gran)) = limit AND mask 20"
proof (rule bit_word_eqI)
  fix n
  assume "n < LENGTH(32)"
  then consider "n < 16" | "16 \<le> n" "n < 20" | "20 \<le> n" "n < 32"
    by fastforce
  then show "bit (desc_limit (gdt_entry_bits (gate_entry base limit acc gran))) n \<longleftrightarrow> bit (limit AND mask 20) n"
    by cases (auto simp: desc_limit_def bit_simps low_masks bit_gdt_entry_bits gate_entry_bits)
qed

lemma gate_entry_access: "desc_access (gdt_entry_bits (gate_entry base limit acc gran)) = acc"
  by (rule bit_word_eqI) (simp add: desc_access_def bit_simps bit_gdt_entry_bits gate_entry_bits)

lemma gate_entry_flags: "desc_flags (gdt_entry_bits (gate_entry base limit acc gran)) = drop_bit 4 gran"
proof (rule bit_word_eqI)
  fix n
  assume "n < LENGTH(8)"
  then consider "n < 4" | "4 \<le> n" "n < 8"
    by fastforce
  then show "bit (desc_flags (gdt_entry_bits (gate_entry base limit acc gran))) n \<longleftrightarrow> bit (drop_bit 4 gran) n"
    using bit_imp_le_length [of gran "4 + n"]
    by cases (auto simp: desc_flags_def bit_simps low_masks bit_gdt_entry_bits gate_entry_bits)
qed

lemma gdt_set_gate_entries:
  "gdt_entries (gdt_set_gate n base limit acc gran s) = (gdt_entries s)[n := gate_entry base limit acc gran]"
  by (simp add: gdt_set_gate_def gate_entry_def)

subsection \<open>The properties of the descriptor table\<close>

text \<open>What \<open>gdt_set_gate\<close> stores is what the processor reads back: of any base, limit, access
  byte and flags the descriptor in memory has exactly that base and access byte, the low 20 bits of
  the limit and the high half of the flags; the other slots keep their descriptors.\<close>

theorem gdt_set_gate_roundtrip:
  assumes "n < length (gdt_entries s)"
  shows "desc_base (descriptor (gdt_set_gate n base limit acc gran s) n) = base
    \<and> desc_limit (descriptor (gdt_set_gate n base limit acc gran s) n) = limit AND mask 20
    \<and> desc_access (descriptor (gdt_set_gate n base limit acc gran s) n) = acc
    \<and> desc_flags (descriptor (gdt_set_gate n base limit acc gran s) n) = drop_bit 4 gran
    \<and> (\<forall>k. k \<noteq> n \<longrightarrow> descriptor (gdt_set_gate n base limit acc gran s) k = descriptor s k)"
  using assms
  by (simp add: descriptor_def gdt_set_gate_entries gate_entry_base gate_entry_limit gate_entry_access gate_entry_flags)

definition no_tables :: gdt_state where
  "no_tables = \<lparr>mem = (\<lambda>_. 0), klog = [], io = [], heap_start = 0, heap_end = 0, first_block = 0,
     mm_stats = \<lparr>total_memory = 0, heap_size = 0, allocated = 0, alloc_count = 0, free_count = 0\<rparr>,
     gdt_entries = replicate 3 \<lparr>limit_low = 0, base_low = 0, base_middle = 0, access = 0, granularity = 0, base_high = 0\<rparr>,
     gdt_ptr = \<lparr>gp_limit = 0, gp_base = 0\<rparr>, gdtr = \<lparr>gp_limit = 0, gp_base = 0\<rparr>\<rparr>"

theorem gdt_set_gate_roundtrip_witness:
  "desc_base (descriptor (gdt_set_gate 1 0x12345678 0xFFABCDE 0x9A 0xCF no_tables) 1) = 0x12345678
   \<and> desc_limit (descriptor (gdt_set_gate 1 0x12345678 0xFFABCDE 0x9A 0xCF no_tables) 1) = 0xABCDE
   \<and> desc_flags (descriptor (gdt_set_gate 1 0x12345678 0xFFABCDE 0x9A 0xCF no_tables) 1) = 0xC"
proof -
  have "1 < length (gdt_entries no_tables)"
    by (simp add: no_tables_def)
  from gdt_set_gate_roundtrip [OF this, of "0x12345678" "0xFFABCDE" "0x9A" "0xCF"] show ?thesis
    by (simp add: mask_eq_exp_minus_1)
qed

lemma sizeof_table: "ucast (sizeof_gdt_entry * 3 - 1) = (23 :: u16)"
  by (simp add: sizeof_gdt_entry_def)

lemma gdt_init_simps [simp]:
  "mem (gdt_init table s) = mem s" "io (gdt_init table s) = io s"
  "gdtr (gdt_init table s) = \<lparr>gp_limit = 23, gp_base = table\<rparr>"
  "gdt_ptr (gdt_init table s) = \<lparr>gp_limit = 23, gp_base = table\<rparr>"
  "gdt_state.more (gdt_init table s) = gdt_state.more s"
  "heap_start (gdt_init table s) = heap_start s" "heap_end (gdt_init table s) = heap_end s"
  "mm_stats (gdt_init table s) = mm_stats s" "first_block (gdt_init table s) = first_block s"
  by (simp_all add: gdt_init_def init_gdt_def gdt_set_gate_def gdt_flush_def printk_def sizeof_table Let_def)

lemma gdt_init_entries:
  "gdt_entries (gdt_init table s) = (gdt_entries s)[0 := gate_entry 0 0 0 0,
     1 := gate_entry 0 0xFFFFFFFF 0x9A 0xCF, 2 := gate_entry 0 0xFFFFFFFF 0x92 0xCF]"
  by (simp add: gdt_init_def init_gdt_def gdt_flush_def printk_def gdt_set_gate_entries Let_def)

text \<open>After \<open>gdt_init\<close> the processor sees a null descriptor and two segments of all 4 GiB, so that
  a pointer is a physical address.\<close>

definition flat_segment :: "u8 \<Rightarrow> u64 \<Rightarrow> bool" where
  "flat_segment acc d \<longleftrightarrow> desc_base d = 0 \<and> desc_last_byte d = 0xFFFFFFFF \<and> desc_access d = acc"

lemma gdt_init_flat:
  assumes "length (gdt_entries s) = 3"
  shows "descriptor (gdt_init table s) 0 = 0" "flat_segment 0x9A (descriptor (gdt_init table s) 1)"
    "flat_segment 0x92 (descriptor (gdt_init table s) 2)"
  using assms
  by (simp_all add: flat_segment_def descriptor_def gdt_init_entries)
    (simp_all add: gate_entry_def gdt_entry_bits_def desc_base_def desc_last_byte_def desc_flags_def
      desc_limit_def desc_access_def)

end
