(* ===== verification/Interrupts.thy ===== *)
theory Interrupts
  imports Gdt Console
begin

text \<open>
  kernel/src/interrupts: the interrupt controllers (pic.c), the dispatch of hardware interrupts
  (irq.c), the second handler table (irq_handlers.c), the interrupt descriptor table (idt.c) and
  the exception printer (exceptions.c, isr.c). The static tables are fields of
  \<open>interrupt_state\<close>; a function pointer is an address, and what the code at an address of a driver
  does is the parameter \<open>call\<close>.
\<close>

subsection \<open>pic.c\<close>

definition PIC1_COMMAND :: u16 where "PIC1_COMMAND = 0x20"
definition PIC1_DATA :: u16 where "PIC1_DATA = 0x21"
definition PIC2_COMMAND :: u16 where "PIC2_COMMAND = 0xA0"
definition PIC2_DATA :: u16 where "PIC2_DATA = 0xA1"
definition ICW1_INIT :: u8 where "ICW1_INIT = 0x10"
definition ICW1_ICW4 :: u8 where "ICW1_ICW4 = 0x01"
definition ICW4_8086 :: u8 where "ICW4_8086 = 0x01"
definition PIC_EOI :: u8 where "PIC_EOI = 0x20"

lemmas pic_ports = PIC1_COMMAND_def PIC1_DATA_def PIC2_COMMAND_def PIC2_DATA_def

definition pic_remap :: "device \<Rightarrow> u32 \<Rightarrow> u32 \<Rightarrow> 'a machine_scheme \<Rightarrow> 'a machine_scheme" where
  "pic_remap dev offset1 offset2 s =
     (let (a1, s) = inb dev PIC1_DATA s;
          (a2, s) = inb dev PIC2_DATA s;
          s = outb PIC1_COMMAND (ICW1_INIT OR ICW1_ICW4) s;
          s = outb PIC2_COMMAND (ICW1_INIT OR ICW1_ICW4) s;
          s = outb PIC1_DATA (ucast offset1) s;
          s = outb PIC2_DATA (ucast offset2) s;
          s = outb PIC1_DATA 4 s;
          s = outb PIC2_DATA 2 s;
          s = outb PIC1_DATA ICW4_8086 s;
          s = outb PIC2_DATA ICW4_8086 s;
          s = outb PIC1_DATA a1 s;
          s = outb PIC2_DATA a2 s;
          s = outb PIC1_DATA 0xFF s;
          s = outb PIC2_DATA 0xFF s
      in printk (''PIC remapped and all interrupts masked'' @ nl) s)"

text \<open>The port and the bit of an interrupt line; the shift is done on \<open>int\<close>.\<close>

definition pic_line :: "u8 \<Rightarrow> u16 \<times> u8" where
  "pic_line irq_line = (if irq_line < 8 then (PIC1_DATA, irq_line) else (PIC2_DATA, irq_line - 8))"

definition pic_set_mask :: "device \<Rightarrow> u8 \<Rightarrow> 'a machine_scheme \<Rightarrow> 'a machine_scheme" where
  "pic_set_mask dev irq_line s =
     (let (port, line) = pic_line irq_line;
          (v, s) = inb dev port s
      in outb port (ucast ((ucast v :: u32) OR push_bit (unat line) 1)) s)"

definition pic_clear_mask :: "device \<Rightarrow> u8 \<Rightarrow> 'a machine_scheme \<Rightarrow> 'a machine_scheme" where
  "pic_clear_mask dev irq_line s =
     (let (port, line) = pic_line irq_line;
          (v, s) = inb dev port s
      in outb port (ucast ((ucast v :: u32) AND NOT (push_bit (unat line) 1))) s)"

definition pic_send_eoi :: "u8 \<Rightarrow> 'a machine_scheme \<Rightarrow> 'a machine_scheme" where
  "pic_send_eoi irq s =
     outb PIC1_COMMAND PIC_EOI (if irq \<ge> 8 then outb PIC2_COMMAND PIC_EOI s else s)"

subsection \<open>idt.c\<close>

record idt_entry =
  idt_base_low :: u16
  sel :: u16
  always0 :: u8
  flags :: u8
  idt_base_high :: u16

record idt_ptr =
  ip_limit :: u16
  ip_base :: u32

text \<open>A pointer to a handler: the default handler of irq.c, or code of a driver.\<close>

datatype irq_handler_t = Default_irq_handler | Driver_handler addr

record interrupt_state = gdt_state +
  idt_entries :: "idt_entry list"
  idt_ptr :: idt_ptr
  idtr :: idt_ptr
  irq_handlers :: "irq_handler_t option list"
  driver_irq_handlers :: "addr list"

definition sizeof_idt_entry :: u32 where "sizeof_idt_entry = 8"

definition idt_set_gate :: "u8 \<Rightarrow> u32 \<Rightarrow> u16 \<Rightarrow> u8 \<Rightarrow> 'a interrupt_state_scheme \<Rightarrow> 'a interrupt_state_scheme" where
  "idt_set_gate num base sl fl s =
     s\<lparr>idt_entries := (idt_entries s)[unat num :=
       \<lparr>idt_base_low = ucast (base AND 0xFFFF), sel = sl, always0 = 0, flags = fl,
        idt_base_high = ucast (drop_bit 16 base AND 0xFFFF)\<rparr>]\<rparr>"

definition null_idt_entry :: idt_entry where
  "null_idt_entry = \<lparr>idt_base_low = 0, sel = 0, always0 = 0, flags = 0, idt_base_high = 0\<rparr>"

text \<open>The loop that clears entries \<open>i\<close> to \<open>i + n - 1\<close>.\<close>

fun idt_clear :: "nat \<Rightarrow> nat \<Rightarrow> idt_entry list \<Rightarrow> idt_entry list" where
  "idt_clear i 0 es = es"
| "idt_clear i (Suc n) es = idt_clear (Suc i) n (es[i := null_idt_entry])"

definition load_idt :: "'a interrupt_state_scheme \<Rightarrow> 'a interrupt_state_scheme" where
  "load_idt s = s\<lparr>idtr := idt_ptr s\<rparr>"

text \<open>\<open>table\<close> is the address of the static array, \<open>isr n\<close> that of the assembler routine \<open>isrn\<close>.\<close>

definition idt_init :: "addr \<Rightarrow> (nat \<Rightarrow> addr) \<Rightarrow> 'a interrupt_state_scheme \<Rightarrow> 'a interrupt_state_scheme" where
  "idt_init table isr s =
     (let s = cli s;
          s = printk (''Initializing IDT...'' @ nl) s;
          s = s\<lparr>idt_ptr := \<lparr>ip_limit = ucast (sizeof_idt_entry * 256 - 1), ip_base = table\<rparr>\<rparr>;
          s = printk (''IDT pointer: base=0x%x, limit=0x%x'' @ nl) s;
          s = s\<lparr>idt_entries := idt_clear 0 256 (idt_entries s)\<rparr>;
          s = idt_set_gate 0 (isr 0) 0x08 0x8E s;
          s = idt_set_gate 6 (isr 6) 0x08 0x8E s;
          s = idt_set_gate 8 (isr 8) 0x08 0x8E s;
          s = idt_set_gate 13 (isr 13) 0x08 0x8E s;
          s = idt_set_gate 14 (isr 14) 0x08 0x8E s;
          s = load_idt s;
          s = sti s
      in printk (''IDT initialization complete'' @ nl) s)"

subsection \<open>irq.c\<close>

definition default_irq_handler :: "'a interrupt_state_scheme \<Rightarrow> 'a interrupt_state_scheme" where
  "default_irq_handler s = printk (''Unhandled IRQ occurred!'' @ nl) s"

definition irq_register_handler ::
    "int \<Rightarrow> irq_handler_t option \<Rightarrow> 'a interrupt_state_scheme \<Rightarrow> 'a interrupt_state_scheme" where
  "irq_register_handler irq handler s =
     (if irq \<ge> 0 \<and> irq < 16 then s\<lparr>irq_handlers := (irq_handlers s)[nat irq := handler]\<rparr> else s)"

definition irq_unregister_handler :: "int \<Rightarrow> 'a interrupt_state_scheme \<Rightarrow> 'a interrupt_state_scheme" where
  "irq_unregister_handler irq s =
     (if irq \<ge> 0 \<and> irq < 16
      then s\<lparr>irq_handlers := (irq_handlers s)[nat irq := Some Default_irq_handler]\<rparr> else s)"

type_synonym 'a driver_code = "addr \<Rightarrow> 'a interrupt_state_scheme \<Rightarrow> 'a interrupt_state_scheme"

fun call_handler :: "'a driver_code \<Rightarrow> irq_handler_t \<Rightarrow> 'a interrupt_state_scheme \<Rightarrow> 'a interrupt_state_scheme" where
  "call_handler call Default_irq_handler s = default_irq_handler s"
| "call_handler call (Driver_handler a) s = call a s"

text \<open>\<open>int_no\<close> is the field of the frame.\<close>

definition irq_handler :: "'a driver_code \<Rightarrow> u32 \<Rightarrow> 'a interrupt_state_scheme \<Rightarrow> 'a interrupt_state_scheme" where
  "irq_handler call int_no s =
     (let s = (if int_no \<ge> 32 \<and> int_no < 48
               then (case irq_handlers s ! unat (int_no - 32) of
                       Some h \<Rightarrow> call_handler call h s
                     | None \<Rightarrow> s)
               else s)
      in pic_send_eoi (ucast (int_no - 32)) s)"

fun irq_default_loop :: "nat \<Rightarrow> nat \<Rightarrow> irq_handler_t option list \<Rightarrow> irq_handler_t option list" where
  "irq_default_loop i 0 hs = hs"
| "irq_default_loop i (Suc n) hs = irq_default_loop (Suc i) n (hs[i := Some Default_irq_handler])"

definition irq_init :: "device \<Rightarrow> 'a interrupt_state_scheme \<Rightarrow> 'a interrupt_state_scheme" where
  "irq_init dev s =
     (let s = printk (''Initializing IRQ...'' @ nl) s;
          s = s\<lparr>irq_handlers := irq_default_loop 0 16 (irq_handlers s)\<rparr>;
          s = pic_remap dev 0x20 0x28 s
      in printk (''IRQ initialized'' @ nl) s)"

subsection \<open>irq_handlers.c, exceptions.c and isr.c\<close>

text \<open>irq_handlers.c has a table of its own, which nothing dispatches from.\<close>

definition register_irq_handler :: "u32 \<Rightarrow> addr \<Rightarrow> 'a interrupt_state_scheme \<Rightarrow> 'a interrupt_state_scheme" where
  "register_irq_handler irq handler s =
     (if irq < 16
      then printk (''Registered handler for IRQ %u'' @ nl)
             (s\<lparr>driver_irq_handlers := (driver_irq_handlers s)[unat irq := handler]\<rparr>)
      else s)"

definition exception_handler :: "u32 \<Rightarrow> 'a machine_scheme \<Rightarrow> 'a machine_scheme outcome" where
  "exception_handler int_no s = Halted (printk (''Basic exception handler: Exception %d'' @ nl) s)"

definition exceptions_init :: "'a machine_scheme \<Rightarrow> 'a machine_scheme" where
  "exceptions_init s = printk (''Basic exceptions system initialized'' @ nl) s"

definition exceptions_module_init :: "'a machine_scheme \<Rightarrow> int \<times> 'a machine_scheme" where
  "exceptions_module_init s = (0, exceptions_init s)"

definition isr_install :: "'a machine_scheme \<Rightarrow> 'a machine_scheme" where
  "isr_install s = printk (''ISR: Using simple stub handlers'' @ nl) s"

end
