(* ===== verification/Interrupts_Props.thy ===== *)
theory Interrupts_Props
  imports Interrupts
begin

text \<open>
  The properties of the interrupt components. The controllers are specified by the registers of
  an 8259A (Intel's data sheet) as a function of the port accesses the kernel has made; the
  descriptor table by the gates the processor reads from it; the dispatch by the table of the
  handlers registered last.
\<close>

subsection \<open>The 8259A interrupt controller\<close>

text \<open>Which initialization word the controller expects at its data port; the interrupt vector of its
  line 0; its mask; the number of end-of-interrupt commands it has received.\<close>

datatype pic_phase = Operating | Icw2 | Icw3 | Icw4

record pic_chip =
  phase :: pic_phase
  vector_base :: u8
  imr :: u8
  eois :: nat

text \<open>A command byte with bit 4 starts the initialization and clears the mask; 0x20 is the
  non-specific end of interrupt. At the data port come the vector base (its three low bits are
  ignored), the cascade wiring and the mode, and from then on masks. Both controllers are cascaded
  and get a mode word, as the first byte of the kernel, 0x11, says.\<close>

fun pic_write :: "bool \<Rightarrow> u8 \<Rightarrow> pic_chip \<Rightarrow> pic_chip" where
  "pic_write True v c =
     (if bit v 4 then c\<lparr>phase := Icw2, imr := 0\<rparr>
      else if v = 0x20 then c\<lparr>eois := Suc (eois c)\<rparr> else c)"
| "pic_write False v c =
     (case phase c of
        Icw2 \<Rightarrow> c\<lparr>phase := Icw3, vector_base := v AND 0xF8\<rparr>
      | Icw3 \<Rightarrow> c\<lparr>phase := Icw4\<rparr>
      | Icw4 \<Rightarrow> c\<lparr>phase := Operating\<rparr>
      | Operating \<Rightarrow> c\<lparr>imr := v\<rparr>)"

text \<open>The controller with the given command port (the data port is the next one) after a history.\<close>

fun pic_event :: "u16 \<Rightarrow> io_event \<Rightarrow> pic_chip \<Rightarrow> pic_chip" where
  "pic_event port (Outb p v) c =
     (if p = port then pic_write True v c else if p = port + 1 then pic_write False v c else c)"
| "pic_event port (Inb p v) c = c"
| "pic_event port (Inw p v) c = c"
| "pic_event port (Outw p v) c = c"
| "pic_event port Cli c = c"
| "pic_event port Sti c = c"

definition pic_after :: "u16 \<Rightarrow> pic_chip \<Rightarrow> io_event list \<Rightarrow> pic_chip" where
  "pic_after port c h = fold (pic_event port) h c"

lemma pic_after_simps [simp]:
  "pic_after port c [] = c" "pic_after port c (h @ h') = pic_after port (pic_after port c h) h'"
  "pic_after port c (e # h) = pic_after port (pic_event port e c) h"
  by (simp_all add: pic_after_def)

text \<open>The vector of a line of a controller.\<close>

definition line_vector :: "pic_chip \<Rightarrow> nat \<Rightarrow> nat" where
  "line_vector c n = unat (vector_base c) + n"

lemma pic_remap_io:
  "\<exists>a1 a2. io (pic_remap dev offset1 offset2 s) = io s @
     [Inb PIC1_DATA a1, Inb PIC2_DATA a2, Outb PIC1_COMMAND 0x11, Outb PIC2_COMMAND 0x11,
      Outb PIC1_DATA (ucast offset1), Outb PIC2_DATA (ucast offset2), Outb PIC1_DATA 4, Outb PIC2_DATA 2,
      Outb PIC1_DATA 1, Outb PIC2_DATA 1, Outb PIC1_DATA a1, Outb PIC2_DATA a2,
      Outb PIC1_DATA 0xFF, Outb PIC2_DATA 0xFF]"
  by (simp add: pic_remap_def inb_def outb_def Let_def ICW1_INIT_def ICW1_ICW4_def ICW4_8086_def)

lemma pic_remap_other [simp]:
  "mem (pic_remap dev offset1 offset2 s) = mem s"
  "klog (pic_remap dev offset1 offset2 s) = klog s @ [''PIC remapped and all interrupts masked'' @ nl]"
  "machine.more (pic_remap dev offset1 offset2 s) = machine.more s"
  by (simp_all add: pic_remap_def inb_def outb_def printk_def Let_def)

definition remapped :: "u32 \<Rightarrow> pic_chip \<Rightarrow> pic_chip" where
  "remapped offset c = c\<lparr>phase := Operating, vector_base := ucast offset AND 0xF8, imr := 0xFF\<rparr>"

lemma pic_remap_chips:
  "pic_after PIC1_COMMAND c (io (pic_remap dev offset1 offset2 s)) = remapped offset1 (pic_after PIC1_COMMAND c (io s))"
  "pic_after PIC2_COMMAND c (io (pic_remap dev offset1 offset2 s)) = remapped offset2 (pic_after PIC2_COMMAND c (io s))"
proof -
  obtain a1 a2 where io: "io (pic_remap dev offset1 offset2 s) = io s @
     [Inb PIC1_DATA a1, Inb PIC2_DATA a2, Outb PIC1_COMMAND 0x11, Outb PIC2_COMMAND 0x11,
      Outb PIC1_DATA (ucast offset1), Outb PIC2_DATA (ucast offset2), Outb PIC1_DATA 4, Outb PIC2_DATA 2,
      Outb PIC1_DATA 1, Outb PIC2_DATA 1, Outb PIC1_DATA a1, Outb PIC2_DATA a2,
      Outb PIC1_DATA 0xFF, Outb PIC2_DATA 0xFF]"
    using pic_remap_io [of dev offset1 offset2 s] by auto
  have b: "bit (0x11 :: u8) 4"
    by simp
  show "pic_after PIC1_COMMAND c (io (pic_remap dev offset1 offset2 s)) = remapped offset1 (pic_after PIC1_COMMAND c (io s))"
    "pic_after PIC2_COMMAND c (io (pic_remap dev offset1 offset2 s)) = remapped offset2 (pic_after PIC2_COMMAND c (io s))"
    unfolding io by (simp_all add: pic_ports b remapped_def)
qed

text \<open>\<open>pic_remap\<close> initializes both interrupt controllers completely, whatever state they were
  in: they are operating, their vectors start at the given offsets (cut to a multiple of 8), and every
  line is masked: the masks read before are written back and at once overwritten.\<close>

theorem pic_remap_initializes:
  fixes s :: "'a machine_scheme"
  shows "phase (pic_after PIC1_COMMAND c (io (pic_remap dev offset1 offset2 s))) = Operating
    \<and> phase (pic_after PIC2_COMMAND d (io (pic_remap dev offset1 offset2 s))) = Operating
    \<and> vector_base (pic_after PIC1_COMMAND c (io (pic_remap dev offset1 offset2 s))) = ucast offset1 AND 0xF8
    \<and> vector_base (pic_after PIC2_COMMAND d (io (pic_remap dev offset1 offset2 s))) = ucast offset2 AND 0xF8
    \<and> imr (pic_after PIC1_COMMAND c (io (pic_remap dev offset1 offset2 s))) = 0xFF
    \<and> imr (pic_after PIC2_COMMAND d (io (pic_remap dev offset1 offset2 s))) = 0xFF
    \<and> mem (pic_remap dev offset1 offset2 s) = mem s"
  by (simp add: pic_remap_chips remapped_def)

subsection \<open>Masks and end of interrupt\<close>

text \<open>The mask of line \<open>n\<close> of the pair of controllers.\<close>

definition line_masked :: "pic_chip \<Rightarrow> pic_chip \<Rightarrow> nat \<Rightarrow> bool" where
  "line_masked c d n \<longleftrightarrow> (if n < 8 then bit (imr c) n else bit (imr d) (n - 8))"

text \<open>A controller in operation answers a read of its data port with its mask.\<close>

definition answers_mask :: "device \<Rightarrow> pic_chip \<Rightarrow> pic_chip \<Rightarrow> io_event list \<Rightarrow> bool" where
  "answers_mask dev c d h \<longleftrightarrow>
     phase (pic_after PIC1_COMMAND c h) = Operating \<and> phase (pic_after PIC2_COMMAND d h) = Operating
     \<and> dev h PIC1_DATA = ucast (imr (pic_after PIC1_COMMAND c h))
     \<and> dev h PIC2_DATA = ucast (imr (pic_after PIC2_COMMAND d h))"

text \<open>The mask the kernel writes back.\<close>

lemma set_mask_bit: "k < 8 \<Longrightarrow> line < 8 \<Longrightarrow>
    bit (ucast ((ucast (v :: u8) :: u32) OR 2 ^ line) :: u8) k \<longleftrightarrow> bit v k \<or> k = line"
  by (auto simp: bit_simps)

lemma clear_mask_bit: "k < 8 \<Longrightarrow> line < 8 \<Longrightarrow>
    bit (ucast ((ucast (v :: u8) :: u32) AND NOT (2 ^ line)) :: u8) k \<longleftrightarrow> bit v k \<and> k \<noteq> line"
  by (auto simp: bit_simps)

lemma u8_u16 [simp]: "ucast (ucast (v :: u8) :: u16) = v"
  by (rule bit_word_eqI) (simp add: bit_simps)

lemma bit_imr_less: "bit (imr c) k \<Longrightarrow> k < 8"
  using bit_imp_le_length [of "imr c" k] by simp

lemma pic_line_cases:
  "irq < 8 \<Longrightarrow> pic_line irq = (PIC1_DATA, irq) \<and> unat irq < 8"
  "8 \<le> irq \<Longrightarrow> irq < 16 \<Longrightarrow> pic_line irq = (PIC2_DATA, irq - 8) \<and> unat (irq - 8) = unat irq - 8 \<and> unat irq < 16 \<and> 8 \<le> unat irq"
  by (auto simp: pic_line_def word_less_nat_alt word_le_nat_alt unat_sub)

text \<open>On controllers in operation, \<open>pic_set_mask\<close> masks exactly the given line and
  \<open>pic_clear_mask\<close> unmasks exactly the given line; the masks of the other fifteen lines stay.\<close>

theorem pic_mask_lines:
  fixes s :: "'a machine_scheme"
  assumes "answers_mask dev c d (io s)" "irq < 16" "n < 16"
  shows "(line_masked (pic_after PIC1_COMMAND c (io (pic_set_mask dev irq s))) (pic_after PIC2_COMMAND d (io (pic_set_mask dev irq s))) n
      \<longleftrightarrow> line_masked (pic_after PIC1_COMMAND c (io s)) (pic_after PIC2_COMMAND d (io s)) n \<or> n = unat irq)
    \<and> (line_masked (pic_after PIC1_COMMAND c (io (pic_clear_mask dev irq s))) (pic_after PIC2_COMMAND d (io (pic_clear_mask dev irq s))) n
      \<longleftrightarrow> line_masked (pic_after PIC1_COMMAND c (io s)) (pic_after PIC2_COMMAND d (io s)) n \<and> n \<noteq> unat irq)"
proof (cases "irq < 8")
  case True
  with pic_line_cases(1) [OF True] assms show ?thesis
    by (simp add: pic_set_mask_def pic_clear_mask_def inb_def outb_def Let_def answers_mask_def line_masked_def pic_ports
        set_mask_bit clear_mask_bit)
next
  case False
  then have "8 \<le> irq" by simp
  from pic_line_cases(2) [OF this assms(2)] have line: "pic_line irq = (PIC2_DATA, irq - 8)"
    "unat (irq - 8) = unat irq - 8" "8 \<le> unat irq" "unat irq - 8 < 8"
    by auto
  have "n - 8 < 8" "\<not> n < 8 \<Longrightarrow> n - 8 = unat irq - 8 \<longleftrightarrow> n = unat irq" "n < 8 \<Longrightarrow> n \<noteq> unat irq"
    using assms(3) line(3) by auto
  with line assms show ?thesis
    by (simp add: pic_set_mask_def pic_clear_mask_def inb_def outb_def Let_def answers_mask_def line_masked_def pic_ports
        set_mask_bit clear_mask_bit)
qed

text \<open>Controllers in operation with all lines masked but line 0, and a device that answers so.\<close>

definition pic_tests :: "machine" where
  "pic_tests = \<lparr>mem = (\<lambda>_. 0), klog = [], io = []\<rparr>"

definition chip_with_mask :: "u8 \<Rightarrow> pic_chip" where
  "chip_with_mask v = \<lparr>phase = Operating, vector_base = 0x20, imr = v, eois = 0\<rparr>"

theorem pic_mask_lines_witness:
  "\<not> line_masked (pic_after PIC1_COMMAND (chip_with_mask 0xFF) (io (pic_clear_mask (\<lambda>_ _. 0xFF) 1 pic_tests)))
      (pic_after PIC2_COMMAND (chip_with_mask 0xFF) (io (pic_clear_mask (\<lambda>_ _. 0xFF) 1 pic_tests))) 1"
proof -
  have "answers_mask (\<lambda>_ _. 0xFF) (chip_with_mask 0xFF) (chip_with_mask 0xFF) (io pic_tests)"
    by (simp add: answers_mask_def chip_with_mask_def pic_tests_def)
  from pic_mask_lines [OF this, of 1 1] show ?thesis
    by simp
qed

subsection \<open>Gates\<close>

text \<open>The packed structure of a gate as a little-endian 64-bit value, and how the processor reads it:
  handler address in bits 0 to 15 and 48 to 63, selector in bits 16 to 31, type in bits 40 to 47, of
  which the highest says that the gate is present.\<close>

definition idt_entry_bits :: "idt_entry \<Rightarrow> u64" where
  "idt_entry_bits e = ucast (idt_base_low e) OR push_bit 16 (ucast (sel e))
     OR push_bit 32 (ucast (always0 e)) OR push_bit 40 (ucast (flags e))
     OR push_bit 48 (ucast (idt_base_high e))"

definition gate_offset :: "u64 \<Rightarrow> u32" where
  "gate_offset d = ucast (d AND 0xFFFF) OR push_bit 16 (ucast (drop_bit 48 d))"

definition gate_selector :: "u64 \<Rightarrow> u16" where
  "gate_selector d = ucast (drop_bit 16 d)"

definition gate_type :: "u64 \<Rightarrow> u8" where
  "gate_type d = ucast (drop_bit 40 d)"

definition gate_present :: "u64 \<Rightarrow> bool" where
  "gate_present d \<longleftrightarrow> bit d 47"

definition gate :: "'a interrupt_state_scheme \<Rightarrow> nat \<Rightarrow> u64" where
  "gate s v = idt_entry_bits (idt_entries s ! v)"

definition isr_entry :: "u32 \<Rightarrow> u16 \<Rightarrow> u8 \<Rightarrow> idt_entry" where
  "isr_entry base sl fl = \<lparr>idt_base_low = ucast (base AND 0xFFFF), sel = sl, always0 = 0, flags = fl,
     idt_base_high = ucast (drop_bit 16 base AND 0xFFFF)\<rparr>"

lemma bit_idt_entry_bits:
  "bit (idt_entry_bits e) n \<longleftrightarrow>
     (if n < 16 then bit (idt_base_low e) n else if n < 32 then bit (sel e) (n - 16)
      else if n < 40 then bit (always0 e) (n - 32) else if n < 48 then bit (flags e) (n - 40)
      else n < 64 \<and> bit (idt_base_high e) (n - 48))"
proof -
  have out: "n < 16" if "bit (w :: u16) n" for w n
    using bit_imp_le_length [OF that] by simp
  have out8: "n < 8" if "bit (w :: u8) n" for w n
    using bit_imp_le_length [OF that] by simp
  consider "n < 16" | "16 \<le> n" "n < 32" | "32 \<le> n" "n < 40" | "40 \<le> n" "n < 48" | "48 \<le> n"
    by linarith
  then show ?thesis
    by cases (auto simp: idt_entry_bits_def bit_simps dest: out out8)
qed

lemma isr_entry_gate:
  "gate_offset (idt_entry_bits (isr_entry base sl fl)) = base"
  "gate_selector (idt_entry_bits (isr_entry base sl fl)) = sl"
  "gate_type (idt_entry_bits (isr_entry base sl fl)) = fl"
  "gate_present (idt_entry_bits (isr_entry base sl fl)) \<longleftrightarrow> bit fl 7"
proof -
  show "gate_offset (idt_entry_bits (isr_entry base sl fl)) = base"
  proof (rule bit_word_eqI)
    fix n
    assume "n < LENGTH(32)"
    then consider "n < 16" | "16 \<le> n" "n < 32" by fastforce
    then show "bit (gate_offset (idt_entry_bits (isr_entry base sl fl))) n \<longleftrightarrow> bit base n"
      by cases (auto simp: gate_offset_def isr_entry_def bit_simps low_masks bit_idt_entry_bits)
  qed
  show "gate_selector (idt_entry_bits (isr_entry base sl fl)) = sl"
    by (rule bit_word_eqI) (simp add: gate_selector_def isr_entry_def bit_simps bit_idt_entry_bits)
  show "gate_type (idt_entry_bits (isr_entry base sl fl)) = fl"
    by (rule bit_word_eqI) (simp add: gate_type_def isr_entry_def bit_simps bit_idt_entry_bits)
  show "gate_present (idt_entry_bits (isr_entry base sl fl)) \<longleftrightarrow> bit fl 7"
    by (simp add: gate_present_def isr_entry_def bit_idt_entry_bits)
qed

lemma null_gate: "\<not> gate_present (idt_entry_bits null_idt_entry)"
  by (simp add: gate_present_def null_idt_entry_def bit_idt_entry_bits)

lemma idt_clear_nth:
  "length (idt_clear i n es) = length es"
  "v < length es \<Longrightarrow> idt_clear i n es ! v = (if i \<le> v \<and> v < i + n then null_idt_entry else es ! v)"
  by (induction n arbitrary: i es) (auto simp: nth_list_update)

lemma idt_init_entries:
  "idt_entries (idt_init table isr s) = (idt_clear 0 256 (idt_entries s))[
     0 := isr_entry (isr 0) 8 0x8E, 6 := isr_entry (isr 6) 8 0x8E, 8 := isr_entry (isr 8) 8 0x8E,
     13 := isr_entry (isr 13) 8 0x8E, 14 := isr_entry (isr 14) 8 0x8E]"
  by (simp add: idt_init_def idt_set_gate_def isr_entry_def load_idt_def cli_def sti_def printk_def Let_def)

lemma idt_init_simps [simp]:
  "mem (idt_init table isr s) = mem s" "io (idt_init table isr s) = io s @ [Cli, Sti]"
  "idtr (idt_init table isr s) = \<lparr>ip_limit = 0x7FF, ip_base = table\<rparr>"
  "gdt_entries (idt_init table isr s) = gdt_entries s" "gdtr (idt_init table isr s) = gdtr s"
  "irq_handlers (idt_init table isr s) = irq_handlers s"
  "heap_start (idt_init table isr s) = heap_start s" "heap_end (idt_init table isr s) = heap_end s"
  "mm_stats (idt_init table isr s) = mm_stats s" "first_block (idt_init table isr s) = first_block s"
  by (simp_all add: idt_init_def idt_set_gate_def load_idt_def cli_def sti_def printk_def sizeof_idt_entry_def Let_def)

text \<open>The gate of every vector after \<open>idt_init\<close>.\<close>

lemma idt_init_gate:
  assumes "length (idt_entries s) = 256" "v < 256"
  shows "gate (idt_init table isr s) v
      = idt_entry_bits (if v \<in> {0, 6, 8, 13, 14} then isr_entry (isr v) 8 0x8E else null_idt_entry)"
proof (cases "v \<in> {0, 6, 8, 13, 14}")
  case True
  with assms show ?thesis
    by (elim insertE emptyE) (simp_all add: gate_def idt_init_entries idt_clear_nth(1))
next
  case False
  with assms show ?thesis
    by (simp add: gate_def idt_init_entries idt_clear_nth)
qed

text \<open>After \<open>idt_init\<close> the processor uses the table of 256 gates at the given address, and of
  all 256 vectors exactly 0, 6, 8, 13 and 14 have a gate: a present 32-bit interrupt gate of ring 0
  that leads to the routine of that exception in the code segment. In particular none of the vectors
  32 to 47, to which the controllers are remapped, has a gate: an unmasked interrupt line faults.\<close>

theorem idt_init_gates:
  assumes "length (idt_entries s) = 256" "v < 256"
  shows "idtr (idt_init table isr s) = \<lparr>ip_limit = 256 * 8 - 1, ip_base = table\<rparr>
    \<and> (gate_present (gate (idt_init table isr s) v) \<longleftrightarrow> v \<in> {0, 6, 8, 13, 14})
    \<and> (v \<in> {0, 6, 8, 13, 14} \<longrightarrow> gate_offset (gate (idt_init table isr s) v) = isr v
        \<and> gate_selector (gate (idt_init table isr s) v) = 0x08
        \<and> gate_type (gate (idt_init table isr s) v) = 0x8E)"
proof -
  have "bit (0x8E :: u8) 7"
    by simp
  moreover note idt_init_gate [OF assms, of table isr]
  ultimately show ?thesis
    by (simp add: isr_entry_gate null_gate)
qed

definition no_interrupts :: interrupt_state where
  "no_interrupts = gdt_state.extend no_tables
     \<lparr>idt_entries = replicate 256 null_idt_entry, idt_ptr = \<lparr>ip_limit = 0, ip_base = 0\<rparr>,
      idtr = \<lparr>ip_limit = 0, ip_base = 0\<rparr>, irq_handlers = replicate 16 None, driver_irq_handlers = replicate 16 0\<rparr>"

theorem idt_init_gates_witness:
  "gate_offset (gate (idt_init 0x5000 (\<lambda>n. 0x100000 + of_nat n) no_interrupts) 14) = 0x10000E
   \<and> \<not> gate_present (gate (idt_init 0x5000 (\<lambda>n. 0x100000 + of_nat n) no_interrupts) 32)"
proof -
  have len: "length (idt_entries no_interrupts) = 256"
    by (simp add: no_interrupts_def interrupt_state.defs gdt_state.defs)
  show ?thesis
    using idt_init_gates [OF len, of 14 "0x5000" "\<lambda>n. 0x100000 + of_nat n"]
      idt_init_gates [OF len, of 32 "0x5000" "\<lambda>n. 0x100000 + of_nat n"] by simp
qed

subsection \<open>Dispatch\<close>

text \<open>Registrations and their removal, as the drivers ask for them, and the handler they leave for a
  line: the one registered last, the default handler after a removal or at the start.\<close>

datatype irq_op = Register int "irq_handler_t option" | Unregister int

fun irq_do :: "irq_op \<Rightarrow> 'a interrupt_state_scheme \<Rightarrow> 'a interrupt_state_scheme" where
  "irq_do (Register irq h) s = irq_register_handler irq h s"
| "irq_do (Unregister irq) s = irq_unregister_handler irq s"

fun handler_of :: "irq_op list \<Rightarrow> nat \<Rightarrow> irq_handler_t option" where
  "handler_of [] n = Some Default_irq_handler"
| "handler_of (Register irq h # ops) n = (if irq = int n then h else handler_of ops n)"
| "handler_of (Unregister irq # ops) n = (if irq = int n then Some Default_irq_handler else handler_of ops n)"

lemma irq_default_loop_nth:
  "length (irq_default_loop i n hs) = length hs"
  "v < length hs \<Longrightarrow> irq_default_loop i n hs ! v = (if i \<le> v \<and> v < i + n then Some Default_irq_handler else hs ! v)"
  by (induction n arbitrary: i hs) (auto simp: nth_list_update)

lemma pic_remap_handlers [simp]: "irq_handlers (pic_remap dev a b s) = irq_handlers s"
  by (simp add: pic_remap_def inb_def outb_def printk_def Let_def)

lemma irq_init_handlers:
  "irq_handlers (irq_init dev s) = irq_default_loop 0 16 (irq_handlers s)"
  by (simp add: irq_init_def printk_def Let_def)

lemma irq_do_handlers:
  assumes "length (irq_handlers s) = 16"
  shows "length (irq_handlers (foldr irq_do ops (irq_init dev s))) = 16
    \<and> (\<forall>n < 16. irq_handlers (foldr irq_do ops (irq_init dev s)) ! n = handler_of ops n)"
proof (induction ops)
  case Nil
  from assms show ?case
    by (simp add: irq_init_handlers irq_default_loop_nth)
next
  case (Cons op ops)
  then show ?case
    by (cases op) (auto simp: irq_register_handler_def irq_unregister_handler_def nth_list_update)
qed

lemma pic_send_eoi_io:
  "io (pic_send_eoi irq s) = io s @ (if 8 \<le> irq then [Outb PIC2_COMMAND 0x20] else []) @ [Outb PIC1_COMMAND 0x20]"
  by (simp add: pic_send_eoi_def outb_def PIC_EOI_def)

lemma pic_send_eoi_eois:
  "eois (pic_after PIC1_COMMAND c (io (pic_send_eoi irq s))) = Suc (eois (pic_after PIC1_COMMAND c (io s)))"
  "eois (pic_after PIC2_COMMAND d (io (pic_send_eoi irq s)))
    = (if irq < 8 then 0 else 1) + eois (pic_after PIC2_COMMAND d (io s))"
proof -
  have "\<not> bit (0x20 :: u8) 4" by simp
  then show "eois (pic_after PIC1_COMMAND c (io (pic_send_eoi irq s))) = Suc (eois (pic_after PIC1_COMMAND c (io s)))"
    "eois (pic_after PIC2_COMMAND d (io (pic_send_eoi irq s)))
      = (if irq < 8 then 0 else 1) + eois (pic_after PIC2_COMMAND d (io s))"
    by (auto simp: pic_send_eoi_io pic_ports dest: leD)
qed

text \<open>C28. After \<open>irq_init\<close> and any registrations and removals (of any line number; the latest is
  the first of the list), interrupt \<open>32 + n\<close> runs exactly the handler that was registered last for line
  \<open>n\<close>, the default handler when there is none and nothing for a null pointer; then the master
  controller gets one end of interrupt and the slave one exactly for the lines 8 to 15.\<close>

theorem irq_dispatch:
  fixes s :: "'a interrupt_state_scheme" and ops :: "irq_op list" and dev :: device and n :: nat
    and call :: "'a driver_code"
  assumes "length (irq_handlers s) = 16" "n < 16"
  defines "s' \<equiv> foldr irq_do ops (irq_init dev s)"
  defines "t \<equiv> (case handler_of ops n of Some h \<Rightarrow> call_handler call h s' | None \<Rightarrow> s')"
  shows "irq_handler call (32 + of_nat n) s' = pic_send_eoi (of_nat n) t
    \<and> eois (pic_after PIC1_COMMAND c (io (irq_handler call (32 + of_nat n) s')))
        = Suc (eois (pic_after PIC1_COMMAND c (io t)))
    \<and> eois (pic_after PIC2_COMMAND d (io (irq_handler call (32 + of_nat n) s')))
        = (if n < 8 then 0 else 1) + eois (pic_after PIC2_COMMAND d (io t))"
proof -
  have u: "unat (of_nat n :: u32) = n" "unat (of_nat n :: u8) = n"
    using assms(2) by (simp_all add: unat_of_nat)
  have "unat (32 + of_nat n :: u32) = 32 + n"
    using assms(2) unat_add_of_nat [of 32 n] by simp
  then have vec: "(32 + of_nat n :: u32) \<ge> 32 \<and> (32 + of_nat n :: u32) < 48"
    using assms(2) by (simp add: word32_le_nat word32_less_nat)
  have "irq_handlers s' ! n = handler_of ops n"
    unfolding s'_def using irq_do_handlers [OF assms(1)] assms(2) by blast
  moreover have "ucast (of_nat n :: u32) = (of_nat n :: u8)"
    using assms(2) by (simp add: word_unat_eq_iff unsigned_ucast_eq u take_bit_nat_eq_self)
  ultimately have eq: "irq_handler call (32 + of_nat n) s' = pic_send_eoi (of_nat n) t"
    using vec by (simp add: irq_handler_def t_def u)
  have "(of_nat n :: u8) < 8 \<longleftrightarrow> n < 8"
    by (simp add: word_less_nat_alt u(2))
  with eq show ?thesis
    by (simp add: pic_send_eoi_eois)
qed

theorem irq_dispatch_witness:
  "\<exists>t. irq_handler (\<lambda>a s. s\<lparr>mem := (mem s)(a := 1)\<rparr>) 41
       (foldr irq_do [Unregister 3, Register 9 (Some (Driver_handler 0x2000))] (irq_init (\<lambda>_ _. 0) no_interrupts))
      = pic_send_eoi 9 t \<and> mem t 0x2000 = 1"
proof -
  have len: "length (irq_handlers no_interrupts) = 16"
    by (simp add: no_interrupts_def interrupt_state.defs gdt_state.defs)
  let ?call = "\<lambda>a s. s\<lparr>mem := (mem s)(a := 1)\<rparr>"
  let ?s = "foldr irq_do [Unregister 3, Register 9 (Some (Driver_handler 0x2000))] (irq_init (\<lambda>_ _. 0) no_interrupts)"
  have "irq_handler ?call 41 ?s = pic_send_eoi 9 (?s\<lparr>mem := (mem ?s)(0x2000 := 1)\<rparr>)"
    using irq_dispatch [OF len, where n = 9 and call = ?call and dev = "\<lambda>_ _. 0"
        and ops = "[Unregister 3, Register 9 (Some (Driver_handler 0x2000))]"] by simp
  then show ?thesis
    by (intro exI [of _ "?s\<lparr>mem := (mem ?s)(0x2000 := 1)\<rparr>"] conjI) simp_all
qed

end
