(* ===== verification/Boot.thy ===== *)
theory Boot
  imports Interrupts_Props Mm_Props
begin

text \<open>
  The start of the kernel: \<open>kernel_main\<close> of kernel/src/kernel.c calls the initialization of the
  components in order and then halts in an endless loop. The IPC, the multiboot modules and the
  module manager are stubs in this file, which only print.
  The other theories describe the initialization of the components with the log of what it prints
  (\<open>printk\<close>). Here it runs with the serial port: the operations of this theory whose names end in
  \<open>_on\<close> print through \<open>kprint\<close> (Console.thy), so every message goes out byte by byte, reads and
  writes ports between the other port accesses, and hangs (\<open>None\<close>) when the port does not become
  ready. The lemmas \<open>*_on_ready\<close> relate each of them to the operation of its component.
\<close>

subsection \<open>The components with the serial port\<close>

definition init_gdt_on :: "device \<Rightarrow> addr \<Rightarrow> 'a gdt_state_scheme \<Rightarrow> 'a gdt_state_scheme option" where
  "init_gdt_on dev table s =
     (let s = s\<lparr>gdt_ptr := \<lparr>gp_limit = ucast (sizeof_gdt_entry * 3 - 1), gp_base = table\<rparr>\<rparr>;
          s = gdt_set_gate 0 0 0 0 0 s;
          s = gdt_set_gate 1 0 0xFFFFFFFF 0x9A 0xCF s;
          s = gdt_set_gate 2 0 0xFFFFFFFF 0x92 0xCF s;
          s = gdt_flush s
      in kprint dev (''GDT loaded at 0x%x, limit: 0x%x'' @ nl) s)"

definition gdt_init_on :: "device \<Rightarrow> addr \<Rightarrow> 'a gdt_state_scheme \<Rightarrow> 'a gdt_state_scheme option" where
  "gdt_init_on dev table s = do { s \<leftarrow> kprint dev (''GDT initialization'' @ nl) s; init_gdt_on dev table s }"

definition idt_init_on :: "device \<Rightarrow> addr \<Rightarrow> (nat \<Rightarrow> addr) \<Rightarrow> 'a interrupt_state_scheme \<Rightarrow> 'a interrupt_state_scheme option" where
  "idt_init_on dev table isr s = do {
     let s = cli s;
     s \<leftarrow> kprint dev (''Initializing IDT...'' @ nl) s;
     let s = s\<lparr>idt_ptr := \<lparr>ip_limit = ucast (sizeof_idt_entry * 256 - 1), ip_base = table\<rparr>\<rparr>;
     s \<leftarrow> kprint dev (''IDT pointer: base=0x%x, limit=0x%x'' @ nl) s;
     let s = s\<lparr>idt_entries := idt_clear 0 256 (idt_entries s)\<rparr>;
     let s = idt_set_gate 0 (isr 0) 0x08 0x8E s;
     let s = idt_set_gate 6 (isr 6) 0x08 0x8E s;
     let s = idt_set_gate 8 (isr 8) 0x08 0x8E s;
     let s = idt_set_gate 13 (isr 13) 0x08 0x8E s;
     let s = idt_set_gate 14 (isr 14) 0x08 0x8E s;
     let s = load_idt s;
     let s = sti s;
     kprint dev (''IDT initialization complete'' @ nl) s }"

definition pic_remap_on :: "device \<Rightarrow> u32 \<Rightarrow> u32 \<Rightarrow> 'a machine_scheme \<Rightarrow> 'a machine_scheme option" where
  "pic_remap_on dev offset1 offset2 s =
     (let (a1, s) = inb dev PIC1_DATA s;
          (a2, s) = inb dev PIC2_DATA s;
          s = outb PIC1_COMMAND (ICW1_INIT OR ICW1_ICW4) s;
          s = outb PIC2_COMMAND (ICW1_INIT OR ICW1_ICW4) s;
          s = outb PIC1_DATA (ucast offset1) s;
          s = outb PIC2_DATA (ucast offset2) s;
          s = outb PIC1_DATA 4 s;
          s = outb PIC2_DATA 2 s;
          s = outb PIC1_DATA ICW4_8086 s;
          s = outb PIC2_DATA ICW4_8086 s;
          s = outb PIC1_DATA a1 s;
          s = outb PIC2_DATA a2 s;
          s = outb PIC1_DATA 0xFF s;
          s = outb PIC2_DATA 0xFF s
      in kprint dev (''PIC remapped and all interrupts masked'' @ nl) s)"

definition irq_init_on :: "device \<Rightarrow> 'a interrupt_state_scheme \<Rightarrow> 'a interrupt_state_scheme option" where
  "irq_init_on dev s = do {
     s \<leftarrow> kprint dev (''Initializing IRQ...'' @ nl) s;
     let s = s\<lparr>irq_handlers := irq_default_loop 0 16 (irq_handlers s)\<rparr>;
     s \<leftarrow> pic_remap_on dev 0x20 0x28 s;
     kprint dev (''IRQ initialized'' @ nl) s }"

definition init_heap_on :: "device \<Rightarrow> addr \<Rightarrow> addr \<Rightarrow> 'a mm_state_scheme \<Rightarrow> 'a mm_state_scheme option" where
  "init_heap_on dev kernel_end mb_info s = do {
     let available = available_memory (mem s) mb_info;
     s \<leftarrow> (if mb_flags (mem s) mb_info AND MULTIBOOT_INFO_MEMORY \<noteq> 0
          then kprint dev (''Available memory: %u KB'' @ nl) s
          else kprint dev (''No memory info available, assuming %u MB'' @ nl) s);
     let start = heap_base kernel_end;
     let max_heap_size = available - start;
     let actual_heap_size = (if HEAP_SIZE > max_heap_size then max_heap_size else HEAP_SIZE);
     s \<leftarrow> (if HEAP_SIZE > max_heap_size
          then kprint dev (''Reducing heap size to %u KB due to memory constraints'' @ nl) s
          else Some s);
     let m = mem s;
     let m = set_blk_size m start (actual_heap_size - sizeof_mem_block);
     let m = set_blk_next m start NULL;
     let m = set_blk_free m start True;
     let m = set_blk_magic m start BLOCK_MAGIC;
     kprint dev (''Heap: 0x%x - 0x%x (%u KB)'' @ nl)
       (s\<lparr>mem := m, heap_start := start, heap_end := start + actual_heap_size, first_block := start,
          mm_stats := \<lparr>total_memory = available, heap_size = actual_heap_size,
                       allocated = 0, alloc_count = 0, free_count = 0\<rparr>\<rparr>) }"

definition mm_init_on :: "device \<Rightarrow> addr \<Rightarrow> addr \<Rightarrow> 'a mm_state_scheme \<Rightarrow> 'a mm_state_scheme option" where
  "mm_init_on dev kernel_end mb_info s =
     do { s \<leftarrow> kprint dev (''Initializing memory manager'' @ nl) s; init_heap_on dev kernel_end mb_info s }"

subsection \<open>kernel.c\<close>

definition ipc_init_stub :: "device \<Rightarrow> 'a machine_scheme \<Rightarrow> 'a machine_scheme option" where
  "ipc_init_stub dev s = kprint dev (''IPC stub'' @ nl) s"

definition load_multiboot_modules_stub :: "device \<Rightarrow> addr \<Rightarrow> 'a machine_scheme \<Rightarrow> 'a machine_scheme option" where
  "load_multiboot_modules_stub dev a s = kprint dev (''Multiboot modules loader stub - addr: 0x%x'' @ nl) s"

definition initialize_modules_stub :: "device \<Rightarrow> 'a machine_scheme \<Rightarrow> 'a machine_scheme option" where
  "initialize_modules_stub dev s = kprint dev (''Module manager stub'' @ nl) s"

text \<open>multiboot_loader.c has another stub of the same name.\<close>

definition load_multiboot_modules :: "addr \<Rightarrow> 'a machine_scheme \<Rightarrow> 'a machine_scheme" where
  "load_multiboot_modules a s = printk (''Multiboot modules loading from: 0x%x'' @ nl) s"

text \<open>The addresses the linker chooses: of the two descriptor tables, of the exception routines and
  of the end of the kernel.\<close>

record layout =
  at_gdt :: addr
  at_idt :: addr
  at_isr :: "nat \<Rightarrow> addr"
  at_end :: addr

definition init_interrupts :: "device \<Rightarrow> layout \<Rightarrow> 'a interrupt_state_scheme \<Rightarrow> 'a interrupt_state_scheme option" where
  "init_interrupts dev a s = do {
     let s = serial_init s;
     s \<leftarrow> kprint dev (''SvetOS kernel starting...'' @ nl) s;
     s \<leftarrow> gdt_init_on dev (at_gdt a) s;
     s \<leftarrow> kprint dev (''GDT initialized'' @ nl) s;
     s \<leftarrow> idt_init_on dev (at_idt a) (at_isr a) s;
     s \<leftarrow> kprint dev (''IDT initialized'' @ nl) s;
     s \<leftarrow> pic_remap_on dev 0x20 0x28 s;
     s \<leftarrow> kprint dev (''PIC remapped'' @ nl) s;
     s \<leftarrow> irq_init_on dev s;
     s \<leftarrow> kprint dev (''IRQ initialized'' @ nl) s;
     kprint dev (''Interrupts initialized'' @ nl) s }"

text \<open>\<open>None\<close>: the kernel hangs in the wait for the serial port.\<close>

definition kernel_main :: "device \<Rightarrow> layout \<Rightarrow> addr \<Rightarrow> 'a interrupt_state_scheme
    \<Rightarrow> 'a interrupt_state_scheme outcome option" where
  "kernel_main dev a mbi_addr s = do {
     s \<leftarrow> init_interrupts dev a s;
     s \<leftarrow> mm_init_on dev (at_end a) mbi_addr s;
     s \<leftarrow> kprint dev (''Memory manager initialized'' @ nl) s;
     s \<leftarrow> ipc_init_stub dev s;
     s \<leftarrow> kprint dev (''IPC initialized'' @ nl) s;
     s \<leftarrow> load_multiboot_modules_stub dev mbi_addr s;
     s \<leftarrow> kprint dev (''Multiboot modules loaded'' @ nl) s;
     s \<leftarrow> initialize_modules_stub dev s;
     s \<leftarrow> kprint dev (''Modules initialized'' @ nl) s;
     s \<leftarrow> kprint dev (''Kernel initialized successfully'' @ nl) s;
     Some (Halted s) }"

subsection \<open>When the serial port is ready\<close>

text \<open>The history after a message, and after the initialization of the controllers.\<close>

definition said :: "device \<Rightarrow> io_event list \<Rightarrow> string \<Rightarrow> io_event list" where
  "said dev h f = sent_history dev (crlf (ascii f)) h"

definition remap_history :: "device \<Rightarrow> u32 \<Rightarrow> u32 \<Rightarrow> io_event list \<Rightarrow> io_event list" where
  "remap_history dev offset1 offset2 h =
     (let a1 = ucast (dev h PIC1_DATA); h1 = h @ [Inb PIC1_DATA a1];
          a2 = ucast (dev h1 PIC2_DATA)
      in h1 @ [Inb PIC2_DATA a2, Outb PIC1_COMMAND 0x11, Outb PIC2_COMMAND 0x11,
           Outb PIC1_DATA (ucast offset1), Outb PIC2_DATA (ucast offset2), Outb PIC1_DATA 4, Outb PIC2_DATA 2,
           Outb PIC1_DATA 1, Outb PIC2_DATA 1, Outb PIC1_DATA a1, Outb PIC2_DATA a2,
           Outb PIC1_DATA 0xFF, Outb PIC2_DATA 0xFF])"

definition serial_setup :: "io_event list" where
  "serial_setup = [Outb (COM1 + 1) 0, Outb (COM1 + 3) 0x80, Outb COM1 3, Outb (COM1 + 1) 0,
     Outb (COM1 + 3) 3, Outb (COM1 + 2) 0xC7, Outb (COM1 + 4) 0x0B]"

lemma serial_init_setup: "serial_init s = s\<lparr>io := io s @ serial_setup\<rparr>"
  by (simp add: serial_init_def outb_def Let_def serial_setup_def)

lemma said_transmitted: "transmitted (said dev h f) = transmitted h @ crlf (ascii f)"
  using sent_history_events [of dev "crlf (ascii f)" h] by (auto simp: said_def)

lemma pic_after_traffic:
  "serial_traffic q \<Longrightarrow> pic_after PIC1_COMMAND c q = c" "serial_traffic q \<Longrightarrow> pic_after PIC2_COMMAND c q = c"
  by (induction q) (auto simp: serial_traffic_def pic_ports COM1_def split: io_event.splits)

lemma said_pic [simp]:
  "pic_after PIC1_COMMAND c (said dev h f) = pic_after PIC1_COMMAND c h"
  "pic_after PIC2_COMMAND c (said dev h f) = pic_after PIC2_COMMAND c h"
  using sent_history_events [of dev "crlf (ascii f)" h] by (auto simp: said_def pic_after_traffic)

lemma setup_pic [simp]:
  "pic_after PIC1_COMMAND c serial_setup = c" "pic_after PIC2_COMMAND c serial_setup = c"
  by (simp_all add: serial_setup_def pic_ports COM1_def)

lemma remap_pic [simp]:
  "pic_after PIC1_COMMAND c (remap_history dev o1 o2 h) = remapped o1 (pic_after PIC1_COMMAND c h)"
  "pic_after PIC2_COMMAND c (remap_history dev o1 o2 h) = remapped o2 (pic_after PIC2_COMMAND c h)"
proof -
  have b: "bit (0x11 :: u8) 4"
    by simp
  show "pic_after PIC1_COMMAND c (remap_history dev o1 o2 h) = remapped o1 (pic_after PIC1_COMMAND c h)"
    "pic_after PIC2_COMMAND c (remap_history dev o1 o2 h) = remapped o2 (pic_after PIC2_COMMAND c h)"
    by (simp_all add: remap_history_def Let_def pic_ports b remapped_def)
qed

text \<open>A message on a port that becomes ready after every history.\<close>

lemma kprint_said:
  assumes "\<forall>h. becomes_ready dev h"
  shows "kprint dev f s = Some ((printk f s)\<lparr>io := said dev (io s) f\<rparr>)"
  using always_ready [of dev] assms by (simp add: kprint_def put_string_eq printk_def said_def)

lemma kprint_on:
  assumes "\<forall>h. becomes_ready dev h"
  shows "kprint dev f (s\<lparr>io := h\<rparr>) = Some ((printk f s)\<lparr>io := said dev h f\<rparr>)"
  by (simp add: kprint_said [OF assms] printk_def)

lemma gdt_init_on_ready:
  assumes "\<forall>h. becomes_ready dev h"
  shows "gdt_init_on dev table (s\<lparr>io := h\<rparr>) = Some ((gdt_init table s)\<lparr>io :=
    said dev (said dev h (''GDT initialization'' @ nl)) (''GDT loaded at 0x%x, limit: 0x%x'' @ nl)\<rparr>)"
  by (simp add: gdt_init_on_def init_gdt_on_def kprint_said [OF assms] gdt_init_def init_gdt_def gdt_set_gate_def
      gdt_flush_def printk_def Let_def)

definition idt_history :: "device \<Rightarrow> io_event list \<Rightarrow> io_event list" where
  "idt_history dev h = said dev (said dev (h @ [Cli]) (''Initializing IDT...'' @ nl))
     (''IDT pointer: base=0x%x, limit=0x%x'' @ nl)"

lemma idt_init_on_ready:
  assumes "\<forall>h. becomes_ready dev h"
  shows "idt_init_on dev table isr (s\<lparr>io := h\<rparr>) = Some ((idt_init table isr s)\<lparr>io :=
    said dev (idt_history dev h @ [Sti]) (''IDT initialization complete'' @ nl)\<rparr>)"
  by (simp add: idt_init_on_def kprint_said [OF assms] idt_init_def idt_set_gate_def load_idt_def cli_def sti_def
      printk_def idt_history_def Let_def)

lemma pic_remap_on_ready:
  assumes "\<forall>h. becomes_ready dev h"
  shows "pic_remap_on dev o1 o2 (s\<lparr>io := h\<rparr>) = Some ((pic_remap d o1 o2 s)\<lparr>io :=
    said dev (remap_history dev o1 o2 h) (''PIC remapped and all interrupts masked'' @ nl)\<rparr>)"
  by (simp add: pic_remap_on_def pic_remap_def kprint_said [OF assms] remap_history_def inb_def outb_def printk_def
      ICW1_INIT_def ICW1_ICW4_def ICW4_8086_def Let_def)

lemma irq_init_on_ready:
  assumes "\<forall>h. becomes_ready dev h"
  shows "irq_init_on dev (s\<lparr>io := h\<rparr>) = Some ((irq_init d s)\<lparr>io :=
    said dev (said dev (remap_history dev 0x20 0x28 (said dev h (''Initializing IRQ...'' @ nl)))
      (''PIC remapped and all interrupts masked'' @ nl)) (''IRQ initialized'' @ nl)\<rparr>)"
  by (simp add: irq_init_on_def irq_init_def pic_remap_on_def pic_remap_def kprint_said [OF assms] remap_history_def
      inb_def outb_def printk_def ICW1_INIT_def ICW1_ICW4_def ICW4_8086_def Let_def)

text \<open>The messages of the memory manager.\<close>

definition heap_messages :: "mem \<Rightarrow> addr \<Rightarrow> addr \<Rightarrow> string list" where
  "heap_messages m kernel_end mb_info =
     [''Initializing memory manager'' @ nl,
      (if mb_flags m mb_info AND MULTIBOOT_INFO_MEMORY \<noteq> 0 then ''Available memory: %u KB'' @ nl
       else ''No memory info available, assuming %u MB'' @ nl)]
     @ (if HEAP_SIZE > available_memory m mb_info - heap_base kernel_end
        then [''Reducing heap size to %u KB due to memory constraints'' @ nl] else [])
     @ [''Heap: 0x%x - 0x%x (%u KB)'' @ nl]"

definition said_all :: "device \<Rightarrow> io_event list \<Rightarrow> string list \<Rightarrow> io_event list" where
  "said_all dev h fs = fold (\<lambda>f h. said dev h f) fs h"

lemma mm_init_on_ready:
  assumes "\<forall>h. becomes_ready dev h"
  shows "mm_init_on dev kernel_end mb_info (s\<lparr>io := h\<rparr>) = Some ((mm_init kernel_end mb_info s)\<lparr>io :=
    said_all dev h (heap_messages (mem s) kernel_end mb_info)\<rparr>)"
  by (simp add: mm_init_on_def init_heap_on_def mm_init_def init_heap_def kprint_said [OF assms] heap_messages_def
      said_all_def printk_def Let_def)

text \<open>What the start does to everything but the ports, as the log tells it.\<close>

definition interrupts_trace :: "device \<Rightarrow> layout \<Rightarrow> 'a interrupt_state_scheme \<Rightarrow> 'a interrupt_state_scheme" where
  "interrupts_trace dev a s =
     (let s = printk (''SvetOS kernel starting...'' @ nl) s;
          s = gdt_init (at_gdt a) s;
          s = printk (''GDT initialized'' @ nl) s;
          s = idt_init (at_idt a) (at_isr a) s;
          s = printk (''IDT initialized'' @ nl) s;
          s = pic_remap dev 0x20 0x28 s;
          s = printk (''PIC remapped'' @ nl) s;
          s = irq_init dev s;
          s = printk (''IRQ initialized'' @ nl) s
      in printk (''Interrupts initialized'' @ nl) s)"

definition early_history :: "device \<Rightarrow> io_event list \<Rightarrow> io_event list" where
  "early_history dev h = idt_history dev (said_all dev (h @ serial_setup)
     [''SvetOS kernel starting...'' @ nl, ''GDT initialization'' @ nl, ''GDT loaded at 0x%x, limit: 0x%x'' @ nl,
      ''GDT initialized'' @ nl])"

definition interrupts_history :: "device \<Rightarrow> io_event list \<Rightarrow> io_event list" where
  "interrupts_history dev h =
     said_all dev (remap_history dev 0x20 0x28 (said_all dev (remap_history dev 0x20 0x28 (said_all dev
       (early_history dev h @ [Sti])
       [''IDT initialization complete'' @ nl, ''IDT initialized'' @ nl]))
       [''PIC remapped and all interrupts masked'' @ nl, ''PIC remapped'' @ nl, ''Initializing IRQ...'' @ nl]))
       [''PIC remapped and all interrupts masked'' @ nl, ''IRQ initialized'' @ nl, ''IRQ initialized'' @ nl,
        ''Interrupts initialized'' @ nl]"

subsection \<open>What the steps of the start leave alone\<close>

lemma mm_init_io [simp]: "io (mm_init kernel_end mbi s) = io s"
  by (simp add: mm_init_def init_heap_def Let_def)

lemma pic_remap_eq: "pic_remap dev a b s = s\<lparr>io := io (pic_remap dev a b s), klog := klog (pic_remap dev a b s)\<rparr>"
  by (simp add: pic_remap_def inb_def outb_def printk_def Let_def)

lemma printk_eq: "printk f s = s\<lparr>klog := klog (printk f s)\<rparr>"
  by (simp add: printk_def)

lemma printk_keeps [simp]:
  "gdt_entries (printk f s) = gdt_entries s" "gdtr (printk f s) = gdtr s" "idt_entries (printk f i) = idt_entries i"
  "idtr (printk f i) = idtr i" "irq_handlers (printk f i) = irq_handlers i"
  by (simp_all add: printk_def)

lemma serial_init_keeps [simp]:
  "mem (serial_init s) = mem s" "gdt_entries (serial_init g) = gdt_entries g" "idt_entries (serial_init i) = idt_entries i"
  "irq_handlers (serial_init i) = irq_handlers i"
  by (simp_all add: serial_init_setup)

lemma gdt_init_keeps [simp]:
  "idt_entries (gdt_init a i) = idt_entries i" "irq_handlers (gdt_init a i) = irq_handlers i"
  by (simp_all add: gdt_init_def init_gdt_def gdt_set_gate_def gdt_flush_def printk_def Let_def)

lemma pic_remap_keeps [simp]:
  "gdt_entries (pic_remap dev o1 o2 g) = gdt_entries g" "gdtr (pic_remap dev o1 o2 g) = gdtr g"
  "idt_entries (pic_remap dev o1 o2 i) = idt_entries i" "idtr (pic_remap dev o1 o2 i) = idtr i"
  by (simp_all add: pic_remap_def inb_def outb_def printk_def Let_def)

lemma irq_init_keeps [simp]:
  "mem (irq_init dev i) = mem i" "gdt_entries (irq_init dev i) = gdt_entries i" "gdtr (irq_init dev i) = gdtr i"
  "idt_entries (irq_init dev i) = idt_entries i" "idtr (irq_init dev i) = idtr i"
  by (simp_all add: irq_init_def Let_def)

lemma mm_init_keeps [simp]:
  "gdt_entries (mm_init k b g) = gdt_entries g" "gdtr (mm_init k b g) = gdtr g" "idt_entries (mm_init k b i) = idt_entries i"
  "idtr (mm_init k b i) = idtr i" "irq_handlers (mm_init k b i) = irq_handlers i"
  by (simp_all add: mm_init_def init_heap_def Let_def)

text \<open>Initializing the serial port, the tables and the controllers touches the log, the ports, the
  tables and the handlers.\<close>

lemma interrupts_trace_fields:
  "mem (interrupts_trace dev a s) = mem s"
  "gdt_entries (interrupts_trace dev a s) = gdt_entries (gdt_init (at_gdt a) s)"
  "gdtr (interrupts_trace dev a s) = \<lparr>gp_limit = 23, gp_base = at_gdt a\<rparr>"
  "idt_entries (interrupts_trace dev a s) = idt_entries (idt_init (at_idt a) (at_isr a) s)"
  "idtr (interrupts_trace dev a s) = \<lparr>ip_limit = 0x7FF, ip_base = at_idt a\<rparr>"
  "irq_handlers (interrupts_trace dev a s) = irq_default_loop 0 16 (irq_handlers s)"
  by (simp_all add: interrupts_trace_def Let_def gdt_init_entries idt_init_entries irq_init_handlers)

lemma said_all_pic [simp]:
  "pic_after PIC1_COMMAND c (said_all dev h fs) = pic_after PIC1_COMMAND c h"
  "pic_after PIC2_COMMAND c (said_all dev h fs) = pic_after PIC2_COMMAND c h"
  unfolding said_all_def by (induction fs arbitrary: h) simp_all

lemma said_all_transmitted [simp]:
  "transmitted (said_all dev h fs) = transmitted h @ crlf (concat (map ascii fs))"
  unfolding said_all_def by (induction fs arbitrary: h) (simp_all add: said_transmitted)

lemma said_all_simps:
  "said dev (said_all dev h fs) f = said_all dev h (fs @ [f])" "said dev h f = said_all dev h [f]"
  "said_all dev (said_all dev h fs) gs = said_all dev h (fs @ gs)"
  by (simp_all add: said_all_def)

lemma remap_transmitted [simp]: "transmitted (remap_history dev o1 o2 h) = transmitted h"
  by (simp add: remap_history_def Let_def transmitted_def pic_ports COM1_def)

lemma transmitted_flags [simp]: "transmitted [Cli] = []" "transmitted [Sti] = []"
  by (simp_all add: transmitted_def)

text \<open>The whole start: the state is that of the trace, with this history of port accesses.\<close>

lemma init_interrupts_ready:
  assumes "\<forall>h. becomes_ready dev h"
  shows "init_interrupts dev a s = Some ((interrupts_trace dev a s)\<lparr>io := interrupts_history dev (io s)\<rparr>)"
proof -
  note on = kprint_on [OF assms] gdt_init_on_ready [OF assms] idt_init_on_ready [OF assms]
    pic_remap_on_ready [OF assms, where d = dev] irq_init_on_ready [OF assms, where d = dev]
  show ?thesis
    by (simp add: init_interrupts_def serial_init_setup on interrupts_trace_def interrupts_history_def
        early_history_def said_all_def)
qed

definition start_messages :: "mem \<Rightarrow> layout \<Rightarrow> addr \<Rightarrow> string list" where
  "start_messages m a mbi = heap_messages m (at_end a) mbi
     @ [''Memory manager initialized'' @ nl, ''IPC stub'' @ nl, ''IPC initialized'' @ nl,
        ''Multiboot modules loader stub - addr: 0x%x'' @ nl, ''Multiboot modules loaded'' @ nl,
        ''Module manager stub'' @ nl, ''Modules initialized'' @ nl, ''Kernel initialized successfully'' @ nl]"

definition boot_messages :: "mem \<Rightarrow> layout \<Rightarrow> addr \<Rightarrow> string list" where
  "boot_messages m a mbi =
     [''SvetOS kernel starting...'' @ nl, ''GDT initialization'' @ nl, ''GDT loaded at 0x%x, limit: 0x%x'' @ nl,
      ''GDT initialized'' @ nl, ''Initializing IDT...'' @ nl, ''IDT pointer: base=0x%x, limit=0x%x'' @ nl,
      ''IDT initialization complete'' @ nl, ''IDT initialized'' @ nl,
      ''PIC remapped and all interrupts masked'' @ nl, ''PIC remapped'' @ nl, ''Initializing IRQ...'' @ nl,
      ''PIC remapped and all interrupts masked'' @ nl, ''IRQ initialized'' @ nl, ''IRQ initialized'' @ nl,
      ''Interrupts initialized'' @ nl] @ start_messages m a mbi"

definition heap_trace :: "device \<Rightarrow> layout \<Rightarrow> addr \<Rightarrow> 'a interrupt_state_scheme \<Rightarrow> 'a interrupt_state_scheme" where
  "heap_trace dev a mbi s = mm_init (at_end a) mbi (interrupts_trace dev a s)"

lemma kernel_main_ready:
  assumes "\<forall>h. becomes_ready dev h"
  shows "\<exists>l. kernel_main dev a mbi s = Some (Halted ((heap_trace dev a mbi s)\<lparr>klog := l,
    io := said_all dev (interrupts_history dev (io s)) (start_messages (mem s) a mbi)\<rparr>))"
proof -
  note on = kprint_on [OF assms] mm_init_on_ready [OF assms]
  have m: "mem (interrupts_trace dev a s) = mem s"
    by (simp add: interrupts_trace_fields)
  show ?thesis
    by (simp add: kernel_main_def init_interrupts_ready [OF assms] on m ipc_init_stub_def
        load_multiboot_modules_stub_def initialize_modules_stub_def start_messages_def said_all_simps heap_trace_def)
      (simp add: printk_def said_all_def, rule exI, rule refl)
qed

text \<open>What the start sends: the low byte of the divisor of the baud rate goes to the same port before
  the first message.\<close>

lemma boot_transmitted:
  "transmitted (said_all dev (interrupts_history dev h) (start_messages m a mbi))
     = transmitted h @ 3 # crlf (concat (map ascii (boot_messages m a mbi)))"
proof -
  have three: "transmitted serial_setup = [3]"
    by (simp add: serial_setup_def transmitted_def COM1_def)
  show ?thesis
    by (simp add: interrupts_history_def early_history_def idt_history_def boot_messages_def three said_transmitted
        del: append_Cons)
qed

text \<open>The history begins with what happened before interrupts were enabled.\<close>

lemma said_all_prefix: "\<exists>q. said_all dev h fs = h @ q"
proof (induction fs arbitrary: h)
  case (Cons f fs)
  obtain q where "said dev h f = h @ q"
    unfolding said_def using sent_history_events by blast
  with Cons.IH [of "h @ q"] show ?case
    by (auto simp: said_all_def)
qed (simp add: said_all_def)

lemma start_history_early:
  "\<exists>q. said_all dev (interrupts_history dev h) (start_messages m a mbi) = early_history dev h @ Sti # q"
proof -
  have remap: "\<exists>q. remap_history dev o1 o2 h = h @ q" for o1 o2 h
    by (simp add: remap_history_def Let_def)
  have nested: "\<exists>q. said_all dev (remap_history dev a b (said_all dev (remap_history dev a b (said_all dev g xs)) ys)) zs
      = g @ q" for a b g xs ys zs
  proof -
    obtain q1 where "said_all dev g xs = g @ q1"
      using said_all_prefix by blast
    moreover obtain q2 where "remap_history dev a b (g @ q1) = (g @ q1) @ q2"
      using remap by blast
    moreover obtain q3 where "said_all dev ((g @ q1) @ q2) ys = ((g @ q1) @ q2) @ q3"
      using said_all_prefix by blast
    moreover obtain q4 where "remap_history dev a b (((g @ q1) @ q2) @ q3) = (((g @ q1) @ q2) @ q3) @ q4"
      using remap by blast
    moreover obtain q5 where "said_all dev ((((g @ q1) @ q2) @ q3) @ q4) zs = ((((g @ q1) @ q2) @ q3) @ q4) @ q5"
      using said_all_prefix by blast
    ultimately show ?thesis
      by (intro exI [of _ "q1 @ q2 @ q3 @ q4 @ q5"]) (simp only: append_assoc)
  qed
  have "\<exists>q. interrupts_history dev h = (early_history dev h @ [Sti]) @ q"
    unfolding interrupts_history_def by (rule nested)
  then show ?thesis
    using said_all_prefix [of dev "interrupts_history dev h" "start_messages m a mbi"] by auto
qed

lemma kernel_main_silent:
  assumes "\<not> becomes_ready dev (io s @ serial_setup)"
  shows "kernel_main dev a mbi s = None"
  using kprint_silent [of dev "s\<lparr>io := io s @ serial_setup\<rparr>"] assms
  by (simp add: kernel_main_def init_interrupts_def serial_init_setup)

end
