(* ===== verification/Modules.thy ===== *)
theory Modules
  imports Klist Machine
begin

text \<open>
  kernel/src/modules/manager.c: the list of the kernel modules. A module is a structure in memory
  whose first field is its list node; the head of the list is a static variable at address
  \<open>loaded\<close>. What the code of a module does when it is initialized is the parameter \<open>call\<close>.
\<close>

subsection \<open>Modules and operations\<close>

text \<open>struct module: list at offset 0, name[64] at 8, base\_address at 72, size at 76, init at 80,
  exit at 84; 88 bytes.\<close>

definition mod_name :: "addr \<Rightarrow> addr" where "mod_name p = p + 8"
definition mod_init :: "mem \<Rightarrow> addr \<Rightarrow> addr" where "mod_init m p = load32 m (p + 80)"

definition register_kernel_module :: "addr \<Rightarrow> addr \<Rightarrow> 'a machine_scheme \<Rightarrow> 'a machine_scheme" where
  "register_kernel_module loaded p s =
     (if p = NULL then s
      else let m = INIT_LIST_HEAD (mem s) p;
               m = list_add_tail m p loaded
           in printk (''Module registered: %s'' @ nl) (s\<lparr>mem := m\<rparr>))"

partial_function (option) initialize_loop :: "(addr \<Rightarrow> 'a machine_scheme \<Rightarrow> int \<times> 'a machine_scheme)
    \<Rightarrow> addr \<Rightarrow> addr \<Rightarrow> int \<Rightarrow> 'a machine_scheme \<Rightarrow> (int \<times> 'a machine_scheme) option" where
  "initialize_loop call loaded pos init_count s =
     (if pos = loaded then Some (init_count, s)
      else if mod_init (mem s) pos \<noteq> NULL then
        let s = printk (''Initializing module: %s'' @ nl) s;
            (r, s) = call (mod_init (mem s) pos) s
        in if r = 0 then initialize_loop call loaded (lnext (mem s) pos) (init_count + 1) s
           else let s = printk (''Failed to initialize module: %s'' @ nl) s
                in initialize_loop call loaded (lnext (mem s) pos) init_count s
      else initialize_loop call loaded (lnext (mem s) pos) init_count s)"

definition initialize_modules :: "(addr \<Rightarrow> 'a machine_scheme \<Rightarrow> int \<times> 'a machine_scheme)
    \<Rightarrow> addr \<Rightarrow> 'a machine_scheme \<Rightarrow> (int \<times> 'a machine_scheme) option" where
  "initialize_modules call loaded s =
     do {
       (n, s) \<leftarrow> initialize_loop call loaded (lnext (mem s) loaded) 0
                   (printk (''Initializing kernel modules...'' @ nl) s);
       Some (n, printk (''Total modules initialized: %d'' @ nl) s)
     }"

partial_function (option) find_module_loop :: "mem \<Rightarrow> addr \<Rightarrow> addr \<Rightarrow> addr \<Rightarrow> addr option" where
  "find_module_loop m loaded name pos =
     (if pos = loaded then Some NULL
      else do {
        c \<leftarrow> strcmp m (mod_name pos) name;
        if c = 0 then Some pos else find_module_loop m loaded name (lnext m pos)
      })"

definition find_module :: "addr \<Rightarrow> addr \<Rightarrow> 'a machine_scheme \<Rightarrow> addr option" where
  "find_module loaded name s = find_module_loop (mem s) loaded name (lnext (mem s) loaded)"

subsection \<open>The list of modules\<close>

text \<open>A registered module, abstractly: where it is, its name and its init function.\<close>

type_synonym kmodule = "addr \<times> u8 list \<times> addr"

text \<open>The bytes of a module behind its list node.\<close>

definition body :: "addr \<Rightarrow> addr set" where "body p = span (p + 8) 80"

definition holds_module :: "mem \<Rightarrow> kmodule \<Rightarrow> bool" where
  "holds_module m k \<longleftrightarrow> (case k of (p, name, f) \<Rightarrow>
     cstr_at m (mod_name p) name \<and> length name < 64 \<and> mod_init m p = f)"

definition bodies :: "kmodule list \<Rightarrow> addr set" where
  "bodies K = (\<Union>k \<in> set K. body (fst k))"

definition modules_rep :: "mem \<Rightarrow> addr \<Rightarrow> kmodule list \<Rightarrow> bool" where
  "modules_rep m loaded K \<longleftrightarrow> ring m loaded (map fst K) \<and> (\<forall>k \<in> set K. holds_module m k)
     \<and> cells (loaded # map fst K) \<inter> bodies K = {}"

lemma bodies_simps [simp]: "bodies [] = {}" "bodies (k # K) = body (fst k) \<union> bodies K"
  "bodies (K @ K') = bodies K \<union> bodies K'"
  by (auto simp: bodies_def)

lemma holds_module_frame:
  assumes "holds_module m k" "\<And>x. x \<in> body (fst k) \<Longrightarrow> m' x = m x"
  shows "holds_module m' k"
proof -
  obtain p name f where k: "k = (p, name, f)" by (cases k)
  with assms(1) have old: "cstr_at m (p + 8) name" "length name < 64" "load32 m (p + 80) = f"
    by (simp_all add: holds_module_def mod_name_def mod_init_def)
  have "span (p + 8) (Suc (length name)) \<subseteq> body p"
    unfolding body_def using old(2) by (intro span_mono) simp
  then have "cstr_at m' (p + 8) name"
    using old(1) assms(2) cstr_at_span [of "p + 8" name m' m] unfolding k by auto
  moreover have "span (p + 8 + 72) 4 \<subseteq> body p"
    unfolding body_def by (rule span_offset_subset) simp
  then have "span (p + 80) 4 \<subseteq> body p"
    by (simp add: add.assoc)
  then have "load32 m' (p + 80) = load32 m (p + 80)"
    using assms(2) unfolding k by (intro load32_span) auto
  ultimately show ?thesis
    using old by (simp add: k holds_module_def mod_name_def mod_init_def)
qed

lemma modules_rep_frame:
  assumes "modules_rep m loaded K" "\<And>x. x \<in> cells (loaded # map fst K) \<union> bodies K \<Longrightarrow> m' x = m x"
  shows "modules_rep m' loaded K"
proof -
  from assms(1) have r: "ring m loaded (map fst K)" "\<And>k. k \<in> set K \<Longrightarrow> holds_module m k"
    "cells (loaded # map fst K) \<inter> bodies K = {}"
    by (auto simp: modules_rep_def)
  have "ring m' loaded (map fst K)"
    using r(1) by (rule ring_frame) (use assms(2) in blast)
  moreover have "holds_module m' k" if "k \<in> set K" for k
    using r(2) [OF that] by (rule holds_module_frame) (use assms(2) that in \<open>auto simp: bodies_def\<close>)
  ultimately show ?thesis
    using r(3) by (simp add: modules_rep_def)
qed

subsection \<open>Registration\<close>

lemma register_rep:
  assumes rep: "modules_rep (mem s) loaded K" and new: "p \<noteq> NULL" "holds_module (mem s) (p, name, f)"
    and apart: "cell p \<inter> (cells (loaded # map fst K) \<union> bodies K \<union> body p) = {}" "body p \<inter> cells (loaded # map fst K) = {}"
  shows "modules_rep (mem (register_kernel_module loaded p s)) loaded (K @ [(p, name, f)])"
    "x \<notin> cell p \<Longrightarrow> x \<notin> cells (loaded # map fst K) \<Longrightarrow> mem (register_kernel_module loaded p s) x = mem s x"
proof -
  let ?m1 = "INIT_LIST_HEAD (mem s) p"
  let ?m2 = "list_add_tail ?m1 p loaded"
  have mem: "mem (register_kernel_module loaded p s) = ?m2"
    using new by (simp add: register_kernel_module_def Let_def)
  have m1: "?m1 x = mem s x" if "x \<notin> cell p" for x
    using that by (simp add: INIT_LIST_HEAD_def set_link_other)
  have rep1: "modules_rep ?m1 loaded K"
    using rep by (rule modules_rep_frame) (use m1 apart in blast)
  then have ring1: "ring ?m1 loaded (map fst K)"
    by (simp add: modules_rep_def)
  have m2: "?m2 x = ?m1 x" if "x \<notin> cell p" "x \<notin> cells (loaded # map fst K)" for x
    using list_add_tail_other [OF ring1 that] .
  then show "x \<notin> cell p \<Longrightarrow> x \<notin> cells (loaded # map fst K) \<Longrightarrow> mem (register_kernel_module loaded p s) x = mem s x"
    using m1 by (simp add: mem)
  have "apart p q" if "q \<in> set (loaded # map fst K)" for q
    using apart(1) cell_subset_cells [OF that] by (auto simp: apart_def)
  then have "ring ?m2 loaded (map fst K @ [p])"
    by (intro ring_list_add_tail [OF ring1])
  moreover have "holds_module ?m2 k" if "k \<in> set (K @ [(p, name, f)])" for k
  proof (rule holds_module_frame [of "mem s"])
    show "holds_module (mem s) k"
      using that rep new(2) by (auto simp: modules_rep_def)
    fix x
    assume "x \<in> body (fst k)"
    with that have "x \<in> bodies K \<union> body p" by (auto simp: bodies_def)
    moreover have "cells (loaded # map fst K) \<inter> bodies K = {}"
      using rep by (simp add: modules_rep_def)
    ultimately have x: "x \<notin> cell p" "x \<notin> cells (loaded # map fst K)"
      using apart by (blast, blast)
    show "?m2 x = mem s x"
      using m2 [OF x] m1 [OF x(1)] by simp
  qed
  moreover have "cells (loaded # map fst (K @ [(p, name, f)])) \<inter> bodies (K @ [(p, name, f)]) = {}"
    using rep apart by (auto simp: modules_rep_def)
  ultimately show "modules_rep (mem (register_kernel_module loaded p s)) loaded (K @ [(p, name, f)])"
    unfolding mem by (simp add: modules_rep_def)
qed

subsection \<open>Lookup\<close>

fun find_named :: "kmodule list \<Rightarrow> u8 list \<Rightarrow> addr" where
  "find_named [] ds = NULL"
| "find_named ((p, name, f) # K) ds = (if name = ds then p else find_named K ds)"

lemma find_module_links:
  assumes "links m a (map fst K) loaded" "loaded \<notin> set (map fst K)" "\<And>k. k \<in> set K \<Longrightarrow> holds_module m k"
    "cstr_at m name ds"
  shows "find_module_loop m loaded name (lnext m a) = Some (find_named K ds)"
  using assms(1-3)
proof (induction K arbitrary: a)
  case Nil
  then show ?case by (subst find_module_loop.simps) simp
next
  case (Cons k K)
  obtain p nm f where k: "k = (p, nm, f)" by (cases k)
  have "cstr_at m (mod_name p) nm"
    using Cons.prems(3) [of k] by (simp add: k holds_module_def)
  from strcmp_cstr [OF this assms(4)] obtain c where c: "strcmp m (mod_name p) name = Some c" "c = 0 \<longleftrightarrow> nm = ds"
    by blast
  have "find_module_loop m loaded name (lnext m p) = Some (find_named K ds)"
    using Cons.prems by (intro Cons.IH) (auto simp: k)
  with Cons.prems c show ?case
    by (subst find_module_loop.simps) (auto simp: k)
qed

subsection \<open>Initialization\<close>

text \<open>The modules are initialized one after the other, in the order of registration.\<close>

fun run_inits :: "(addr \<Rightarrow> 'a machine_scheme \<Rightarrow> int \<times> 'a machine_scheme) \<Rightarrow> kmodule list \<Rightarrow> int
    \<Rightarrow> 'a machine_scheme \<Rightarrow> int \<times> 'a machine_scheme" where
  "run_inits call [] n s = (n, s)"
| "run_inits call ((p, name, f) # K) n s =
     (if f = NULL then run_inits call K n s
      else case call f (printk (''Initializing module: %s'' @ nl) s) of (r, s) \<Rightarrow>
        if r = 0 then run_inits call K (n + 1) s
        else run_inits call K n (printk (''Failed to initialize module: %s'' @ nl) s))"

lemma run_inits_count:
  "n \<le> fst (run_inits call K n s)
   \<and> fst (run_inits call K n s) \<le> n + int (length (filter (\<lambda>(p, name, f). f \<noteq> NULL) K))"
proof (induction K arbitrary: n s)
  case (Cons k K)
  obtain p name f where k: "k = (p, name, f)" by (cases k)
  show ?case
  proof (cases "f = NULL")
    case True
    with Cons.IH [of n s] show ?thesis by (simp add: k)
  next
    case False
    obtain r t where c: "call f (printk (''Initializing module: %s'' @ nl) s) = (r, t)" by fastforce
    with False Cons.IH [of "n + 1" t] Cons.IH [of n "printk (''Failed to initialize module: %s'' @ nl) t"]
    show ?thesis by (auto simp: k)
  qed
qed simp

text \<open>Code that does not touch the list of modules.\<close>

definition keeps :: "addr set \<Rightarrow> (addr \<Rightarrow> 'a machine_scheme \<Rightarrow> int \<times> 'a machine_scheme) \<Rightarrow> bool" where
  "keeps A call \<longleftrightarrow> (\<forall>f s. \<forall>x \<in> A. mem (snd (call f s)) x = mem s x)"

lemma keepsD: "keeps A call \<Longrightarrow> call f s = (r, t) \<Longrightarrow> x \<in> A \<Longrightarrow> mem t x = mem s x"
  unfolding keeps_def by (metis snd_conv)

text \<open>The loop from the node \<open>a\<close> on, with the modules \<open>K\<close> of all modules \<open>K0 @ K\<close> to go.\<close>

lemma initialize_loop_links:
  assumes call: "keeps (cells (loaded # map fst (K0 @ K)) \<union> bodies (K0 @ K)) call"
    and rep: "modules_rep (mem s) loaded (K0 @ K)"
    and pos: "pos = (case K of [] \<Rightarrow> loaded | k # _ \<Rightarrow> fst k)"
  shows "initialize_loop call loaded pos n s = Some (run_inits call K n s)
    \<and> modules_rep (mem (snd (run_inits call K n s))) loaded (K0 @ K)"
  using assms
proof (induction K arbitrary: K0 n s pos)
  case Nil
  then show ?case by (subst initialize_loop.simps) simp
next
  case (Cons k K)
  obtain p name f where k: "k = (p, name, f)" by (cases k)
  let ?A = "cells (loaded # map fst (K0 @ k # K)) \<union> bodies (K0 @ k # K)"
  have all: "K0 @ k # K = (K0 @ [k]) @ K" by simp
  have step: "p \<noteq> loaded" "mod_init (mem t) p = f" "lnext (mem t) p = (case K of [] \<Rightarrow> loaded | k # _ \<Rightarrow> fst k)"
    if "modules_rep (mem t) loaded (K0 @ k # K)" for t
  proof -
    from that have r: "links (mem t) loaded (map fst K0 @ p # map fst K) loaded"
      "sorted_wrt apart (loaded # map fst K0 @ p # map fst K)" "holds_module (mem t) k"
      by (simp_all add: modules_rep_def ring_def k)
    from r(2) show "p \<noteq> loaded"
      by (auto dest: apart_ne)
    from r(3) show "mod_init (mem t) p = f"
      by (simp add: holds_module_def k)
    from r(1) have "links (mem t) p (map fst K) loaded" by simp
    from links_ends [OF this] show "lnext (mem t) p = (case K of [] \<Rightarrow> loaded | k # _ \<Rightarrow> fst k)"
      by (cases K) simp_all
  qed
  have ih: "initialize_loop call loaded (lnext (mem t) p) i t = Some (run_inits call K i t)
      \<and> modules_rep (mem (snd (run_inits call K i t))) loaded (K0 @ k # K)"
    if "modules_rep (mem t) loaded (K0 @ k # K)" for i t
    using Cons.IH [of "K0 @ [k]" t "lnext (mem t) p" i] Cons.prems(1) that step(3) [OF that] by simp
  have pos: "pos = p"
    using Cons.prems(3) by (simp add: k)
  note now = step [OF Cons.prems(2)]
  show ?case
  proof (cases "f = NULL")
    case True
    with now ih [OF Cons.prems(2), of n] show ?thesis
      unfolding pos by (subst initialize_loop.simps) (simp add: k)
  next
    case False
    obtain r t where c: "call f (printk (''Initializing module: %s'' @ nl) s) = (r, t)" by fastforce
    have rep: "modules_rep (mem t) loaded (K0 @ k # K)"
      using Cons.prems(2) by (rule modules_rep_frame) (use keepsD [OF Cons.prems(1) c] in simp)
    then have rep': "modules_rep (mem (printk (''Failed to initialize module: %s'' @ nl) t)) loaded (K0 @ k # K)"
      by simp
    show ?thesis
    proof (cases "r = 0")
      case True
      with False now c ih [OF rep, of "n + 1"] show ?thesis
        unfolding pos by (subst initialize_loop.simps) (simp add: k Let_def)
    next
      case r: False
      with False now c ih [OF rep', of n] show ?thesis
        unfolding pos by (subst initialize_loop.simps) (simp add: k Let_def)
    qed
  qed
qed

end
