(* ===== verification/Modules_Props.thy ===== *)
theory Modules_Props
  imports Modules
begin

text \<open>
  The properties of the module manager: registration appends, lookup finds the module registered
  first under a name, initialization runs every module once in the order of registration.
\<close>

lemma find_module_rep:
  assumes "modules_rep (mem s) loaded K" "cstr_at (mem s) name ds"
  shows "find_module loaded name s = Some (find_named K ds)"
proof -
  from assms(1) have r: "links (mem s) loaded (map fst K) loaded" "sorted_wrt apart (loaded # map fst K)"
    "\<And>k. k \<in> set K \<Longrightarrow> holds_module (mem s) k"
    by (auto simp: modules_rep_def ring_def)
  from r(2) have "loaded \<notin> set (map fst K)"
    by (auto dest: apart_ne)
  from find_module_links [OF r(1) this r(3) assms(2)] show ?thesis
    by (simp add: find_module_def)
qed

text \<open>C32. \<open>register_kernel_module\<close> of a module that overlaps neither the list nor the modules in
  it appends it to the list and writes only list nodes. From then on \<open>find_module\<close> returns for every
  name, with the module registered first under it or NULL: a second module of the same name is never
  found.\<close>

theorem register_module_refines:
  fixes s :: "'a machine_scheme"
  assumes "modules_rep (mem s) loaded K" "p \<noteq> NULL" "holds_module (mem s) (p, name, f)"
    "cell p \<inter> (cells (loaded # map fst K) \<union> bodies K \<union> body p) = {}" "body p \<inter> cells (loaded # map fst K) = {}"
    "cstr_at (mem s) nm ds" "span nm (Suc (length ds)) \<inter> cells (loaded # p # map fst K) = {}"
  shows "modules_rep (mem (register_kernel_module loaded p s)) loaded (K @ [(p, name, f)])
    \<and> (\<forall>x. x \<notin> cells (loaded # p # map fst K) \<longrightarrow> mem (register_kernel_module loaded p s) x = mem s x)
    \<and> find_module loaded nm (register_kernel_module loaded p s) = Some (find_named (K @ [(p, name, f)]) ds)"
proof -
  let ?s = "register_kernel_module loaded p s"
  note reg = register_rep [OF assms(1-5)]
  have other: "mem ?s x = mem s x" if "x \<notin> cells (loaded # p # map fst K)" for x
    using reg(2) [of x] that by simp
  have "cstr_at (mem ?s) nm ds"
    using assms(6,7) other cstr_at_span [of nm ds "mem ?s" "mem s"] by blast
  from find_module_rep [OF reg(1) this] reg(1) other show ?thesis
    by blast
qed

text \<open>A head at 0x1000 with an empty list; a module named "a" with init code at 0x4000, and the same
  name as a string of its own at 0x3000.\<close>

definition no_modules :: machine where
  "no_modules = \<lparr>mem = INIT_LIST_HEAD ((store32 (\<lambda>_. 0) 0x2050 0x4000)(0x2008 := 97, 0x3000 := 97)) 0x1000,
     klog = [], io = []\<rparr>"

lemma no_modules_other: "x \<notin> cell 0x1000 \<Longrightarrow> mem no_modules x = ((store32 (\<lambda>_. 0) 0x2050 0x4000)(0x2008 := 97, 0x3000 := 97)) x"
  by (simp add: no_modules_def INIT_LIST_HEAD_def set_link_other)

lemma no_modules_rep:
  "modules_rep (mem no_modules) 0x1000 []" "holds_module (mem no_modules) (0x2000, [97], 0x4000)"
  "cstr_at (mem no_modules) 0x3000 [97]"
proof -
  show "modules_rep (mem no_modules) 0x1000 []"
    by (simp add: modules_rep_def no_modules_def ring_INIT_LIST_HEAD)
  have at: "mem no_modules x = ((store32 (\<lambda>_. 0) 0x2050 0x4000)(0x2008 := 97, 0x3000 := 97)) x" if "0x2000 \<le> x" for x
    using that by (intro no_modules_other) (auto simp: cell_def in_span_nowrap word32_le_nat)
  have "load32 (mem no_modules) 0x2050 = load32 ((store32 (\<lambda>_. 0) 0x2050 0x4000)(0x2008 := 97, 0x3000 := 97)) 0x2050"
    by (intro load32_span at) (simp add: in_span_nowrap word32_le_nat)
  then have "load32 (mem no_modules) 0x2050 = 0x4000"
    by (simp add: mem_simps)
  then show "holds_module (mem no_modules) (0x2000, [97], 0x4000)"
    by (simp add: holds_module_def mod_name_def mod_init_def at mem_simps)
  show "cstr_at (mem no_modules) 0x3000 [97]"
    by (simp add: at mem_simps)
qed

lemma no_modules_apart:
  "cell 0x2000 \<inter> (cells (0x1000 # map fst ([] :: kmodule list)) \<union> bodies [] \<union> body 0x2000) = {}"
  "body 0x2000 \<inter> cells (0x1000 # map fst ([] :: kmodule list)) = {}"
  "span (0x3000 :: addr) (Suc (length [97 :: u8])) \<inter> cells (0x1000 # 0x2000 # map fst ([] :: kmodule list)) = {}"
proof -
  have "span (0x2000 :: addr) 8 \<inter> span 0x1000 8 = {}" "span (0x2000 :: addr) 8 \<inter> span 0x2008 80 = {}"
    "span (0x2008 :: addr) 80 \<inter> span 0x1000 8 = {}" "span (0x3000 :: addr) 2 \<inter> span 0x1000 8 = {}"
    "span (0x3000 :: addr) 2 \<inter> span 0x2000 8 = {}"
    by (rule span_disjoint; simp)+
  then show "cell 0x2000 \<inter> (cells (0x1000 # map fst ([] :: kmodule list)) \<union> bodies [] \<union> body 0x2000) = {}"
    "body 0x2000 \<inter> cells (0x1000 # map fst ([] :: kmodule list)) = {}"
    "span (0x3000 :: addr) (Suc (length [97 :: u8])) \<inter> cells (0x1000 # 0x2000 # map fst ([] :: kmodule list)) = {}"
    by (auto simp: cell_def body_def numeral_2_eq_2)
qed

theorem register_module_refines_witness:
  "find_module 0x1000 0x3000 (register_kernel_module 0x1000 0x2000 no_modules) = Some 0x2000"
  using register_module_refines [OF no_modules_rep(1) _ no_modules_rep(2) no_modules_apart(1,2) no_modules_rep(3) no_modules_apart(3)]
  by simp

text \<open>C31. \<open>initialize_modules\<close> terminates when the code of the modules leaves the list alone, calls
  the init function of every module that has one exactly once and in the order of registration, and
  returns how many of them returned 0; a failure does not stop the others. The list stays intact.\<close>

theorem initialize_modules_runs:
  fixes s :: "'a machine_scheme"
  assumes "modules_rep (mem s) loaded K" "keeps (cells (loaded # map fst K) \<union> bodies K) call"
  shows "\<exists>n t. initialize_modules call loaded s = Some (n, printk (''Total modules initialized: %d'' @ nl) t)
    \<and> run_inits call K 0 (printk (''Initializing kernel modules...'' @ nl) s) = (n, t)
    \<and> 0 \<le> n \<and> n \<le> int (length (filter (\<lambda>(p, name, f). f \<noteq> NULL) K))
    \<and> modules_rep (mem t) loaded K"
proof -
  let ?s = "printk (''Initializing kernel modules...'' @ nl) s"
  obtain n t where r: "run_inits call K 0 ?s = (n, t)" by fastforce
  from assms(1) have "links (mem s) loaded (map fst K) loaded"
    by (simp add: modules_rep_def ring_def)
  from links_ends [OF this] have "lnext (mem s) loaded = (case K of [] \<Rightarrow> loaded | k # _ \<Rightarrow> fst k)"
    by (cases K) simp_all
  then have "initialize_loop call loaded (lnext (mem s) loaded) 0 ?s = Some (run_inits call K 0 ?s)
      \<and> modules_rep (mem (snd (run_inits call K 0 ?s))) loaded K"
    using initialize_loop_links [of loaded "[]" K call ?s "lnext (mem s) loaded" 0] assms by simp
  with r run_inits_count [of 0 call K ?s] show ?thesis
    by (intro exI [of _ n] exI [of _ t]) (simp add: initialize_modules_def)
qed

text \<open>The module registered above, with init code that writes a byte elsewhere and returns 0.\<close>

theorem initialize_modules_runs_witness:
  "\<exists>t. initialize_modules (\<lambda>f s. (0, s\<lparr>mem := (mem s)(0x9000 := 1)\<rparr>)) 0x1000
        (register_kernel_module 0x1000 0x2000 no_modules)
      = Some (1, printk (''Total modules initialized: %d'' @ nl) t) \<and> mem t 0x9000 = 1"
proof -
  have "modules_rep (mem (register_kernel_module 0x1000 0x2000 no_modules)) 0x1000 ([] @ [(0x2000, [97], 0x4000)])"
    by (rule register_rep [OF no_modules_rep(1) _ no_modules_rep(2) no_modules_apart(1,2)]) simp
  then have rep: "modules_rep (mem (register_kernel_module 0x1000 0x2000 no_modules)) 0x1000 [(0x2000, [97], 0x4000)]"
    by simp
  have "0x9000 \<notin> cells [0x1000, 0x2000] \<union> body 0x2000"
    by (simp add: cell_def body_def in_span_nowrap)
  then have "keeps (cells (0x1000 # map fst [(0x2000, [97 :: u8], 0x4000 :: addr)]) \<union> bodies [(0x2000, [97], 0x4000)])
      (\<lambda>f s. (0, s\<lparr>mem := (mem s)(0x9000 := 1)\<rparr>))"
    by (auto simp: keeps_def)
  from initialize_modules_runs [OF rep this] show ?thesis
    by auto
qed

end
