(* ===== verification/Elf.thy ===== *)
theory Elf
  imports Mm_Contract
begin

text \<open>
  The loader of modules in ELF format, kernel/src/modules/loader.c, with the structures of
  include/kernel/elf.h, and the initial ram disk stubs of kernel/src/initrd/initrd.c it calls.
  The image of a module is in memory; every segment to be loaded gets a block of the kernel heap.
\<close>

subsection \<open>elf.h\<close>

definition ELF_MAGIC :: u32 where "ELF_MAGIC = 0x464C457F"
definition PT_LOAD :: u32 where "PT_LOAD = 1"

text \<open>The packed header: magic at 0, elf[12] at 4, type at 16, machine at 18, version at 20, entry at
  24, phoff at 28, shoff at 32, flags at 36, ehsize at 40, phentsize at 42, phnum at 44.\<close>

definition eh_magic :: "mem \<Rightarrow> addr \<Rightarrow> u32" where "eh_magic m h = load32 m h"
definition eh_type :: "mem \<Rightarrow> addr \<Rightarrow> u16" where "eh_type m h = load16 m (h + 16)"
definition eh_machine :: "mem \<Rightarrow> addr \<Rightarrow> u16" where "eh_machine m h = load16 m (h + 18)"
definition eh_entry :: "mem \<Rightarrow> addr \<Rightarrow> u32" where "eh_entry m h = load32 m (h + 24)"
definition eh_phoff :: "mem \<Rightarrow> addr \<Rightarrow> u32" where "eh_phoff m h = load32 m (h + 28)"
definition eh_phnum :: "mem \<Rightarrow> addr \<Rightarrow> u16" where "eh_phnum m h = load16 m (h + 44)"

text \<open>The program header: type at 0, offset at 4, vaddr at 8, paddr at 12, filesz at 16, memsz at 20,
  flags at 24, align at 28; 32 bytes.\<close>

definition sizeof_program_header :: u32 where "sizeof_program_header = 32"
definition ph_type :: "mem \<Rightarrow> addr \<Rightarrow> u32" where "ph_type m p = load32 m p"
definition ph_offset :: "mem \<Rightarrow> addr \<Rightarrow> u32" where "ph_offset m p = load32 m (p + 4)"
definition ph_filesz :: "mem \<Rightarrow> addr \<Rightarrow> u32" where "ph_filesz m p = load32 m (p + 16)"
definition ph_memsz :: "mem \<Rightarrow> addr \<Rightarrow> u32" where "ph_memsz m p = load32 m (p + 20)"

lemmas elf_fields [layout_defs] = eh_magic_def eh_type_def eh_machine_def eh_entry_def eh_phoff_def eh_phnum_def
  ph_type_def ph_offset_def ph_filesz_def ph_memsz_def

subsection \<open>loader.c\<close>

text \<open>The copy of a segment into its block and the zeros behind it.\<close>

definition fill_segment :: "mem \<Rightarrow> addr \<Rightarrow> addr \<Rightarrow> addr \<Rightarrow> mem" where
  "fill_segment m seg_addr data ph =
     (let m = memcpy m seg_addr (data + ph_offset m ph) (ph_filesz m ph)
      in if ph_memsz m ph > ph_filesz m ph
         then memset m (seg_addr + ph_filesz m ph) 0 (ph_memsz m ph - ph_filesz m ph) else m)"

text \<open>The loop over the program headers, from number \<open>i\<close> at \<open>ph\<close> on; it yields whether all went well.
  The number of headers is read from the image again in every round.\<close>

function load_segments :: "addr \<Rightarrow> addr \<Rightarrow> nat \<Rightarrow> 'a mm_state_scheme \<Rightarrow> (bool \<times> 'a mm_state_scheme) option" where
  "load_segments data ph i s =
     (if i < unat (eh_phnum (mem s) data)
      then if ph_type (mem s) ph = PT_LOAD
           then do {
             (seg_addr, s) \<leftarrow> kmalloc (ph_memsz (mem s) ph) s;
             if seg_addr = NULL
             then Some (False, printk (''Failed to allocate memory for segment'' @ nl) s)
             else load_segments data (ph + sizeof_program_header) (Suc i)
                    (with_mem (fill_segment (mem s) seg_addr data ph) s)
           }
           else load_segments data (ph + sizeof_program_header) (Suc i) s
      else Some (True, s))"
  by auto

termination
proof (relation "measure (\<lambda>(data, ph, i, s). 65536 - i)")
  have less: "65536 - Suc i < 65536 - i" if "i < unat w" for i and w :: u16
    using that unsigned_less [of w, where ?'a = nat] by (intro diff_less_mono2) simp_all
  fix data ph :: addr and i and s t :: "'a mm_state_scheme"
  assume "i < unat (eh_phnum (mem s) data)"
  then have "65536 - Suc i < 65536 - i"
    by (rule less)
  then show "((data, ph + sizeof_program_header, Suc i, t), data, ph, i, s) \<in> measure (\<lambda>(data, ph, i, s). 65536 - i)"
    "((data, ph + sizeof_program_header, Suc i, s), data, ph, i, s) \<in> measure (\<lambda>(data, ph, i, s). 65536 - i)"
    by (simp_all del: diff_Suc_Suc)
qed auto

declare load_segments.simps [simp del]

definition load_elf_module :: "addr \<Rightarrow> u32 \<Rightarrow> 'a mm_state_scheme \<Rightarrow> (addr \<times> 'a mm_state_scheme) option" where
  "load_elf_module data sz s =
     (if eh_magic (mem s) data \<noteq> ELF_MAGIC then Some (NULL, printk (''Invalid ELF magic: 0x%x'' @ nl) s)
      else if eh_type (mem s) data \<noteq> 2 then Some (NULL, printk (''Not an executable ELF'' @ nl) s)
      else if eh_machine (mem s) data \<noteq> 3 then Some (NULL, printk (''Not i386 ELF'' @ nl) s)
      else do {
        (ok, t) \<leftarrow> load_segments data (data + eh_phoff (mem s) data) 0 s;
        Some (if ok then eh_entry (mem t) data else NULL, t)
      })"

type_synonym 'a entry_code = "addr \<Rightarrow> 'a mm_state_scheme \<Rightarrow> int \<times> 'a mm_state_scheme"

definition load_module :: "'a entry_code \<Rightarrow> addr \<Rightarrow> addr \<Rightarrow> 'a mm_state_scheme \<Rightarrow> (int \<times> 'a mm_state_scheme) option" where
  "load_module call data name s =
     do {
       (entry, s) \<leftarrow> load_elf_module data 0 s;
       if entry = NULL then Some (-1, printk (''Failed to load module %s'' @ nl) s)
       else let (r, s) = call entry s
            in Some (r, printk (''Module %s loaded at 0x%x, init returned %d'' @ nl) s)
     }"

subsection \<open>initrd.c\<close>

definition cpio_get_file :: "addr \<Rightarrow> 'a machine_scheme \<Rightarrow> addr \<times> u32 \<times> 'a machine_scheme" where
  "cpio_get_file filename s = (NULL, 0, printk (''cpio_get_file: looking for file %s'' @ nl) s)"

definition load_module_from_cpio :: "'a entry_code \<Rightarrow> addr \<Rightarrow> 'a mm_state_scheme \<Rightarrow> (int \<times> 'a mm_state_scheme) option" where
  "load_module_from_cpio call filename s =
     (case cpio_get_file filename s of (data, sz, s) \<Rightarrow>
        if data = NULL then Some (-1, printk (''Module not found: %s'' @ nl) s)
        else do {
          (entry, s) \<leftarrow> load_elf_module data sz (printk (''Loading module %s, size: %d'' @ nl) s);
          if entry = NULL then Some (-1, printk (''Failed to load ELF module %s'' @ nl) s)
          else let (r, s) = call entry s
               in Some (r, printk (''Module %s loaded at 0x%x, init returned %d'' @ nl) s)
        })"

definition elf_load_module :: "addr \<Rightarrow> u32 \<Rightarrow> 'a machine_scheme \<Rightarrow> addr \<times> 'a machine_scheme" where
  "elf_load_module data sz s = (NULL, printk (''ELF module loading not implemented yet'' @ nl) s)"

text \<open>\<open>info\<close> is the global pointer to the multiboot structure of initrd.c; mods\_count is at 20.\<close>

definition load_modules_from_initrd :: "addr \<Rightarrow> 'a machine_scheme \<Rightarrow> int \<times> 'a machine_scheme" where
  "load_modules_from_initrd info s =
     (let s = printk (''Starting module loading from initrd...'' @ nl) s
      in if info = NULL then (0, printk (''No multiboot info available'' @ nl) s)
         else if load32 (mem s) (info + 20) = 0 then (0, printk (''No modules found in multiboot info'' @ nl) s)
         else (0, printk (''Module loading from multiboot not fully implemented yet'' @ nl)
                    (printk (''Found %d modules in multiboot info'' @ nl) s)))"

definition initrd_init :: "u32 \<Rightarrow> u32 \<Rightarrow> 'a machine_scheme \<Rightarrow> 'a machine_scheme" where
  "initrd_init start end_addr s = printk (''initrd_init: initialize initrd at 0x%x-0x%x'' @ nl) s"

definition initrd_list_files :: "'a machine_scheme \<Rightarrow> 'a machine_scheme" where
  "initrd_list_files s = printk (''initrd_list_files: listing files in initrd'' @ nl) s"

definition initrd_verify_signatures :: "'a machine_scheme \<Rightarrow> int \<times> 'a machine_scheme" where
  "initrd_verify_signatures s = (1, printk (''initrd_verify_signatures: verifying module signatures'' @ nl) s)"

subsection \<open>Segments\<close>

text \<open>What the program headers ask for: source in the image, size there, size in memory.\<close>

type_synonym segment = "addr \<times> u32 \<times> u32"

fun segments :: "mem \<Rightarrow> addr \<Rightarrow> addr \<Rightarrow> nat \<Rightarrow> segment list" where
  "segments m data ph 0 = []"
| "segments m data ph (Suc n) =
     (if ph_type m ph = PT_LOAD then [(data + ph_offset m ph, ph_filesz m ph, ph_memsz m ph)] else [])
       @ segments m data (ph + sizeof_program_header) n"

text \<open>A segment that fits in its own memory and in the image, which has \<open>len\<close> bytes.\<close>

definition segment_ok :: "addr set \<Rightarrow> segment \<Rightarrow> bool" where
  "segment_ok I = (\<lambda>(src, filesz, memsz). filesz \<le> memsz \<and> 0 < unat memsz \<and> unat memsz \<le> 4294967288
     \<and> span src (unat filesz) \<subseteq> I)"

text \<open>What a loaded segment looks like: the bytes of the file, then zeros.\<close>

definition segment_bytes :: "mem \<Rightarrow> segment \<Rightarrow> u8 list" where
  "segment_bytes m = (\<lambda>(src, filesz, memsz). bytes_at m src (unat filesz) @ replicate (unat memsz - unat filesz) 0)"

lemma bytes_at_append: "bytes_at m a (n + k) = bytes_at m a n @ bytes_at m (a + of_nat n) k"
  by (induction n arbitrary: a) (simp_all add: bytes_at_Suc add.assoc)

lemma span_parts:
  assumes "filesz \<le> memsz"
  shows "span dst (unat memsz) = span dst (unat filesz) \<union> span (dst + filesz) (unat (memsz - filesz))"
  using span_split [of dst "unat filesz" "unat (memsz - filesz)"] assms
  by (simp add: unat_diff_le word32_le_nat)

text \<open>Filling a segment whose header keeps its contents: the fields are those before.\<close>

definition fill_bytes :: "mem \<Rightarrow> addr \<Rightarrow> addr \<Rightarrow> u32 \<Rightarrow> u32 \<Rightarrow> mem" where
  "fill_bytes m dst src filesz memsz =
     (let m = memcpy m dst src filesz
      in if memsz > filesz then memset m (dst + filesz) 0 (memsz - filesz) else m)"

lemma header_fields_frame:
  assumes "\<And>x. x \<in> span ph 32 \<Longrightarrow> m' x = m x"
  shows "ph_type m' ph = ph_type m ph" "ph_offset m' ph = ph_offset m ph" "ph_filesz m' ph = ph_filesz m ph"
    "ph_memsz m' ph = ph_memsz m ph"
proof -
  have "span ph 4 \<subseteq> span ph 32"
    by (rule span_mono) simp
  moreover have "span (ph + 4) 4 \<subseteq> span ph 32" "span (ph + 16) 4 \<subseteq> span ph 32" "span (ph + 20) 4 \<subseteq> span ph 32"
    by (rule span_offset_subset; simp)+
  ultimately show "ph_type m' ph = ph_type m ph" "ph_offset m' ph = ph_offset m ph" "ph_filesz m' ph = ph_filesz m ph"
    "ph_memsz m' ph = ph_memsz m ph"
    unfolding elf_fields using assms by (auto intro!: load32_span)
qed

lemma fill_bytes_other:
  assumes "filesz \<le> memsz" "x \<notin> span dst (unat memsz)"
  shows "fill_bytes m dst src filesz memsz x = m x"
  using assms(2) by (auto simp: fill_bytes_def Let_def span_parts [OF assms(1)] memcpy_other memset_other)

lemma fill_bytes_bytes:
  assumes "filesz \<le> memsz" "span dst (unat memsz) \<inter> span src (unat filesz) = {}"
  shows "bytes_at (fill_bytes m dst src filesz memsz) dst (unat memsz) = segment_bytes m (src, filesz, memsz)"
proof -
  let ?f = "unat filesz" and ?k = "unat (memsz - filesz)"
  have k: "?k = unat memsz - ?f" "unat memsz = ?f + ?k"
    using assms(1) by (simp_all add: unat_diff_le word32_le_nat)
  note sp = span_parts [OF assms(1), of dst]
  have disj: "span dst ?f \<inter> span (dst + filesz) ?k = {}"
  proof (cases "filesz = 0")
    case False
    then have f: "0 < ?f" "?f < 4294967296"
      using unat32_less [of filesz] by (simp_all add: unat_gt_0)
    then have "- filesz = of_nat (4294967296 - ?f)"
      by (simp add: of_nat_diff)
    then have "unat (- filesz) = 4294967296 - ?f"
      using f by (metis unat_of_nat32 diff_less zero_less_numeral)
    with k unat32_less [of memsz] show ?thesis
      by (intro span_disjoint) simp_all
  qed simp
  let ?m = "memcpy m dst src filesz"
  have copy: "bytes_at ?m dst ?f = bytes_at m src ?f"
    using assms(2) sp by (intro bytes_at_memcpy) auto
  show "bytes_at (fill_bytes m dst src filesz memsz) dst (unat memsz) = segment_bytes m (src, filesz, memsz)"
  proof (cases "memsz > filesz")
    case True
    have "bytes_at (memset ?m (dst + filesz) 0 (memsz - filesz)) dst ?f = bytes_at ?m dst ?f"
      using disj by (intro bytes_at_span memset_other) auto
    with True copy bytes_at_memset [of ?m "dst + filesz" 0 "memsz - filesz"] show ?thesis
      unfolding k(2) by (simp add: fill_bytes_def bytes_at_append segment_bytes_def k(1))
  next
    case False
    with assms(1) have "memsz = filesz" by simp
    with copy show ?thesis
      by (simp add: fill_bytes_def segment_bytes_def)
  qed
qed

lemma fill_segment_fill_bytes:
  assumes "ph_filesz m ph \<le> ph_memsz m ph" "span dst (unat (ph_memsz m ph)) \<inter> span ph 32 = {}"
  shows "fill_segment m dst data ph = fill_bytes m dst (data + ph_offset m ph) (ph_filesz m ph) (ph_memsz m ph)"
proof -
  let ?m = "memcpy m dst (data + ph_offset m ph) (ph_filesz m ph)"
  have "?m x = m x" if "x \<in> span ph 32" for x
    using assms(2) that span_parts [OF assms(1)] by (intro memcpy_other) blast
  from header_fields_frame [OF this] show ?thesis
    by (simp add: fill_segment_def fill_bytes_def Let_def)
qed

end
