(* ===== verification/Elf_Props.thy ===== *)
theory Elf_Props
  imports Elf Mm_Props
begin

text \<open>
  The properties of the ELF loader: what a load puts on the heap, what it leaves behind when it
  fails, and which images it refuses.
\<close>

subsection \<open>The image stays as it is\<close>

lemma headers_split: "span ph (32 * Suc n) = span ph 32 \<union> span (ph + sizeof_program_header) (32 * n)"
  using span_split [of ph 32 "32 * n"] by (simp add: sizeof_program_header_def)

lemma segments_frame:
  "(\<And>x. x \<in> span ph (32 * n) \<Longrightarrow> m' x = m x) \<Longrightarrow> segments m' data ph n = segments m data ph n"
proof (induction n arbitrary: ph)
  case (Suc n)
  have sub: "span ph 32 \<subseteq> span ph (32 * Suc n)" "span (ph + sizeof_program_header) (32 * n) \<subseteq> span ph (32 * Suc n)"
    unfolding headers_split by blast+
  have "segments m' data (ph + sizeof_program_header) n = segments m data (ph + sizeof_program_header) n"
    by (rule Suc.IH) (use Suc.prems sub(2) in blast)
  moreover have "\<And>x. x \<in> span ph 32 \<Longrightarrow> m' x = m x"
    using Suc.prems sub(1) by blast
  note header_fields_frame [OF this]
  ultimately show ?case by simp
qed simp

lemma segment_bytes_frame:
  assumes "segment_ok I g" "\<And>x. x \<in> I \<Longrightarrow> m' x = m x"
  shows "segment_bytes m' g = segment_bytes m g"
proof -
  obtain src filesz memsz where g: "g = (src, filesz, memsz)" by (cases g)
  with assms have "bytes_at m' src (unat filesz) = bytes_at m src (unat filesz)"
    by (intro bytes_at_span) (auto simp: segment_ok_def)
  then show ?thesis
    by (simp add: g segment_bytes_def)
qed

subsection \<open>Loading the segments\<close>

text \<open>The region \<open>(a, k)\<close> holds the segment.\<close>

definition holds_segment :: "mem \<Rightarrow> mem \<Rightarrow> nat \<times> nat \<Rightarrow> segment \<Rightarrow> bool" where
  "holds_segment m0 m = (\<lambda>(a, k) g. unat (snd (snd g)) \<le> k \<and> bytes_at m (of_nat a) (unat (snd (snd g))) = segment_bytes m0 g)"

definition loaded_state :: "'a mm_state_scheme \<Rightarrow> (nat \<times> nat) set \<Rightarrow> segment list \<Rightarrow> bool
    \<Rightarrow> (nat \<times> nat) list \<Rightarrow> 'a mm_state_scheme \<Rightarrow> bool" where
  "loaded_state s L gs ok rs t \<longleftrightarrow> heap_owns t (L \<union> set rs) \<and> L \<inter> set rs = {} \<and> distinct rs
     \<and> heap_arena t = heap_arena s \<and> (\<forall>x. x \<in> regions L \<or> x \<notin> heap_arena s \<longrightarrow> mem t x = mem s x)
     \<and> (ok \<longleftrightarrow> length rs = length gs) \<and> list_all2 (holds_segment (mem s) (mem t)) rs (take (length rs) gs)"

lemma segment_step:
  assumes own: "heap_owns s L" and I: "I \<subseteq> regions L \<union> - heap_arena s" and ok: "segment_ok I (src, filesz, memsz)"
    and k: "kmalloc memsz s = Some (r, s1)" "r \<noteq> NULL" and hdr: "span ph 32 \<subseteq> I"
    and fields: "src = data + ph_offset (mem s) ph" "filesz = ph_filesz (mem s) ph" "memsz = ph_memsz (mem s) ph"
  defines "m \<equiv> fill_segment (mem s1) r data ph"
  obtains n where "unat memsz \<le> n" "(unat r, n) \<notin> L" "heap_owns (with_mem m s1) (insert (unat r, n) L)"
    "\<And>x. x \<in> regions L \<or> x \<notin> heap_arena s \<Longrightarrow> m x = mem s x" "heap_arena s1 = heap_arena s"
    "bytes_at m r (unat memsz) = segment_bytes (mem s) (src, filesz, memsz)"
    "span r (unat memsz) = region (unat r) (unat memsz)"
proof -
  have sz: "0 < unat memsz" "unat memsz \<le> 4294967288" "filesz \<le> memsz" "span src (unat filesz) \<subseteq> I"
    using ok by (simp_all add: segment_ok_def)
  obtain k where k': "unat memsz \<le> k" "(unat r, k) \<notin> L" "heap_owns s1 (insert (unat r, k) L)"
    using mm.alloc_grants [OF own sz(1,2) k] by blast
  have arena: "heap_arena s1 = heap_arena s" and kept: "\<And>x. x \<in> regions L \<or> x \<notin> heap_arena s \<Longrightarrow> mem s1 x = mem s x"
    using mm.alloc_frame [OF own sz(1,2) k(1)] by auto
  have sp: "span r (unat memsz) = region (unat r) (unat memsz)"
    using mm.owned_span [OF k'(3) _ k'(1)] by simp
  have "regions {(unat r, k)} \<inter> regions L = {}"
    using k'(2,3) by (intro mm.owned_regions_disjoint [of s1]) simp_all
  then have "region (unat r) k \<inter> regions L = {}"
    by (simp add: regions_def)
  moreover have "region (unat r) k \<subseteq> heap_arena s"
    using mm.owned_arena [OF k'(3)] by (simp add: arena)
  ultimately have "region (unat r) k \<inter> I = {}"
    using I by blast
  moreover have "span r (unat memsz) \<subseteq> region (unat r) k"
    using k'(1) by (auto simp: sp)
  ultimately have apart: "span r (unat memsz) \<inter> I = {}"
    by blast
  have "mem s1 x = mem s x" if "x \<in> span ph 32" for x
    using I kept hdr that by blast
  note same = header_fields_frame [OF this]
  have "m = fill_bytes (mem s1) r (data + ph_offset (mem s1) ph) (ph_filesz (mem s1) ph) (ph_memsz (mem s1) ph)"
    unfolding m_def by (rule fill_segment_fill_bytes) (use sz(3) apart hdr fields same in auto)
  then have m: "m = fill_bytes (mem s1) r src filesz memsz"
    by (simp only: same fields)
  have out: "m x = mem s1 x" if "x \<notin> span r (unat memsz)" for x
    unfolding m using sz(3) that by (rule fill_bytes_other)
  from mm.alloc_fill [OF own sz(1,2) k out] obtain n where n: "unat memsz \<le> n" "(unat r, n) \<notin> L"
    "heap_owns (with_mem m s1) (insert (unat r, n) L)" "\<And>x. x \<in> regions L \<or> x \<notin> heap_arena s \<Longrightarrow> m x = mem s x"
    by blast
  have disj: "span r (unat memsz) \<inter> span src (unat filesz) = {}"
    using sz(4) apart by blast
  have "mem s1 x = mem s x" if "x \<in> I" for x
    using I kept that by blast
  from segment_bytes_frame [OF ok this]
  have "bytes_at m r (unat memsz) = segment_bytes (mem s) (src, filesz, memsz)"
    unfolding m fill_bytes_bytes [OF sz(3) disj] .
  with that n arena sp show thesis by blast
qed

lemma eh_phnum_frame: "(\<And>x. x \<in> span h 52 \<Longrightarrow> m' x = m x) \<Longrightarrow> eh_phnum m' h = eh_phnum m h"
  using span_offset_subset [of 44 2 52 h] unfolding elf_fields by (intro load16_span) auto

lemma load_segments_loads:
  assumes "heap_owns s L" "I \<subseteq> regions L \<union> - heap_arena s" "span ph (32 * n) \<subseteq> I"
    "list_all (segment_ok I) (segments (mem s) data ph n)" "span data 52 \<subseteq> I" "unat (eh_phnum (mem s) data) = i + n"
  shows "\<exists>ok t rs. load_segments data ph i s = Some (ok, t) \<and> loaded_state s L (segments (mem s) data ph n) ok rs t"
  using assms
proof (induction n arbitrary: s L ph i)
  case 0
  then show ?case
    by (intro exI [of _ True] exI [of _ s] exI [of _ "[]"]) (simp add: loaded_state_def load_segments.simps)
next
  case (Suc n)
  let ?next = "ph + sizeof_program_header"
  have hdr: "span ph 32 \<subseteq> I" "span ?next (32 * n) \<subseteq> I"
    using Suc.prems(3) unfolding headers_split by blast+
  have more: "i < unat (eh_phnum (mem s) data)" "unat (eh_phnum (mem s) data) = Suc i + n"
    using Suc.prems(6) by simp_all
  note unroll = load_segments.simps [of data ph i s]
  show ?case
  proof (cases "ph_type (mem s) ph = PT_LOAD")
    case False
    with Suc.IH [OF Suc.prems(1,2) hdr(2) _ Suc.prems(5) more(2)] Suc.prems(4) more(1) show ?thesis
      by (simp add: unroll)
  next
    case True
    let ?src = "data + ph_offset (mem s) ph" and ?filesz = "ph_filesz (mem s) ph" and ?memsz = "ph_memsz (mem s) ph"
    let ?g = "(?src, ?filesz, ?memsz)" and ?gs = "segments (mem s) data ?next n"
    have gs: "segments (mem s) data ph (Suc n) = ?g # ?gs"
      using True by simp
    have g: "segment_ok I ?g" "list_all (segment_ok I) ?gs"
      using Suc.prems(4) unfolding gs by simp_all
    then have sz: "0 < unat ?memsz" "unat ?memsz \<le> 4294967288"
      by (simp_all add: segment_ok_def)
    obtain r s1 where k: "kmalloc ?memsz s = Some (r, s1)"
      using mm.alloc_returns [OF Suc.prems(1) sz] by blast
    note fr = mm.alloc_frame [OF Suc.prems(1) sz k]
    show ?thesis
    proof (cases "r = NULL")
      case True
      with k have load: "load_segments data ph i s = Some (False, printk (''Failed to allocate memory for segment'' @ nl) s1)"
        using \<open>ph_type (mem s) ph = PT_LOAD\<close> more(1) by (simp add: unroll)
      have "heap_owns s1 L" "mem s1 = mem s"
        using mm.alloc_fails [OF Suc.prems(1) sz] k True by blast+
      with fr have "loaded_state s L (?g # ?gs) False [] (printk (''Failed to allocate memory for segment'' @ nl) s1)"
        by (simp add: loaded_state_def)
      with load show ?thesis
        unfolding gs by blast
    next
      case False
      define m where "m = fill_segment (mem s1) r data ph"
      obtain l where l: "unat ?memsz \<le> l" "(unat r, l) \<notin> L" "heap_owns (with_mem m s1) (insert (unat r, l) L)"
        "\<And>x. x \<in> regions L \<or> x \<notin> heap_arena s \<Longrightarrow> m x = mem s x" "heap_arena s1 = heap_arena s"
        "bytes_at m r (unat ?memsz) = segment_bytes (mem s) ?g" "span r (unat ?memsz) = region (unat r) (unat ?memsz)"
        using segment_step [OF Suc.prems(1,2) g(1) k False hdr(1) refl refl refl] unfolding m_def by blast
      let ?s = "with_mem m s1"
      have keep: "m x = mem s x" if "x \<in> I" for x
        using Suc.prems(2) l(4) that by blast
      have load: "load_segments data ph i s = load_segments data ?next (Suc i) ?s"
        using \<open>ph_type (mem s) ph = PT_LOAD\<close> k False more(1) by (simp add: unroll m_def)
      have mem: "mem ?s = m" and arena: "heap_arena ?s = heap_arena s"
        using l(5) by (simp_all add: with_mem_def heap_arena_def)
      have later: "segments (mem ?s) data ?next n = ?gs"
        unfolding mem by (rule segments_frame) (use keep hdr(2) in blast)
      have "I \<subseteq> regions (insert (unat r, l) L) \<union> - heap_arena ?s"
        using Suc.prems(2) arena by auto
      moreover have "unat (eh_phnum (mem ?s) data) = Suc i + n"
        unfolding mem more(2) [symmetric]
        by (rule arg_cong [where f = unat], rule eh_phnum_frame) (use keep Suc.prems(5) in blast)
      ultimately obtain ok t rs where
        ih: "load_segments data ?next (Suc i) ?s = Some (ok, t)" "loaded_state ?s (insert (unat r, l) L) ?gs ok rs t"
        using Suc.IH [OF l(3) _ hdr(2) _ Suc.prems(5)] g(2) later by auto
      have st: "loaded_state s L (?g # ?gs) ok ((unat r, l) # rs) t"
      proof -
        have i: "heap_owns t (insert (unat r, l) L \<union> set rs)" "insert (unat r, l) L \<inter> set rs = {}" "distinct rs"
          "heap_arena t = heap_arena s" "ok \<longleftrightarrow> length rs = length ?gs"
          "list_all2 (holds_segment m (mem t)) rs (take (length rs) ?gs)"
          "\<And>x. x \<in> regions (insert (unat r, l) L) \<or> x \<notin> heap_arena s \<Longrightarrow> mem t x = m x"
          using ih(2) unfolding loaded_state_def mem arena by blast+
        have "span r (unat ?memsz) \<subseteq> regions (insert (unat r, l) L)"
          using l(1,7) by auto
        then have "bytes_at (mem t) r (unat ?memsz) = bytes_at m r (unat ?memsz)"
          using i(7) by (intro bytes_at_span) blast
        then have first: "holds_segment (mem s) (mem t) (unat r, l) ?g"
          using l(1,6) by (simp add: holds_segment_def)
        have conv: "holds_segment (mem s) (mem t) a b" if "holds_segment m (mem t) a b" "segment_ok I b" for a b
          using that segment_bytes_frame [OF that(2) keep] by (auto simp: holds_segment_def)
        have okb: "segment_ok I b" if "b \<in> set (take (length rs) ?gs)" for b
          using g(2) in_set_takeD [OF that] by (simp add: list_all_iff)
        have "list_all2 (holds_segment (mem s) (mem t)) rs (take (length rs) ?gs)"
          by (rule list.rel_mono_strong [OF i(6)]) (rule conv, assumption, rule okb)
        moreover have "mem t x = mem s x" if "x \<in> regions L \<or> x \<notin> heap_arena s" for x
          using i(7) [of x] l(4) [of x] that by auto
        ultimately show ?thesis
          using i first l(2) by (auto simp: loaded_state_def)
      qed
      show ?thesis
        unfolding gs load ih(1) using st
        by (intro exI [of _ ok] exI [of _ t] exI [of _ "(unat r, l) # rs"] conjI refl)
    qed
  qed
qed

subsection \<open>Loading a module\<close>

definition elf_header_ok :: "mem \<Rightarrow> addr \<Rightarrow> bool" where
  "elf_header_ok m data \<longleftrightarrow> eh_magic m data = ELF_MAGIC \<and> eh_type m data = 2 \<and> eh_machine m data = 3"

text \<open>C30. \<open>load_elf_module\<close> of an image in the memory \<open>I\<close> of its clients, whose program headers lie in
  the image and whose loadable segments are not empty, lie in the image and are not larger there than
  in memory, returns, and \<open>load_segments\<close> inside it has put the first of the segments, in order, into
  fresh blocks of their own, each with the bytes of the image followed by zeros; the memory of the
  clients is unchanged. When memory sufficed these are all the segments and the result is the entry
  point of the image, unchanged although the segments are elsewhere; otherwise the result is NULL and
  the blocks filled so far stay allocated with nobody to hold them.\<close>

theorem load_elf_module_loads:
  fixes s :: "'a mm_state_scheme"
  assumes "heap_owns s L" "I \<subseteq> regions L \<union> - heap_arena s" "elf_header_ok (mem s) data" "span data 52 \<subseteq> I"
    "span (data + eh_phoff (mem s) data) (32 * unat (eh_phnum (mem s) data)) \<subseteq> I"
    "list_all (segment_ok I) (segments (mem s) data (data + eh_phoff (mem s) data) (unat (eh_phnum (mem s) data)))"
  shows "\<exists>r t ok rs. load_elf_module data sz s = Some (r, t)
    \<and> loaded_state s L (segments (mem s) data (data + eh_phoff (mem s) data) (unat (eh_phnum (mem s) data))) ok rs t
    \<and> r = (if ok then eh_entry (mem s) data else NULL)"
proof -
  let ?gs = "segments (mem s) data (data + eh_phoff (mem s) data) (unat (eh_phnum (mem s) data))"
  obtain ok t rs where l: "load_segments data (data + eh_phoff (mem s) data) 0 s = Some (ok, t)"
    "loaded_state s L ?gs ok rs t"
    using load_segments_loads [OF assms(1,2,5,6,4)] by auto
  have "mem t x = mem s x" if "x \<in> I" for x
    using l(2) assms(2) that unfolding loaded_state_def by blast
  moreover have "span (data + 24) 4 \<subseteq> span data 52"
    by (rule span_offset_subset) simp
  ultimately have "eh_entry (mem t) data = eh_entry (mem s) data"
    unfolding eh_entry_def using assms(4) by (intro load32_span) blast
  then have "load_elf_module data sz s = Some (if ok then eh_entry (mem s) data else NULL, t)"
    using assms(3) l(1) by (simp add: load_elf_module_def elf_header_ok_def)
  with l(2) show ?thesis by blast
qed

text \<open>An image of 88 bytes at 0x8000 with one segment: four bytes of the file, eight in memory.\<close>

definition elf_image :: mem where
  "elf_image = (\<lambda>_. 0)(0x8000 := 0x7F, 0x8001 := 0x45, 0x8002 := 0x4C, 0x8003 := 0x46, 0x8010 := 2, 0x8012 := 3,
     0x8018 := 0x10, 0x801A := 0x10, 0x801C := 52, 0x802C := 1, 0x8034 := 1, 0x8038 := 84, 0x8044 := 4, 0x8048 := 8,
     0x8054 := 1, 0x8055 := 2, 0x8056 := 3, 0x8057 := 4)"

definition elf_machine :: mm_state where
  "elf_machine = mm_init 0x120000 0x9000 \<lparr>mem = elf_image, klog = [], io = [], heap_start = NULL, heap_end = NULL,
     first_block = NULL, mm_stats = \<lparr>total_memory = 0, heap_size = 0, allocated = 0, alloc_count = 0, free_count = 0\<rparr>\<rparr>"

lemma elf_machine_ok:
  "heap_ok elf_machine [Blk 2097136 True]" "stats_ok elf_machine [Blk 2097136 True]" "heap_start elf_machine = 0x120000"
  "heap_arena elf_machine = {x. 0x120000 \<le> x \<and> x < 0x320000}"
  "\<And>x. unat x < 0x120000 \<Longrightarrow> mem elf_machine x = elf_image x"
proof -
  let ?s = "\<lparr>mem = elf_image, klog = [], io = [], heap_start = NULL, heap_end = NULL,
     first_block = NULL, mm_stats = \<lparr>total_memory = 0, heap_size = 0, allocated = 0, alloc_count = 0, free_count = 0\<rparr>\<rparr> :: mm_state"
  have "load32 (mem ?s) 0x9000 = 0"
    by (simp add: elf_image_def load32_def)
  note booted = booted_over [OF this]
  show "heap_ok elf_machine [Blk 2097136 True]" "stats_ok elf_machine [Blk 2097136 True]" "heap_start elf_machine = 0x120000"
    "heap_arena elf_machine = {x. 0x120000 \<le> x \<and> x < 0x320000}"
    using booted(1-4) by (simp_all add: elf_machine_def)
  show "unat x < 0x120000 \<Longrightarrow> mem elf_machine x = elf_image x" for x
    using booted(6) [of x] by (simp add: elf_machine_def)
qed

lemma elf_fields_low:
  assumes "\<And>x. unat x < 0x120000 \<Longrightarrow> m x = elf_image x"
  shows "elf_header_ok m 0x8000" "eh_phoff m 0x8000 = 52" "eh_phnum m 0x8000 = 1" "eh_entry m 0x8000 = 0x100010"
    "segments m 0x8000 0x8034 1 = [(0x8054, 4, 8)]"
    "segment_bytes m (0x8054, 4, 8) = [1, 2, 3, 4, 0, 0, 0, 0]"
    "ph_type m 0x8034 = PT_LOAD" "ph_memsz m 0x8034 = 8" "ph_offset m 0x8034 = 84" "ph_filesz m 0x8034 = 4"
proof -
  have m: "m x = elf_image x" if "x < 0x120000" for x
    using that assms by (simp add: word32_less_nat)
  show "elf_header_ok m 0x8000" "eh_phoff m 0x8000 = 52" "eh_phnum m 0x8000 = 1" "eh_entry m 0x8000 = 0x100010"
    "segments m 0x8000 0x8034 1 = [(0x8054, 4, 8)]" "ph_type m 0x8034 = PT_LOAD" "ph_memsz m 0x8034 = 8"
    "ph_offset m 0x8034 = 84" "ph_filesz m 0x8034 = 4"
    by (simp_all add: elf_header_ok_def elf_fields load32_def load16_def m ELF_MAGIC_def PT_LOAD_def One_nat_def)
      (simp_all add: elf_image_def)
  show "segment_bytes m (0x8054, 4, 8) = [1, 2, 3, 4, 0, 0, 0, 0]"
  proof -
    have "replicate 4 x = [x, x, x, x]" for x :: u8
      by (simp add: numeral_eq_Suc)
    then show ?thesis
      by (simp add: segment_bytes_def bytes_at_def m upt_rec) (simp add: elf_image_def)
  qed
qed

theorem load_elf_module_loads_witness:
  "\<exists>t a. load_elf_module 0x8000 88 elf_machine = Some (0x100010, t) \<and> bytes_at (mem t) a 8 = [1, 2, 3, 4, 0, 0, 0, 0]"
proof -
  let ?I = "- heap_arena elf_machine"
  note ok = elf_machine_ok
  have own: "heap_owns elf_machine {}"
    unfolding heap_owns_def using ok(1,2) by (intro exI [of _ "[Blk 2097136 True]"]) simp
  have low: "elf_header_ok (mem elf_machine) 0x8000" "eh_phoff (mem elf_machine) 0x8000 = 52"
    "eh_phnum (mem elf_machine) 0x8000 = 1" "eh_entry (mem elf_machine) 0x8000 = 0x100010"
    "segments (mem elf_machine) 0x8000 0x8034 1 = [(0x8054, 4, 8)]"
    "segment_bytes (mem elf_machine) (0x8054, 4, 8) = [1, 2, 3, 4, 0, 0, 0, 0]"
    "ph_type (mem elf_machine) 0x8034 = PT_LOAD" "ph_memsz (mem elf_machine) 0x8034 = 8"
    "ph_offset (mem elf_machine) 0x8034 = 84" "ph_filesz (mem elf_machine) 0x8034 = 4"
    by (rule elf_fields_low, rule ok(5), assumption)+
  have img: "span (0x8000 :: addr) 52 \<subseteq> ?I" "span (0x8034 :: addr) 32 \<subseteq> ?I" "span (0x8054 :: addr) 4 \<subseteq> ?I"
    by (auto simp: ok(4) in_span_nowrap word32_le_nat)
  have "list_all (segment_ok ?I) [(0x8054, 4, 8)]"
    using img(3) by (simp add: segment_ok_def)
  moreover have eqs: "(0x8000 :: addr) + eh_phoff (mem elf_machine) 0x8000 = 0x8034" "unat (eh_phnum (mem elf_machine) 0x8000) = 1"
    using low by simp_all
  ultimately have "\<exists>r t gok rs. load_elf_module 0x8000 88 elf_machine = Some (r, t)
    \<and> loaded_state elf_machine {} [(0x8054, 4, 8)] gok rs t \<and> r = (if gok then 0x100010 else NULL)"
    using load_elf_module_loads [OF own, of ?I "0x8000" 88, unfolded eqs low(4,5)] low(1) img
    by (simp only: mult_1_right Un_upper2 simp_thms)
  then obtain r t gok rs where
    l: "load_elf_module 0x8000 88 elf_machine = Some (r, t)" "loaded_state elf_machine {} [(0x8054, 4, 8)] gok rs t"
      "r = (if gok then 0x100010 else NULL)"
    by blast
  obtain s1 where "kmalloc 8 elf_machine = Some (0x120010, s1)"
    using kmalloc_blocks [OF ok(1,2), where sz = 8 and a = "0x120010" and bs' = "[Blk 8 False, Blk 2097112 True]"]
    by (auto simp: alloc_abs_def align_nat_def ok(3) carve_def)
  note k = this
  define m where "m = fill_segment (mem s1) 0x120010 0x8000 0x8034"
  from \<open>list_all (segment_ok ?I) [(0x8054, 4, 8)]\<close> have "segment_ok ?I (0x8054, 4, 8)"
    by simp
  with k img(2) low(8-10) obtain n where "(unat (0x120010 :: addr), n) \<notin> ({} :: (nat \<times> nat) set)"
    and frame: "\<And>x. x \<in> regions {} \<or> x \<notin> heap_arena elf_machine \<Longrightarrow> m x = mem elf_machine x"
    unfolding m_def by - (rule segment_step [OF own, of ?I "0x8054" 4 8 "0x120010" s1 "0x8034" "0x8000"], simp_all)
  then have "m x = mem elf_machine x" if "x \<in> ?I" for x
    using that by simp
  then have "\<And>x. x \<in> span 0x8000 52 \<Longrightarrow> m x = mem elf_machine x"
    using img(1) by blast
  then have "eh_phnum m 0x8000 = 1"
    unfolding low(3) [symmetric] by (rule eh_phnum_frame)
  then have "load_segments 0x8000 0x8034 0 elf_machine = Some (True, with_mem m s1)"
    using k low by (simp add: load_segments.simps m_def sizeof_program_header_def)
  then have "r = eh_entry (mem t) 0x8000"
    using l(1) low by (auto simp: load_elf_module_def elf_header_ok_def One_nat_def)
  moreover have "mem t x = mem elf_machine x" if "x \<in> span 0x8018 4" for x
    using that l(2) by (auto simp: loaded_state_def ok(4) in_span_nowrap word32_le_nat)
  then have "eh_entry (mem t) 0x8000 = eh_entry (mem elf_machine) 0x8000"
    unfolding eh_entry_def by (intro load32_span) simp
  ultimately have r: "r = 0x100010"
    using low(4) by simp
  with l(3) have "gok" by (simp split: if_splits)
  with l(2) obtain a k where "holds_segment (mem elf_machine) (mem t) (a, k) (0x8054, 4, 8)"
    by (auto simp: loaded_state_def length_Suc_conv)
  then have "bytes_at (mem t) (of_nat a) 8 = [1, 2, 3, 4, 0, 0, 0, 0]"
    using low(6) by (simp add: holds_segment_def)
  with l(1) r show ?thesis by blast
qed

text \<open>Every image with another magic number, type or machine is refused: \<open>load_elf_module\<close>
  returns NULL and \<open>load_module\<close> -1, and neither touches memory or runs code of the image.\<close>

theorem load_elf_module_refuses:
  fixes s :: "'a mm_state_scheme"
  assumes "\<not> elf_header_ok (mem s) data"
  shows "\<exists>t. load_elf_module data sz s = Some (NULL, t) \<and> mem t = mem s \<and> mm_state.more t = mm_state.more s
    \<and> load_module call data name s = Some (-1, printk (''Failed to load module %s'' @ nl) t)"
  using assms
  by (auto simp: load_module_def load_elf_module_def elf_header_ok_def printk_def)

theorem load_elf_module_refuses_witness:
  "\<exists>t. load_elf_module 0x9000 88 elf_machine = Some (NULL, t) \<and> mem t = mem elf_machine"
proof -
  have "load32 (mem elf_machine) 0x9000 = load32 elf_image 0x9000"
    by (rule load32_span, rule elf_machine_ok(5)) (simp add: in_span_nowrap)
  then have "\<not> elf_header_ok (mem elf_machine) 0x9000"
    by (simp add: elf_header_ok_def eh_magic_def ELF_MAGIC_def elf_image_def load32_def)
  from load_elf_module_refuses [OF this] show ?thesis by blast
qed

end
