(* ===== verification/Ata.thy ===== *)
theory Ata
  imports Console Registry
begin

text \<open>
  The disk driver modules/drivers/storage/ata: programmed I/O reads of 512-byte sectors with
  28-bit addresses. The three files ata_module.c, ata_improved.c and ata_module_simple.c are
  versions of one driver that differ in their log and their \<open>ioctl\<close>. What the disk answers
  is the parameter \<open>dev\<close> of the port accesses (Console.thy).
\<close>

subsection \<open>ata_module.c\<close>

definition ATA_DATA :: u16 where "ATA_DATA = 0x1F0"
definition ATA_SECTOR_COUNT :: u16 where "ATA_SECTOR_COUNT = 0x1F2"
definition ATA_LBA_LOW :: u16 where "ATA_LBA_LOW = 0x1F3"
definition ATA_LBA_MID :: u16 where "ATA_LBA_MID = 0x1F4"
definition ATA_LBA_HIGH :: u16 where "ATA_LBA_HIGH = 0x1F5"
definition ATA_DRIVE_HEAD :: u16 where "ATA_DRIVE_HEAD = 0x1F6"
definition ATA_COMMAND :: u16 where "ATA_COMMAND = 0x1F7"
definition ATA_STATUS :: u16 where "ATA_STATUS = 0x1F7"

lemmas ata_ports = ATA_DATA_def ATA_SECTOR_COUNT_def ATA_LBA_LOW_def ATA_LBA_MID_def ATA_LBA_HIGH_def
  ATA_DRIVE_HEAD_def ATA_COMMAND_def ATA_STATUS_def

text \<open>\<open>while (timeout--)\<close>: the counter is the last argument of the loop but the state.\<close>

fun ata_wait_busy_loop :: "device \<Rightarrow> nat \<Rightarrow> 'a machine_scheme \<Rightarrow> int \<times> 'a machine_scheme" where
  "ata_wait_busy_loop dev 0 s = (-1, s)"
| "ata_wait_busy_loop dev (Suc timeout) s =
     (let (status, s) = inb dev ATA_STATUS s
      in if status AND 0x80 = 0 then (0, s) else ata_wait_busy_loop dev timeout s)"

definition ata_wait_busy :: "device \<Rightarrow> 'a machine_scheme \<Rightarrow> int \<times> 'a machine_scheme" where
  "ata_wait_busy dev s = ata_wait_busy_loop dev 100000 s"

fun ata_wait_drq_loop :: "device \<Rightarrow> nat \<Rightarrow> 'a machine_scheme \<Rightarrow> int \<times> 'a machine_scheme" where
  "ata_wait_drq_loop dev 0 s = (-1, s)"
| "ata_wait_drq_loop dev (Suc timeout) s =
     (let (status, s) = inb dev ATA_STATUS s
      in if status AND 0x08 \<noteq> 0 then (0, s)
         else if status AND 0x01 \<noteq> 0 then (-1, s)
         else ata_wait_drq_loop dev timeout s)"

definition ata_wait_drq :: "device \<Rightarrow> 'a machine_scheme \<Rightarrow> int \<times> 'a machine_scheme" where
  "ata_wait_drq dev s = ata_wait_drq_loop dev 100000 s"

text \<open>\<open>buf[i] = inw(ATA_DATA)\<close> for the next \<open>n\<close> values of \<open>i\<close>.\<close>

fun ata_read_words :: "device \<Rightarrow> addr \<Rightarrow> u32 \<Rightarrow> nat \<Rightarrow> 'a machine_scheme \<Rightarrow> 'a machine_scheme" where
  "ata_read_words dev buf i 0 s = s"
| "ata_read_words dev buf i (Suc n) s =
     (let (w, s) = inw dev ATA_DATA s
      in ata_read_words dev buf (i + 1) n (s\<lparr>mem := store16 (mem s) (buf + 2 * i) w\<rparr>))"

text \<open>The loop over the sectors, \<open>n\<close> of them left. What is logged is an argument; the result says
  whether all sectors were read.\<close>

fun ata_read_loop :: "device \<Rightarrow> ('a machine_scheme \<Rightarrow> 'a machine_scheme) \<Rightarrow> addr \<Rightarrow> nat
    \<Rightarrow> 'a machine_scheme \<Rightarrow> int \<times> 'a machine_scheme" where
  "ata_read_loop dev timeout_log buf 0 s = (0, s)"
| "ata_read_loop dev timeout_log buf (Suc n) s =
     (let (r, s) = ata_wait_drq dev s
      in if r < 0 then (-1, timeout_log s)
         else ata_read_loop dev timeout_log (buf + 512) n (ata_read_words dev buf 0 256 s))"

text \<open>The registers of the transfer and the READ SECTORS command.\<close>

definition ata_command :: "u64 \<Rightarrow> u32 \<Rightarrow> 'a machine_scheme \<Rightarrow> 'a machine_scheme" where
  "ata_command lba count s =
     (let s = outb ATA_DRIVE_HEAD (ucast (0xE0 OR (drop_bit 24 lba AND 0x0F))) s;
          s = outb ATA_SECTOR_COUNT (ucast count) s;
          s = outb ATA_LBA_LOW (ucast (lba AND 0xFF)) s;
          s = outb ATA_LBA_MID (ucast (drop_bit 8 lba AND 0xFF)) s;
          s = outb ATA_LBA_HIGH (ucast (drop_bit 16 lba AND 0xFF)) s
      in outb ATA_COMMAND 0x20 s)"

definition ata_read_sectors :: "device \<Rightarrow> u64 \<Rightarrow> addr \<Rightarrow> u32 \<Rightarrow> 'a machine_scheme \<Rightarrow> int \<times> 'a machine_scheme" where
  "ata_read_sectors dev lba buffer count s =
     (let (r, s) = ata_wait_busy dev s
      in if r < 0 then (-1, printk (''ATA: Device busy timeout'' @ nl) s)
         else
           let (r, s) = ata_read_loop dev (printk (''ATA: DRQ timeout on sector %d'' @ nl)) buffer (unat count)
                          (ata_command lba count s)
           in if r < 0 then (-1, s)
              else (0, printk (''ATA: Read %d sectors from LBA %lld'' @ nl) s))"

definition ata_get_capacity :: u64 where
  "ata_get_capacity = 32 * 1024 * 1024"

definition ata_ioctl :: "u32 \<Rightarrow> 'a machine_scheme \<Rightarrow> int \<times> 'a machine_scheme" where
  "ata_ioctl cmd s = (0, printk (''ATA: IOCTL command %d'' @ nl) s)"

definition ata_init :: "'a machine_scheme \<Rightarrow> 'a machine_scheme" where
  "ata_init s =
     printk (''  Capacity: %d MB'' @ nl)
       (printk (''  Provides: %s interface'' @ nl) (printk (''ATA Disk Driver initialized as module'' @ nl) s))"

definition ata_exit :: "'a machine_scheme \<Rightarrow> 'a machine_scheme" where
  "ata_exit s = printk (''ATA Disk Driver unloaded'' @ nl) s"

text \<open>\<open>name\<close> is the address of the literal "block_storage", \<open>storage\<close> that of the static structure.\<close>

definition ata_register_interfaces :: "addr \<Rightarrow> addr \<Rightarrow> 'a registry_state_scheme \<Rightarrow> 'a registry_state_scheme option" where
  "ata_register_interfaces name storage s = interface_register name storage s"

subsection \<open>ata_improved.c and ata_module_simple.c\<close>

definition ata_improved_ioctl :: "u32 \<Rightarrow> 'a machine_scheme \<Rightarrow> int \<times> 'a machine_scheme" where
  "ata_improved_ioctl cmd s =
     (if cmd = 1 then (0, printk (''ATA: IOCTL get device info'' @ nl) s)
      else if cmd = 2 then (0, printk (''ATA: IOCTL flush cache'' @ nl) s)
      else (-1, printk (''ATA: Unknown IOCTL command %d'' @ nl) s))"

definition ata_improved_init :: "'a machine_scheme \<Rightarrow> 'a machine_scheme" where
  "ata_improved_init s =
     printk (''  Capacity: %d MB'' @ nl)
       (printk (''  Provides: %s interface'' @ nl) (printk (''ATA Disk Driver initialized'' @ nl) s))"

fun ata_improved_wait_busy_loop :: "device \<Rightarrow> nat \<Rightarrow> 'a machine_scheme \<Rightarrow> int \<times> 'a machine_scheme" where
  "ata_improved_wait_busy_loop dev 0 s = (-1, s)"
| "ata_improved_wait_busy_loop dev (Suc timeout) s =
     (let (status, s) = inb dev ATA_STATUS s
      in if status AND 0x80 = 0 then (0, s) else ata_improved_wait_busy_loop dev timeout s)"

definition ata_improved_wait_busy :: "device \<Rightarrow> 'a machine_scheme \<Rightarrow> int \<times> 'a machine_scheme" where
  "ata_improved_wait_busy dev s = ata_improved_wait_busy_loop dev 100000 s"

fun ata_improved_wait_drq_loop :: "device \<Rightarrow> nat \<Rightarrow> 'a machine_scheme \<Rightarrow> int \<times> 'a machine_scheme" where
  "ata_improved_wait_drq_loop dev 0 s = (-1, s)"
| "ata_improved_wait_drq_loop dev (Suc timeout) s =
     (let (status, s) = inb dev ATA_STATUS s
      in if status AND 0x08 \<noteq> 0 then (0, s)
         else if status AND 0x01 \<noteq> 0 then (-1, s)
         else ata_improved_wait_drq_loop dev timeout s)"

definition ata_improved_wait_drq :: "device \<Rightarrow> 'a machine_scheme \<Rightarrow> int \<times> 'a machine_scheme" where
  "ata_improved_wait_drq dev s = ata_improved_wait_drq_loop dev 100000 s"

definition ata_improved_command :: "u64 \<Rightarrow> u32 \<Rightarrow> 'a machine_scheme \<Rightarrow> 'a machine_scheme" where
  "ata_improved_command lba count s =
     (let s = outb ATA_DRIVE_HEAD (ucast (0xE0 OR (drop_bit 24 lba AND 0x0F))) s;
          s = outb ATA_SECTOR_COUNT (ucast count) s;
          s = outb ATA_LBA_LOW (ucast (lba AND 0xFF)) s;
          s = outb ATA_LBA_MID (ucast (drop_bit 8 lba AND 0xFF)) s;
          s = outb ATA_LBA_HIGH (ucast (drop_bit 16 lba AND 0xFF)) s
      in outb ATA_COMMAND 0x20 s)"

fun ata_improved_read_words :: "device \<Rightarrow> addr \<Rightarrow> u32 \<Rightarrow> nat \<Rightarrow> 'a machine_scheme \<Rightarrow> 'a machine_scheme" where
  "ata_improved_read_words dev buf i 0 s = s"
| "ata_improved_read_words dev buf i (Suc n) s =
     (let (w, s) = inw dev ATA_DATA s
      in ata_improved_read_words dev buf (i + 1) n (s\<lparr>mem := store16 (mem s) (buf + 2 * i) w\<rparr>))"

fun ata_improved_read_loop :: "device \<Rightarrow> addr \<Rightarrow> nat \<Rightarrow> 'a machine_scheme \<Rightarrow> int \<times> 'a machine_scheme" where
  "ata_improved_read_loop dev buf 0 s = (0, s)"
| "ata_improved_read_loop dev buf (Suc n) s =
     (let (r, s) = ata_improved_wait_drq dev s
      in if r < 0 then (-1, printk (''ATA: DRQ timeout on sector %d'' @ nl) s)
         else ata_improved_read_loop dev (buf + 512) n (ata_improved_read_words dev buf 0 256 s))"

definition ata_improved_read_sectors :: "device \<Rightarrow> u64 \<Rightarrow> addr \<Rightarrow> u32 \<Rightarrow> 'a machine_scheme \<Rightarrow> int \<times> 'a machine_scheme" where
  "ata_improved_read_sectors dev lba buffer count s =
     (let (r, s) = ata_improved_wait_busy dev s
      in if r < 0 then (-1, printk (''ATA: Device busy timeout'' @ nl) s)
         else
           let (r, s) = ata_improved_read_loop dev buffer (unat count) (ata_improved_command lba count s)
           in if r < 0 then (-1, s)
              else (0, printk (''ATA: Read %d sectors from LBA %lld'' @ nl) s))"

text \<open>The simple version logs nothing.\<close>

fun ata_simple_wait_busy_loop :: "device \<Rightarrow> nat \<Rightarrow> 'a machine_scheme \<Rightarrow> int \<times> 'a machine_scheme" where
  "ata_simple_wait_busy_loop dev 0 s = (-1, s)"
| "ata_simple_wait_busy_loop dev (Suc timeout) s =
     (let (status, s) = inb dev ATA_STATUS s
      in if status AND 0x80 = 0 then (0, s) else ata_simple_wait_busy_loop dev timeout s)"

definition ata_simple_wait_busy :: "device \<Rightarrow> 'a machine_scheme \<Rightarrow> int \<times> 'a machine_scheme" where
  "ata_simple_wait_busy dev s = ata_simple_wait_busy_loop dev 100000 s"

fun ata_simple_wait_drq_loop :: "device \<Rightarrow> nat \<Rightarrow> 'a machine_scheme \<Rightarrow> int \<times> 'a machine_scheme" where
  "ata_simple_wait_drq_loop dev 0 s = (-1, s)"
| "ata_simple_wait_drq_loop dev (Suc timeout) s =
     (let (status, s) = inb dev ATA_STATUS s
      in if status AND 0x08 \<noteq> 0 then (0, s)
         else if status AND 0x01 \<noteq> 0 then (-1, s)
         else ata_simple_wait_drq_loop dev timeout s)"

definition ata_simple_wait_drq :: "device \<Rightarrow> 'a machine_scheme \<Rightarrow> int \<times> 'a machine_scheme" where
  "ata_simple_wait_drq dev s = ata_simple_wait_drq_loop dev 100000 s"

definition ata_simple_command :: "u64 \<Rightarrow> u32 \<Rightarrow> 'a machine_scheme \<Rightarrow> 'a machine_scheme" where
  "ata_simple_command lba count s =
     (let s = outb ATA_DRIVE_HEAD (ucast (0xE0 OR (drop_bit 24 lba AND 0x0F))) s;
          s = outb ATA_SECTOR_COUNT (ucast count) s;
          s = outb ATA_LBA_LOW (ucast (lba AND 0xFF)) s;
          s = outb ATA_LBA_MID (ucast (drop_bit 8 lba AND 0xFF)) s;
          s = outb ATA_LBA_HIGH (ucast (drop_bit 16 lba AND 0xFF)) s
      in outb ATA_COMMAND 0x20 s)"

fun ata_simple_read_words :: "device \<Rightarrow> addr \<Rightarrow> u32 \<Rightarrow> nat \<Rightarrow> 'a machine_scheme \<Rightarrow> 'a machine_scheme" where
  "ata_simple_read_words dev buf i 0 s = s"
| "ata_simple_read_words dev buf i (Suc n) s =
     (let (w, s) = inw dev ATA_DATA s
      in ata_simple_read_words dev buf (i + 1) n (s\<lparr>mem := store16 (mem s) (buf + 2 * i) w\<rparr>))"

fun ata_simple_read_loop :: "device \<Rightarrow> addr \<Rightarrow> nat \<Rightarrow> 'a machine_scheme \<Rightarrow> int \<times> 'a machine_scheme" where
  "ata_simple_read_loop dev buf 0 s = (0, s)"
| "ata_simple_read_loop dev buf (Suc n) s =
     (let (r, s) = ata_simple_wait_drq dev s
      in if r < 0 then (-1, s)
         else ata_simple_read_loop dev (buf + 512) n (ata_simple_read_words dev buf 0 256 s))"

definition ata_simple_read_sectors :: "device \<Rightarrow> u64 \<Rightarrow> addr \<Rightarrow> u32 \<Rightarrow> 'a machine_scheme \<Rightarrow> int \<times> 'a machine_scheme" where
  "ata_simple_read_sectors dev lba buffer count s =
     (let (r, s) = ata_simple_wait_busy dev s
      in if r < 0 then (-1, s)
         else
           let (r, s) = ata_simple_read_loop dev buffer (unat count) (ata_simple_command lba count s)
           in if r < 0 then (-1, s) else (0, s))"

definition ata_improved_get_capacity :: u64 where "ata_improved_get_capacity = 32 * 1024 * 1024"
definition ata_simple_get_capacity :: u64 where "ata_simple_get_capacity = 32 * 1024 * 1024"

definition ata_improved_exit :: "'a machine_scheme \<Rightarrow> 'a machine_scheme" where
  "ata_improved_exit s = printk (''ATA Disk Driver unloaded'' @ nl) s"

definition ata_simple_ioctl :: "u32 \<Rightarrow> 'a machine_scheme \<Rightarrow> int \<times> 'a machine_scheme" where
  "ata_simple_ioctl cmd s = (0, s)"

subsection \<open>The disk\<close>

text \<open>
  What the driver may rely on: one drive, the master, alone on its channel. \<open>drive\<close> is what is known
  of it after the port accesses of the kernel, and it is known only as long as the kernel keeps to the
  protocol: registers are written after a status read that showed neither BSY nor DRQ, the command is
  READ SECTORS for the master with a block address, and a word of data is read only after a status read
  that showed DRQ without BSY for its sector. After any other access the phase is \<open>Unknown\<close>, and nothing
  is promised from then on. \<open>Reading a n k\<close> is a transfer of \<open>n\<close> words from word \<open>a\<close> of the disk on of
  which the kernel has taken \<open>k\<close>.
\<close>

datatype drive_phase =
    Idle
  | Reading nat nat nat
  | Unknown

record drive =
  d_count :: u8
  d_low :: u8
  d_mid :: u8
  d_high :: u8
  d_head :: u8
  d_ready :: bool
  d_seen :: bool
  d_phase :: drive_phase

text \<open>A sector count of 0 means 256 sectors.\<close>

definition drive_sectors :: "drive \<Rightarrow> nat" where
  "drive_sectors d = (if d_count d = 0 then 256 else unat (d_count d))"

definition drive_lba :: "drive \<Rightarrow> nat" where
  "drive_lba d = unat (d_low d) + 2 ^ 8 * unat (d_mid d) + 2 ^ 16 * unat (d_high d) + 2 ^ 24 * unat (d_head d AND 0xF)"

definition drive_register :: "(drive \<Rightarrow> drive) \<Rightarrow> drive \<Rightarrow> drive" where
  "drive_register f d = (if d_phase d = Idle \<and> d_ready d then f d else d\<lparr>d_phase := Unknown\<rparr>)"

text \<open>Bit 6 of the head register selects block addresses, bit 4 the slave; 0x20 is READ SECTORS.\<close>

definition drive_command :: "u8 \<Rightarrow> drive \<Rightarrow> drive" where
  "drive_command v d =
     d\<lparr>d_ready := False, d_seen := False,
       d_phase := (if d_phase d = Idle \<and> d_ready d \<and> v = 0x20 \<and> d_head d AND 0x50 = 0x40
                   then Reading (256 * drive_lba d) (256 * drive_sectors d) 0 else Unknown)\<rparr>"

text \<open>A status read shows whether registers may be written (neither BSY nor DRQ), and whether data may
  be taken (DRQ without BSY).\<close>

definition drive_status :: "u8 \<Rightarrow> drive \<Rightarrow> drive" where
  "drive_status v d =
     d\<lparr>d_ready := (v AND 0x80 = 0 \<and> v AND 0x08 = 0), d_seen := (v AND 0x80 = 0 \<and> v AND 0x08 \<noteq> 0)\<rparr>"

text \<open>A transfer of which everything has been taken is over.\<close>

definition progress :: "nat \<Rightarrow> nat \<Rightarrow> nat \<Rightarrow> drive_phase" where
  "progress a n k = (if k = n then Idle else Reading a n k)"

definition drive_data :: "drive \<Rightarrow> drive" where
  "drive_data d =
     (case d_phase d of
        Reading a n k \<Rightarrow>
          if d_seen d
          then d\<lparr>d_ready := False, d_seen := (Suc k mod 256 \<noteq> 0), d_phase := progress a n (Suc k)\<rparr>
          else d\<lparr>d_phase := Unknown\<rparr>
      | _ \<Rightarrow> d\<lparr>d_phase := Unknown\<rparr>)"

text \<open>0x3F6 is the control register (software reset); 0x1F1 sets features.\<close>

fun drive_event :: "io_event \<Rightarrow> drive \<Rightarrow> drive" where
  "drive_event (Outb p v) d =
     (if p = ATA_SECTOR_COUNT then drive_register (d_count_update (\<lambda>_. v)) d
      else if p = ATA_LBA_LOW then drive_register (d_low_update (\<lambda>_. v)) d
      else if p = ATA_LBA_MID then drive_register (d_mid_update (\<lambda>_. v)) d
      else if p = ATA_LBA_HIGH then drive_register (d_high_update (\<lambda>_. v)) d
      else if p = ATA_DRIVE_HEAD then drive_register (d_head_update (\<lambda>_. v)) d
      else if p = ATA_COMMAND then drive_command v d
      else if p = ATA_DATA \<or> p = 0x1F1 \<or> p = 0x3F6 then d\<lparr>d_phase := Unknown\<rparr>
      else d)"
| "drive_event (Inb p v) d =
     (if p = ATA_STATUS then drive_status v d else if p = ATA_DATA then d\<lparr>d_phase := Unknown\<rparr> else d)"
| "drive_event (Inw p v) d =
     (if p = ATA_DATA then drive_data d else if 0x1EF \<le> p \<and> p \<le> 0x1F7 then d\<lparr>d_phase := Unknown\<rparr> else d)"
| "drive_event (Outw p v) d = (if 0x1EF \<le> p \<and> p \<le> 0x1F7 then d\<lparr>d_phase := Unknown\<rparr> else d)"
| "drive_event Cli d = d"
| "drive_event Sti d = d"

definition drive_after :: "io_event list \<Rightarrow> drive" where
  "drive_after h = fold drive_event h
     \<lparr>d_count = 0, d_low = 0, d_mid = 0, d_high = 0, d_head = 0, d_ready = False, d_seen = False, d_phase = Idle\<rparr>"

lemma drive_after_simps [simp]:
  "drive_after (h @ [e]) = drive_event e (drive_after h)"
  by (simp add: drive_after_def)

definition drive_idle :: "io_event list \<Rightarrow> bool" where
  "drive_idle h \<longleftrightarrow> d_phase (drive_after h) = Idle"

text \<open>Reading the status register \<open>k\<close> times.\<close>

definition ata_status :: "device \<Rightarrow> io_event list \<Rightarrow> u8" where
  "ata_status dev h = ucast (dev h ATA_STATUS)"

fun ata_polls :: "device \<Rightarrow> nat \<Rightarrow> io_event list \<Rightarrow> io_event list" where
  "ata_polls dev 0 h = h"
| "ata_polls dev (Suc k) h = ata_polls dev k (h @ [Inb ATA_STATUS (ata_status dev h)])"

text \<open>A working drive of \<open>cap\<close> sectors that holds the words \<open>disk\<close>. When no transfer is under way it
  shows no DRQ, and is not busy for the whole of 100000 status reads. In a transfer that lies on the
  disk it shows DRQ and no BSY within 100000 status reads, with neither DRQ nor an error before that;
  and once DRQ has been seen the data register delivers the next word of the disk. Nothing is
  promised of the data register otherwise, of other commands, or of a transfer beyond the end.\<close>

definition drive_works :: "device \<Rightarrow> nat \<Rightarrow> (nat \<Rightarrow> u16) \<Rightarrow> bool" where
  "drive_works dev cap disk \<longleftrightarrow>
     (\<forall>h. drive_idle h \<longrightarrow> ata_status dev h AND 0x08 = 0)
     \<and> (\<forall>h. drive_idle h \<longrightarrow> (\<exists>k < 100000. ata_status dev (ata_polls dev k h) AND 0x80 = 0))
     \<and> (\<forall>h a n k. d_phase (drive_after h) = Reading a n k \<and> a + n \<le> 256 * cap \<longrightarrow>
          (\<exists>j < 100000. ata_status dev (ata_polls dev j h) AND 0x80 = 0 \<and> ata_status dev (ata_polls dev j h) AND 0x08 \<noteq> 0
            \<and> (\<forall>i < j. ata_status dev (ata_polls dev i h) AND 0x08 = 0 \<and> ata_status dev (ata_polls dev i h) AND 0x01 = 0)))
     \<and> (\<forall>h a n k. d_phase (drive_after h) = Reading a n k \<and> a + n \<le> 256 * cap \<and> d_seen (drive_after h) \<longrightarrow>
          dev h ATA_DATA = disk (a + k))"

text \<open>Words stored one after the other.\<close>

fun write_words :: "mem \<Rightarrow> addr \<Rightarrow> u16 list \<Rightarrow> mem" where
  "write_words m a [] = m"
| "write_words m a (w # ws) = write_words (store16 m a w) (a + 2) ws"

lemma write_words_append:
  "write_words m a (xs @ ys) = write_words (write_words m a xs) (a + 2 * of_nat (length xs)) ys"
  by (induction xs arbitrary: m a) (simp_all add: algebra_simps)

lemma write_words_other [frame]: "x \<notin> span a (2 * length ws) \<Longrightarrow> write_words m a ws x = m x"
proof (induction ws arbitrary: m a)
  case (Cons w ws)
  have "span a (2 * length (w # ws)) = span a 2 \<union> span (a + 2) (2 * length ws)"
    using span_split [of a 2 "2 * length ws"] by simp
  with Cons show ?case
    by (simp add: store16_other)
qed simp

lemma load16_write_words:
  assumes "i < length ws" "2 * length ws \<le> 4294967296"
  shows "load16 (write_words m a ws) (a + 2 * of_nat i) = ws ! i"
  using assms
proof (induction ws arbitrary: m a i)
  case (Cons w ws)
  have next2: "span (a + 2) (2 * length ws) \<inter> span a 2 = {}"
  proof (rule span_disjoint)
    show "2 * length ws \<le> unat (a - (a + 2))"
      using Cons.prems(2) by simp
  qed simp
  show ?case
  proof (cases i)
    case 0
    have "load16 (write_words (store16 m a w) (a + 2) ws) a = load16 (store16 m a w) a"
      using next2 by (intro load16_span write_words_other) auto
    with 0 show ?thesis by simp
  next
    case (Suc j)
    with Cons.IH [of j "store16 m a w" "a + 2"] Cons.prems show ?thesis
      by (simp add: algebra_simps)
  qed
qed simp

end
