(* ===== verification/Ata_Props.thy ===== *)
theory Ata_Props
  imports Ata Gdt
begin

text \<open>
  The properties of the disk driver: what a read transfers from a working drive, where it goes
  wrong, and that the three versions agree.
\<close>

subsection \<open>Polling\<close>

lemma drive_status_fields [simp]:
  "d_phase (drive_status v d) = d_phase d"
  "d_ready (drive_status v d) \<longleftrightarrow> v AND 0x80 = 0 \<and> v AND 0x08 = 0"
  "d_seen (drive_status v d) \<longleftrightarrow> v AND 0x80 = 0 \<and> v AND 0x08 \<noteq> 0"
  by (simp_all add: drive_status_def)

lemma drive_polls_phase [simp]: "d_phase (drive_after (ata_polls dev k h)) = d_phase (drive_after h)"
  by (induction k arbitrary: h) simp_all

lemma ata_polls_snoc: "ata_polls dev (Suc k) h = ata_polls dev k h @ [Inb ATA_STATUS (ata_status dev (ata_polls dev k h))]"
proof (induction k arbitrary: h)
  case (Suc k)
  from Suc.IH [of "h @ [Inb ATA_STATUS (ata_status dev h)]"] show ?case
    by (simp only: ata_polls.simps(2) [of dev "Suc k" h] ata_polls.simps(2) [of dev k h])
qed simp

lemma drive_polls_Suc:
  "drive_after (ata_polls dev (Suc k) h) = drive_status (ata_status dev (ata_polls dev k h)) (drive_after (ata_polls dev k h))"
  by (simp only: ata_polls_snoc drive_after_simps drive_event.simps if_True simp_thms)

lemma inb_status:
  "inb dev ATA_STATUS s = (ata_status dev (io s), s\<lparr>io := io s @ [Inb ATA_STATUS (ata_status dev (io s))]\<rparr>)"
  by (simp add: inb_def ata_status_def Let_def)

text \<open>The loops stop after the first status that satisfies them.\<close>

lemma ata_wait_busy_loop_ready:
  assumes "ata_status dev (ata_polls dev k (io s)) AND 0x80 = 0" "k < n"
  shows "\<exists>j. ata_wait_busy_loop dev n s = (0, s\<lparr>io := ata_polls dev (Suc j) (io s)\<rparr>)
    \<and> ata_status dev (ata_polls dev j (io s)) AND 0x80 = 0"
  using assms
proof (induction n arbitrary: k s)
  case (Suc n)
  let ?s = "s\<lparr>io := io s @ [Inb ATA_STATUS (ata_status dev (io s))]\<rparr>"
  show ?case
  proof (cases "ata_status dev (io s) AND 0x80 = 0")
    case True
    then show ?thesis
      by (intro exI [of _ 0]) (simp add: inb_status)
  next
    case False
    with Suc.prems obtain j where "k = Suc j" by (cases k) auto
    with Suc.prems Suc.IH [of j ?s] obtain i where
      "ata_wait_busy_loop dev n ?s = (0, ?s\<lparr>io := ata_polls dev (Suc i) (io ?s)\<rparr>)"
      "ata_status dev (ata_polls dev i (io ?s)) AND 0x80 = 0"
      by auto
    with False show ?thesis
      by (intro exI [of _ "Suc i"]) (simp add: inb_status)
  qed
qed simp

lemma ata_wait_drq_loop_ready:
  assumes "ata_status dev (ata_polls dev k (io s)) AND 0x08 \<noteq> 0" "k < n"
    "\<And>j. j < k \<Longrightarrow> ata_status dev (ata_polls dev j (io s)) AND 0x08 = 0"
    "\<And>j. j < k \<Longrightarrow> ata_status dev (ata_polls dev j (io s)) AND 0x01 = 0"
  shows "ata_wait_drq_loop dev n s = (0, s\<lparr>io := ata_polls dev (Suc k) (io s)\<rparr>)"
  using assms
proof (induction n arbitrary: k s)
  case (Suc n)
  let ?s = "s\<lparr>io := io s @ [Inb ATA_STATUS (ata_status dev (io s))]\<rparr>"
  show ?case
  proof (cases k)
    case 0
    with Suc.prems(1) show ?thesis by (simp add: inb_status)
  next
    case (Suc j)
    with Suc.prems(3,4) [of 0] have "ata_status dev (io s) AND 0x08 = 0" "ata_status dev (io s) AND 0x01 = 0"
      by simp_all
    moreover have "ata_wait_drq_loop dev n ?s = (0, ?s\<lparr>io := ata_polls dev (Suc j) (io ?s)\<rparr>)"
      using Suc.prems(1,2) Suc.prems(3,4) [of "Suc _"] Suc by (intro Suc.IH) simp_all
    ultimately show ?thesis
      using Suc by (simp add: inb_status)
  qed
qed simp

lemma ata_wait_drq_loop_never:
  assumes "\<And>h. drive_idle h \<Longrightarrow> ata_status dev h AND 0x08 = 0" "drive_idle (io s)"
  shows "\<exists>h. ata_wait_drq_loop dev n s = (-1, s\<lparr>io := h\<rparr>) \<and> drive_idle h"
  using assms(2)
proof (induction n arbitrary: s)
  case 0
  then show ?case by (auto intro: exI [of _ "io s"])
next
  case (Suc n)
  let ?h = "io s @ [Inb ATA_STATUS (ata_status dev (io s))]"
  have idle: "drive_idle ?h"
    using Suc.prems by (simp add: drive_idle_def)
  with Suc.IH [of "s\<lparr>io := ?h\<rparr>"] obtain h where
    "ata_wait_drq_loop dev n (s\<lparr>io := ?h\<rparr>) = (-1, s\<lparr>io := h\<rparr>)" "drive_idle h"
    by auto
  with assms(1) [OF Suc.prems] idle show ?case
    by (cases "ata_status dev (io s) AND 0x01 = 0") (auto simp: inb_status)
qed

subsection \<open>Transfers\<close>

definition disk_words :: "(nat \<Rightarrow> u16) \<Rightarrow> nat \<Rightarrow> nat \<Rightarrow> u16 list" where
  "disk_words disk a n = map disk [a..<a + n]"

lemma disk_words_simps [simp]: "disk_words disk a 0 = []" "length (disk_words disk a n) = n"
  by (simp_all add: disk_words_def)

lemma disk_words_Suc: "disk_words disk a (Suc n) = disk a # disk_words disk (Suc a) n"
  by (simp add: disk_words_def upt_conv_Cons del: upt_Suc)

lemma disk_words_add: "disk_words disk a (n + k) = disk_words disk a n @ disk_words disk (a + n) k"
  using upt_add_eq_append [of a "a + n" k] by (simp add: disk_words_def add.assoc)

lemma drive_works_data:
  "drive_works dev cap disk \<Longrightarrow> d_phase (drive_after h) = Reading a n k \<Longrightarrow> a + n \<le> 256 * cap \<Longrightarrow> d_seen (drive_after h)
   \<Longrightarrow> dev h ATA_DATA = disk (a + k)"
  unfolding drive_works_def by blast

text \<open>Words are taken within a sector for which DRQ has been seen.\<close>

lemma ata_read_words_works:
  assumes "drive_works dev cap disk" "a + n \<le> 256 * cap"
    "d_phase (drive_after (io s)) = progress a n k" "k + j \<le> n" "k mod 256 + j \<le> 256"
    "0 < j \<Longrightarrow> d_seen (drive_after (io s))"
  shows "\<exists>h. ata_read_words dev buf i j s = s\<lparr>mem := write_words (mem s) (buf + 2 * i) (disk_words disk (a + k) j), io := h\<rparr>
     \<and> d_phase (drive_after h) = progress a n (k + j)"
  using assms(3-)
proof (induction j arbitrary: i k s)
  case 0
  then show ?case by (auto intro: exI [of _ "io s"])
next
  case (Suc j)
  let ?w = "disk (a + k)"
  let ?s = "s\<lparr>io := io s @ [Inw ATA_DATA ?w], mem := store16 (mem s) (buf + 2 * i) ?w\<rparr>"
  have phase: "d_phase (drive_after (io s)) = Reading a n k"
    using Suc.prems(1,2) by (simp add: progress_def)
  have seen: "d_seen (drive_after (io s))"
    using Suc.prems(4) by simp
  have "dev (io s) ATA_DATA = ?w"
    using assms(1) phase assms(2) seen by (rule drive_works_data)
  then have step: "ata_read_words dev buf i (Suc j) s = ata_read_words dev buf (i + 1) j ?s"
    by (simp add: inw_def Let_def)
  have after: "d_phase (drive_after (io ?s)) = progress a n (Suc k)" "d_seen (drive_after (io ?s)) \<longleftrightarrow> Suc k mod 256 \<noteq> 0"
    using phase seen by (simp_all add: drive_data_def)
  have "Suc k mod 256 + j \<le> 256" "0 < j \<longrightarrow> Suc k mod 256 \<noteq> 0"
    using Suc.prems(3) by (auto simp: mod_Suc)
  with Suc.IH [of ?s "Suc k" "i + 1"] Suc.prems(2) after obtain h where
    "ata_read_words dev buf (i + 1) j ?s = ?s\<lparr>mem := write_words (mem ?s) (buf + 2 * (i + 1)) (disk_words disk (a + Suc k) j), io := h\<rparr>"
    "d_phase (drive_after h) = progress a n (Suc k + j)"
    by auto
  then show ?case
    unfolding step by (intro exI [of _ h]) (simp add: disk_words_Suc algebra_simps)
qed

lemma drive_works_drq:
  assumes "drive_works dev cap disk" "d_phase (drive_after (io s)) = Reading a n k" "a + n \<le> 256 * cap"
  shows "\<exists>h. ata_wait_drq dev s = (0, s\<lparr>io := h\<rparr>) \<and> d_phase (drive_after h) = Reading a n k \<and> d_seen (drive_after h)"
proof -
  from assms obtain j where j: "j < 100000" "ata_status dev (ata_polls dev j (io s)) AND 0x80 = 0"
    "ata_status dev (ata_polls dev j (io s)) AND 0x08 \<noteq> 0"
    "\<And>i. i < j \<Longrightarrow> ata_status dev (ata_polls dev i (io s)) AND 0x08 = 0"
    "\<And>i. i < j \<Longrightarrow> ata_status dev (ata_polls dev i (io s)) AND 0x01 = 0"
    unfolding drive_works_def by blast
  have "ata_wait_drq dev s = (0, s\<lparr>io := ata_polls dev (Suc j) (io s)\<rparr>)"
    unfolding ata_wait_drq_def by (rule ata_wait_drq_loop_ready) (fact j)+
  moreover have "d_seen (drive_after (ata_polls dev (Suc j) (io s)))"
    using j(2,3) by (simp only: drive_polls_Suc drive_status_fields simp_thms)
  ultimately show ?thesis
    using assms(2) by (intro exI [of _ "ata_polls dev (Suc j) (io s)"]) (simp only: drive_polls_phase simp_thms)
qed

lemma drive_works_no_drq:
  assumes "drive_works dev cap disk" "drive_idle (io s)"
  shows "\<exists>h. ata_wait_drq dev s = (-1, s\<lparr>io := h\<rparr>) \<and> drive_idle h"
  unfolding ata_wait_drq_def using assms by (intro ata_wait_drq_loop_never) (auto simp: drive_works_def)

lemma drive_works_not_busy:
  assumes "drive_works dev cap disk" "drive_idle (io s)"
  shows "\<exists>h. ata_wait_busy dev s = (0, s\<lparr>io := h\<rparr>) \<and> drive_idle h \<and> d_ready (drive_after h)"
proof -
  from assms obtain k where "k < 100000" "ata_status dev (ata_polls dev k (io s)) AND 0x80 = 0"
    unfolding drive_works_def by blast
  then obtain j where j: "ata_wait_busy dev s = (0, s\<lparr>io := ata_polls dev (Suc j) (io s)\<rparr>)"
    "ata_status dev (ata_polls dev j (io s)) AND 0x80 = 0"
    unfolding ata_wait_busy_def using ata_wait_busy_loop_ready by blast
  have idle: "drive_idle (ata_polls dev i (io s))" for i
    using assms(2) by (simp add: drive_idle_def)
  with assms(1) have "ata_status dev (ata_polls dev j (io s)) AND 0x08 = 0"
    unfolding drive_works_def by blast
  with j(2) have "d_ready (drive_after (ata_polls dev (Suc j) (io s)))"
    by (simp only: drive_polls_Suc drive_status_fields simp_thms)
  with j(1) idle show ?thesis by blast
qed

text \<open>The loop over the sectors takes what is left of the transfer, and fails when it asks for more.\<close>

lemma ata_read_loop_works:
  assumes "drive_works dev cap disk" "a + 256 * len \<le> 256 * cap"
    "d_phase (drive_after (io s)) = progress a (256 * len) (256 * k)" "k \<le> len"
  shows "\<exists>h. ata_read_loop dev lg buf n s =
      (let m = min n (len - k); t = s\<lparr>mem := write_words (mem s) buf (disk_words disk (a + 256 * k) (256 * m)), io := h\<rparr>
       in if m = n then (0, t) else (-1, lg t))
    \<and> d_phase (drive_after h) = progress a (256 * len) (256 * (k + min n (len - k)))"
  using assms(3,4)
proof (induction n arbitrary: buf k s)
  case 0
  then show ?case by (auto simp: Let_def intro: exI [of _ "io s"])
next
  case (Suc n)
  show ?case
  proof (cases "k = len")
    case True
    with Suc.prems have "drive_idle (io s)"
      by (simp add: drive_idle_def progress_def)
    with drive_works_no_drq [OF assms(1)] obtain h where
      "ata_wait_drq dev s = (-1, s\<lparr>io := h\<rparr>)" "drive_idle h"
      by blast
    with True show ?thesis
      by (intro exI [of _ h]) (simp add: Let_def drive_idle_def progress_def)
  next
    case False
    with Suc.prems have k: "k < len" by simp
    with Suc.prems(1) have "d_phase (drive_after (io s)) = Reading a (256 * len) (256 * k)"
      by (simp add: progress_def)
    from drive_works_drq [OF assms(1) this assms(2)] k obtain h where
      h: "ata_wait_drq dev s = (0, s\<lparr>io := h\<rparr>)" "d_phase (drive_after h) = progress a (256 * len) (256 * k)"
      "d_seen (drive_after h)"
      by (auto simp: progress_def)
    let ?s = "s\<lparr>io := h\<rparr>"
    let ?mem = "write_words (mem s) buf (disk_words disk (a + 256 * k) 256)"
    obtain h' where
      h': "ata_read_words dev buf 0 256 ?s = s\<lparr>mem := ?mem, io := h'\<rparr>"
      "d_phase (drive_after h') = progress a (256 * len) (256 * Suc k)"
      using ata_read_words_works [OF assms(1,2), of ?s "256 * k" 256 buf 0] h(2,3) k by (auto simp: algebra_simps)
    let ?t = "s\<lparr>mem := ?mem, io := h'\<rparr>"
    let ?m = "min n (len - Suc k)"
    from Suc.IH [of ?t "Suc k" "buf + 512"] h'(2) k obtain g where
      g: "ata_read_loop dev lg (buf + 512) n ?t =
        (let t = ?t\<lparr>mem := write_words ?mem (buf + 512) (disk_words disk (a + 256 * Suc k) (256 * ?m)), io := g\<rparr>
         in if ?m = n then (0, t) else (-1, lg t))"
      "d_phase (drive_after g) = progress a (256 * len) (256 * (Suc k + ?m))"
      by (auto simp: Let_def)
    have m: "min (Suc n) (len - k) = Suc ?m"
      using k by simp
    have w: "write_words ?mem (buf + 512) (disk_words disk (a + 256 * Suc k) (256 * ?m))
        = write_words (mem s) buf (disk_words disk (a + 256 * k) (256 * Suc ?m))"
      using disk_words_add [of disk "a + 256 * k" 256 "256 * ?m"]
      by (simp add: write_words_append algebra_simps)
    have "ata_read_loop dev lg buf (Suc n) s =
        (let t = s\<lparr>mem := write_words (mem s) buf (disk_words disk (a + 256 * k) (256 * Suc ?m)), io := g\<rparr>
         in if ?m = n then (0, t) else (-1, lg t))"
      using g(1) h(1) h'(1) unfolding Let_def w by simp
    with g(2) show ?thesis
      unfolding m by (intro exI [of _ g]) (simp add: Let_def)
  qed
qed

subsection \<open>Reads\<close>

lemma unat_ucast_low: "unat (ucast (x AND 0xFF :: u64) :: u8) = unat x mod 256"
proof -
  have "ucast (x AND 0xFF) = (ucast x :: u8)"
    by (rule bit_word_eqI) (auto simp: bit_simps low_masks)
  then show ?thesis
    by (simp add: unsigned_ucast_eq take_bit_eq_mod)
qed

lemma unat_drop64: "unat (drop_bit k (x :: u64)) = unat x div 2 ^ k"
  using unat_drop_bit_eq [of k x] by (simp add: drop_bit_eq_div [of k "unat x"])

lemma head_bits: "ucast (0xE0 OR (x AND 0x0F :: u64)) AND 0xF = (ucast x AND 0xF :: u8)"
proof (rule bit_word_eqI)
  fix n
  assume "n < LENGTH(8)"
  have "\<not> bit (0xE0 :: int) n" if "n < 4"
  proof -
    have e: "(0xE0 :: int) = push_bit 5 7" by simp
    show ?thesis
      unfolding e bit_push_bit_iff using that by auto
  qed
  then show "bit (ucast (0xE0 OR (x AND 0x0F)) AND 0xF :: u8) n \<longleftrightarrow> bit (ucast x AND 0xF :: u8) n"
    by (auto simp: bit_simps low_masks)
qed

lemma unat_head: "unat (ucast (0xE0 OR (x AND 0x0F :: u64)) AND 0xF :: u8) = unat x mod 16"
proof -
  have "(ucast x AND 0xF :: u8) = take_bit 4 (ucast x)"
    by (rule bit_word_eqI) (auto simp: bit_simps low_masks)
  then show ?thesis
    unfolding head_bits
    by (simp only: unsigned_take_bit_eq unsigned_ucast_eq take_bit_take_bit) (simp add: take_bit_eq_mod)
qed

lemma lba_digits:
  fixes l :: nat
  shows "l mod 256 + 2 ^ 8 * (l div 2 ^ 8 mod 256) + 2 ^ 16 * (l div 2 ^ 16 mod 256) + 2 ^ 24 * (l div 2 ^ 24 mod 16)
    = l mod 2 ^ 28"
proof -
  have "l mod 2 ^ 28 = 2 ^ 24 * (l div 2 ^ 24 mod 16) + l mod 2 ^ 24"
    using mod_mult2_eq [of l "2 ^ 24" 16] by simp
  also have "l mod 2 ^ 24 = 2 ^ 16 * (l div 2 ^ 16 mod 256) + l mod 2 ^ 16"
    using mod_mult2_eq [of l "2 ^ 16" 256] by simp
  also have "l mod 2 ^ 16 = 2 ^ 8 * (l div 2 ^ 8 mod 256) + l mod 256"
    using mod_mult2_eq [of l "2 ^ 8" 256] by simp
  finally show ?thesis by simp
qed

text \<open>How many sectors the drive transfers for the count of the caller: the count register has
  eight bits.\<close>

definition sectors_for :: "nat \<Rightarrow> nat" where
  "sectors_for n = (if n mod 256 = 0 then 256 else n mod 256)"

lemma min_sectors:
  "min n (sectors_for n) = (if n \<le> 256 then n else sectors_for n)"
  "min n (sectors_for n) = n \<longleftrightarrow> n \<le> 256"
proof -
  have "n \<le> sectors_for n" if "n \<le> 256"
    using that by (cases "n = 256") (auto simp: sectors_for_def)
  moreover have "sectors_for n < n" if "256 < n"
  proof -
    have "n mod 256 < 256" by simp
    with that show ?thesis
      unfolding sectors_for_def by (simp del: mod_less_divisor)
  qed
  ultimately show "min n (sectors_for n) = (if n \<le> 256 then n else sectors_for n)"
    "min n (sectors_for n) = n \<longleftrightarrow> n \<le> 256"
    by (cases "n \<le> 256"; simp add: min_def)+
qed

lemma head_mode: "(ucast (0xE0 OR (x AND 0x0F :: u64)) :: u8) AND 0x50 = 0x40"
proof -
  have "(ucast (0xE0 OR (x AND 0x0F :: u64)) :: u8) AND 0x50 = (0xE0 AND 0x50) OR (ucast x AND (0x0F AND 0x50))"
    by (simp only: unsigned_or_eq unsigned_and_eq unsigned_numeral bit.conj_disj_distrib2 and.assoc)
      simp
  also have "... = 0x40"
    by simp
  finally show ?thesis .
qed

lemma drive_command_phase [simp]:
  "d_phase (drive_command v d) = (if d_phase d = Idle \<and> d_ready d \<and> v = 0x20 \<and> d_head d AND 0x50 = 0x40
     then Reading (256 * drive_lba d) (256 * drive_sectors d) 0 else Unknown)"
  by (simp add: drive_command_def)

lemma ata_command_drive:
  assumes "drive_idle (io s)" "d_ready (drive_after (io s))"
  shows "d_phase (drive_after (io (ata_command lba count s)))
      = progress (256 * (unat lba mod 2 ^ 28)) (256 * sectors_for (unat count)) 0"
    "ata_command lba count s = s\<lparr>io := io (ata_command lba count s)\<rparr>"
proof -
  let ?d = "drive_after (io (ata_command lba count s))"
  let ?head = "ucast (0xE0 OR (drop_bit 24 lba AND 0x0F)) :: u8"
  have io: "io (ata_command lba count s) = io s @ [Outb ATA_DRIVE_HEAD ?head]
     @ [Outb ATA_SECTOR_COUNT (ucast count)] @ [Outb ATA_LBA_LOW (ucast (lba AND 0xFF))]
     @ [Outb ATA_LBA_MID (ucast (drop_bit 8 lba AND 0xFF))] @ [Outb ATA_LBA_HIGH (ucast (drop_bit 16 lba AND 0xFF))]
     @ [Outb ATA_COMMAND 0x20]"
    by (simp add: ata_command_def outb_def Let_def)
  define regs where "regs = (drive_after (io s))\<lparr>d_head := ?head, d_count := ucast count, d_low := ucast (lba AND 0xFF),
      d_mid := ucast (drop_bit 8 lba AND 0xFF), d_high := ucast (drop_bit 16 lba AND 0xFF)\<rparr>"
  have d: "?d = drive_command 0x20 regs"
    unfolding io append_assoc [symmetric] drive_after_simps regs_def
    using assms by (simp add: ata_ports drive_register_def drive_idle_def)
  have c: "unat (ucast count :: u8) = unat count mod 256"
    by (simp add: unsigned_ucast_eq take_bit_eq_mod)
  then have "(ucast count :: u8) = 0 \<longleftrightarrow> unat count mod 256 = 0"
    by (metis unat_eq_zero)
  then have sectors: "drive_sectors regs = sectors_for (unat count)"
    by (simp add: regs_def drive_sectors_def sectors_for_def c)
  have f: "d_low regs = ucast (lba AND 0xFF)" "d_mid regs = ucast (drop_bit 8 lba AND 0xFF)"
    "d_high regs = ucast (drop_bit 16 lba AND 0xFF)" "d_head regs = ?head"
    "d_phase regs = d_phase (drive_after (io s))" "d_ready regs = d_ready (drive_after (io s))"
    unfolding regs_def by (cases "drive_after (io s)", simp only: drive.simps)+
  have lba: "drive_lba regs = unat lba mod 2 ^ 28"
    unfolding drive_lba_def f by (simp only: unat_ucast_low unat_drop64 unat_head lba_digits)
  have "d_phase ?d = Reading (256 * drive_lba regs) (256 * drive_sectors regs) 0"
    using assms unfolding d drive_idle_def by (simp only: drive_command_phase f head_mode simp_thms if_True)
  moreover have "0 \<noteq> 256 * sectors_for (unat count)"
    by (auto simp: sectors_for_def)
  ultimately show "d_phase ?d = progress (256 * (unat lba mod 2 ^ 28)) (256 * sectors_for (unat count)) 0"
    by (simp only: lba sectors progress_def if_False)
  show "ata_command lba count s = s\<lparr>io := io (ata_command lba count s)\<rparr>"
    by (simp add: ata_command_def outb_def Let_def)
qed

lemma ata_read_result:
  fixes s :: "'a machine_scheme"
  assumes "drive_works dev cap disk" "drive_idle (io s)" "unat lba mod 2 ^ 28 + sectors_for (unat count) \<le> cap"
  shows "\<exists>t. ata_read_sectors dev lba buffer count s = (if unat count \<le> 256 then 0 else -1, t)
    \<and> mem t = write_words (mem s) buffer (disk_words disk (256 * (unat lba mod 2 ^ 28))
        (256 * (if unat count \<le> 256 then unat count else sectors_for (unat count))))
    \<and> machine.more t = machine.more s \<and> (drive_idle (io t) \<longleftrightarrow> count \<noteq> 0)"
proof -
  obtain h where h: "ata_wait_busy dev s = (0, s\<lparr>io := h\<rparr>)" "drive_idle h" "d_ready (drive_after h)"
    using drive_works_not_busy [OF assms(1,2)] by blast
  let ?s = "s\<lparr>io := h\<rparr>"
  let ?c = "ata_command lba count ?s" and ?n = "unat count" and ?a = "256 * (unat lba mod 2 ^ 28)"
  let ?total = "sectors_for ?n"
  have cmd: "d_phase (drive_after (io ?c)) = progress ?a (256 * ?total) (256 * 0)" "?c = ?s\<lparr>io := io ?c\<rparr>"
    using ata_command_drive [of ?s lba count] h(2,3) by simp_all
  have range: "?a + 256 * ?total \<le> 256 * cap"
    using assms(3) by simp
  let ?lg = "printk (''ATA: DRQ timeout on sector %d'' @ nl) :: 'a machine_scheme \<Rightarrow> 'a machine_scheme"
  let ?m = "min ?n ?total"
  let ?t = "\<lambda>g. ?c\<lparr>mem := write_words (mem ?c) buffer (disk_words disk ?a (256 * ?m)), io := g\<rparr>"
  from ata_read_loop_works [OF assms(1) range cmd(1), of ?lg buffer ?n] obtain g where
    g: "ata_read_loop dev ?lg buffer ?n ?c = (if ?m = ?n then (0, ?t g) else (-1, ?lg (?t g)))"
    "d_phase (drive_after g) = progress ?a (256 * ?total) (256 * ?m)"
    unfolding Let_def mult_0_right add_0_right minus_nat.diff_0 add_0 by blast
  have mem: "mem ?c = mem s" "machine.more ?c = machine.more s"
    by (subst cmd(2), simp)+
  have "?m = ?total \<longleftrightarrow> count \<noteq> 0"
    using min_sectors [of ?n] unat_eq_zero [of count]
    by (cases "?n \<le> 256") (auto simp: sectors_for_def min_def le_Suc_eq split: if_splits)
  with g(2) have idle: "drive_idle g \<longleftrightarrow> count \<noteq> 0"
    unfolding drive_idle_def progress_def by simp
  show ?thesis
  proof (cases "?n \<le> 256")
    case True
    then have m: "?m = ?n"
      by (simp only: min_sectors if_True)
    with g(1) True idle show ?thesis
      by (simp add: ata_read_sectors_def h(1) Let_def mem)
  next
    case False
    have m: "?m \<noteq> ?n" "?m = ?total"
      by (use False min_sectors(2) [of ?n] in blast) (unfold min_sectors(1), rule if_not_P [OF False])
    from g(1) have "ata_read_loop dev ?lg buffer ?n ?c = (-1, ?lg (?t g))"
      by (simp only: m(1) if_False)
    from this [unfolded m(2)] False idle show ?thesis
      by (simp add: ata_read_sectors_def h(1) Let_def mem)
  qed
qed

text \<open>C26. On a drive of \<open>cap\<close> sectors that works (\<open>drive_works\<close>: what it promises a reader who keeps to
  the protocol, in Ata.thy) and is idle, for a transfer that lies on the disk, \<open>ata_read_sectors\<close>
  returns. For at most 256 sectors it returns 0, and
  the buffer holds the words of exactly the sectors from \<open>lba mod 2^28\<close> on (the address loses its
  bits above 27 without an error), with no other byte of memory changed. For more it returns -1 after it
  has overwritten the buffer with as many sectors as the count modulo 256 asks for. The drive is idle
  again, except after a count of 0: the drive has then been asked for 256 sectors that nobody takes.\<close>

theorem ata_read_transfers:
  fixes s :: "'a machine_scheme"
  assumes "drive_works dev cap disk" "drive_idle (io s)" "unat lba mod 2 ^ 28 + sectors_for (unat count) \<le> cap"
  shows "\<exists>t. ata_read_sectors dev lba buffer count s = (if unat count \<le> 256 then 0 else -1, t)
    \<and> mem t = write_words (mem s) buffer (disk_words disk (256 * (unat lba mod 2 ^ 28))
        (256 * (if unat count \<le> 256 then unat count else sectors_for (unat count))))
    \<and> machine.more t = machine.more s \<and> (drive_idle (io t) \<longleftrightarrow> count \<noteq> 0)"
  by (rule ata_read_result [OF assms])

text \<open>A drive with the number of a word as its content: the first status read after any other access
  shows BSY, the next ones DRDY, with DRQ when it has data. To anything but a read by the
  protocol it answers with the error bit and no data.\<close>

fun fresh_status :: "io_event list \<Rightarrow> bool" where
  "fresh_status [] \<longleftrightarrow> True"
| "fresh_status (Inb p v # h) \<longleftrightarrow> p \<noteq> ATA_STATUS"
| "fresh_status (e # h) \<longleftrightarrow> True"

definition counting_drive :: device where
  "counting_drive h port =
     (if port = ATA_DATA
      then (case d_phase (drive_after h) of
              Reading a n k \<Rightarrow> if d_seen (drive_after h) then of_nat (a + k) else 0xFFFF
            | _ \<Rightarrow> 0xFFFF)
      else if port = ATA_STATUS
      then (case d_phase (drive_after h) of
              Idle \<Rightarrow> if fresh_status (rev h) then 0x80 else 0x50
            | Reading a n k \<Rightarrow> if fresh_status (rev h) then 0x80 else 0x58
            | Unknown \<Rightarrow> 0x51)
      else 0)"

lemma counting_drive_works: "drive_works counting_drive cap of_nat"
  unfolding drive_works_def
proof (intro conjI allI impI)
  fix h
  assume idle: "drive_idle h"
  then show "ata_status counting_drive h AND 0x08 = 0"
    by (simp add: ata_status_def counting_drive_def drive_idle_def ata_ports)
  show "\<exists>k < 100000. ata_status counting_drive (ata_polls counting_drive k h) AND 0x80 = 0"
    using idle by (intro exI [of _ 1]) (simp add: ata_status_def counting_drive_def drive_idle_def ata_ports)
next
  fix h a n k
  assume "d_phase (drive_after h) = Reading a n k \<and> a + n \<le> 256 * cap"
  then have ph: "d_phase (drive_after h) = Reading a n k" ..
  show "\<exists>j < 100000. ata_status counting_drive (ata_polls counting_drive j h) AND 0x80 = 0
      \<and> ata_status counting_drive (ata_polls counting_drive j h) AND 0x08 \<noteq> 0
      \<and> (\<forall>i < j. ata_status counting_drive (ata_polls counting_drive i h) AND 0x08 = 0
          \<and> ata_status counting_drive (ata_polls counting_drive i h) AND 0x01 = 0)"
  proof (cases "fresh_status (rev h)")
    case True
    with ph show ?thesis
      by (intro exI [of _ 1]) (simp add: ata_status_def counting_drive_def ata_ports)
  next
    case False
    with ph show ?thesis
      by (intro exI [of _ 0]) (simp add: ata_status_def counting_drive_def ata_ports)
  qed
next
  fix h a n k
  assume "d_phase (drive_after h) = Reading a n k \<and> a + n \<le> 256 * cap \<and> d_seen (drive_after h)"
  then show "counting_drive h ATA_DATA = of_nat (a + k)"
    by (simp add: counting_drive_def)
qed

lemma drive_idle_Nil [simp]: "drive_idle []"
  by (simp add: drive_idle_def drive_after_def)

theorem ata_read_transfers_witness:
  "\<exists>t. ata_read_sectors counting_drive 0x10000001 0x9000 1 \<lparr>mem = (\<lambda>_. 7), klog = [], io = []\<rparr> = (0, t)
    \<and> load16 (mem t) 0x9002 = 257 \<and> mem t 0x9200 = 7 \<and> drive_idle (io t)"
proof -
  let ?ws = "disk_words of_nat 256 256"
  obtain t where t: "ata_read_sectors counting_drive 0x10000001 0x9000 1 \<lparr>mem = (\<lambda>_. 7), klog = [], io = []\<rparr> = (0, t)"
    "mem t = write_words (\<lambda>_. 7) 0x9000 ?ws" "drive_idle (io t)"
    using ata_read_transfers [OF counting_drive_works, of "\<lparr>mem = (\<lambda>_. 7), klog = [], io = []\<rparr>" "0x10000001" 1 2 "0x9000"]
    by (auto simp: sectors_for_def)
  have "load16 (mem t) (0x9000 + 2 * of_nat 1) = ?ws ! 1"
    unfolding t(2) by (rule load16_write_words) simp_all
  moreover have "?ws ! 1 = 257"
    unfolding disk_words_def by (subst nth_map) simp_all
  moreover have "(0x9200 :: addr) \<notin> span 0x9000 (2 * length ?ws)"
    by (simp add: in_span_nowrap)
  then have "mem t 0x9200 = 7"
    unfolding t(2) by (simp add: write_words_other)
  ultimately show ?thesis
    using t(1,3) by auto
qed

subsection \<open>The versions of the driver\<close>

text \<open>A state with another log, and results with that state.\<close>

definition relog :: "string list \<Rightarrow> 'r \<times> 'a machine_scheme \<Rightarrow> 'r \<times> 'a machine_scheme" where
  "relog l = map_prod id (\<lambda>s. s\<lparr>klog := l\<rparr>)"

lemma relog_simps [simp]: "relog l (r, s) = (r, s\<lparr>klog := l\<rparr>)"
  by (simp add: relog_def)

lemma inb_relog: "inb dev port (s\<lparr>klog := l\<rparr>) = relog l (inb dev port s)"
  by (simp add: inb_def Let_def)

lemma ata_wait_busy_relog: "ata_wait_busy_loop dev n (s\<lparr>klog := l\<rparr>) = relog l (ata_wait_busy_loop dev n s)"
  by (induction n arbitrary: s) (simp_all add: inb_relog split: prod.split)

lemma ata_wait_drq_relog: "ata_wait_drq_loop dev n (s\<lparr>klog := l\<rparr>) = relog l (ata_wait_drq_loop dev n s)"
  by (induction n arbitrary: s) (simp_all add: inb_relog split: prod.split)

lemma ata_read_words_relog: "ata_read_words dev buf i n (s\<lparr>klog := l\<rparr>) = (ata_read_words dev buf i n s)\<lparr>klog := l\<rparr>"
proof (induction n arbitrary: i s)
  case (Suc n)
  define f where "f s = s\<lparr>io := io s @ [Inw ATA_DATA (dev (io s) ATA_DATA)],
      mem := store16 (mem s) (buf + 2 * i) (dev (io s) ATA_DATA)\<rparr>" for s :: "'a machine_scheme"
  have step: "ata_read_words dev buf i (Suc n) s = ata_read_words dev buf (i + 1) n (f s)" for s :: "'a machine_scheme"
    by (simp add: inw_def Let_def f_def)
  have "f (s\<lparr>klog := l\<rparr>) = (f s)\<lparr>klog := l\<rparr>"
    by (simp add: f_def)
  then show ?case
    unfolding step by (simp only: Suc.IH)
qed simp

lemma ata_command_relog: "ata_command lba count (s\<lparr>klog := l\<rparr>) = (ata_command lba count s)\<lparr>klog := l\<rparr>"
  by (simp add: ata_command_def outb_def Let_def)

lemma ata_read_loop_relog:
  assumes "\<And>s. (lg s)\<lparr>klog := l\<rparr> = s\<lparr>klog := l\<rparr>"
  shows "ata_read_loop dev (\<lambda>s. s) buf n (s\<lparr>klog := l\<rparr>) = relog l (ata_read_loop dev lg buf n s)"
proof (induction n arbitrary: buf s)
  case (Suc n)
  obtain r t where w: "ata_wait_drq dev s = (r, t)" by fastforce
  then have w': "ata_wait_drq dev (s\<lparr>klog := l\<rparr>) = (r, t\<lparr>klog := l\<rparr>)"
    by (simp add: ata_wait_drq_def ata_wait_drq_relog)
  show ?case
    by (simp add: w w' ata_read_words_relog Suc.IH assms)
qed simp

text \<open>The commands and the loops of the three files do the same.\<close>

lemma ata_own_command [simp]:
  "ata_improved_command lba count s = ata_command lba count s"
  "ata_simple_command lba count s = ata_command lba count s"
  by (simp_all only: ata_improved_command_def ata_simple_command_def ata_command_def)

lemma ata_own_read_words [simp]:
  "ata_improved_read_words dev buf i n s = ata_read_words dev buf i n s"
  "ata_simple_read_words dev buf i n s = ata_read_words dev buf i n s"
  by (induction n arbitrary: i s) (simp_all split: prod.split)

lemma ata_own_wait [simp]:
  fixes s :: "'a machine_scheme"
  shows "ata_improved_wait_busy dev s = ata_wait_busy dev s" "ata_simple_wait_busy dev s = ata_wait_busy dev s"
    "ata_improved_wait_drq dev s = ata_wait_drq dev s" "ata_simple_wait_drq dev s = ata_wait_drq dev s"
proof -
  have "ata_improved_wait_busy_loop dev k s = ata_wait_busy_loop dev k s"
    "ata_simple_wait_busy_loop dev k s = ata_wait_busy_loop dev k s"
    "ata_improved_wait_drq_loop dev k s = ata_wait_drq_loop dev k s"
    "ata_simple_wait_drq_loop dev k s = ata_wait_drq_loop dev k s" for k and s :: "'a machine_scheme"
    by (induction k arbitrary: s) (simp_all add: Let_def split: prod.split)
  then show "ata_improved_wait_busy dev s = ata_wait_busy dev s" "ata_simple_wait_busy dev s = ata_wait_busy dev s"
    "ata_improved_wait_drq dev s = ata_wait_drq dev s" "ata_simple_wait_drq dev s = ata_wait_drq dev s"
    by (simp_all only: ata_improved_wait_busy_def ata_simple_wait_busy_def ata_improved_wait_drq_def
        ata_simple_wait_drq_def ata_wait_busy_def ata_wait_drq_def)
qed

lemma ata_own_read_loop [simp]:
  "ata_improved_read_loop dev buf n s = ata_read_loop dev (printk (''ATA: DRQ timeout on sector %d'' @ nl)) buf n s"
  "ata_simple_read_loop dev buf n s = ata_read_loop dev (\<lambda>s. s) buf n s"
  by (induction n arbitrary: buf s) (simp_all split: prod.split)

lemma ata_versions:
  fixes s :: "'a machine_scheme"
  shows "ata_simple_read_sectors dev lba buffer count s
      = map_prod id (\<lambda>t. t\<lparr>klog := klog s\<rparr>) (ata_read_sectors dev lba buffer count s)
    \<and> ata_improved_read_sectors dev lba buffer count s = ata_read_sectors dev lba buffer count s"
proof -
  let ?l = "klog s"
  obtain r t where w: "ata_wait_busy dev s = (r, t)" by fastforce
  have "ata_wait_busy dev (s\<lparr>klog := ?l\<rparr>) = relog ?l (ata_wait_busy dev s)"
    by (simp only: ata_wait_busy_def ata_wait_busy_relog)
  with w have w': "ata_wait_busy dev s = (r, t\<lparr>klog := ?l\<rparr>)"
    by simp
  let ?lg = "printk (''ATA: DRQ timeout on sector %d'' @ nl) :: 'a machine_scheme \<Rightarrow> 'a machine_scheme"
  obtain r' t' where v: "ata_read_loop dev ?lg buffer (unat count) (ata_command lba count t) = (r', t')" by fastforce
  have "ata_read_loop dev (\<lambda>s. s) buffer (unat count) ((ata_command lba count t)\<lparr>klog := ?l\<rparr>)
      = relog ?l (ata_read_loop dev ?lg buffer (unat count) (ata_command lba count t))"
    by (rule ata_read_loop_relog) (simp add: printk_def)
  with v have v': "ata_read_loop dev (\<lambda>s. s) buffer (unat count) (ata_command lba count (t\<lparr>klog := ?l\<rparr>))
      = (r', t'\<lparr>klog := ?l\<rparr>)"
    by (simp add: ata_command_relog)
  have "ata_simple_read_sectors dev lba buffer count s = map_prod id (\<lambda>t. t\<lparr>klog := ?l\<rparr>) (ata_read_sectors dev lba buffer count s)"
    unfolding ata_simple_read_sectors_def ata_own_wait ata_own_command ata_own_read_loop w' unfolding ata_read_sectors_def w
    using v by (simp add: v' printk_def [symmetric])
  moreover have "ata_improved_read_sectors dev lba buffer count s = ata_read_sectors dev lba buffer count s"
    by (simp only: ata_improved_read_sectors_def ata_read_sectors_def ata_own_wait ata_own_command ata_own_read_loop)
  ultimately show ?thesis ..
qed

text \<open>The two conjuncts of \<open>ata_versions\<close> as rules.\<close>

lemma ata_simple_agrees:
  fixes s :: "'a machine_scheme"
  shows "ata_simple_read_sectors dev lba buffer count s
    = map_prod id (\<lambda>t. t\<lparr>klog := klog s\<rparr>) (ata_read_sectors dev lba buffer count s)"
  using ata_versions [of dev lba buffer count s] by blast

lemma ata_improved_agrees:
  fixes s :: "'a machine_scheme"
  shows "ata_improved_read_sectors dev lba buffer count s = ata_read_sectors dev lba buffer count s"
  using ata_versions [of dev lba buffer count s] by blast

text \<open>C40. How the three versions of the driver compare, on every device, working or not. Reads are
  equivalent: the improved version is the module's, and the simple one returns the same value and leaves
  the same machine up to the log, which it does not write. All report the same capacity. \<open>ioctl\<close>
  differs: the module and the simple version accept every command, the improved one refuses all but 1
  and 2; none of the three changes more than the log.\<close>

theorem ata_versions_agree:
  fixes s :: "'a machine_scheme"
  shows "ata_improved_read_sectors dev lba buffer count s = ata_read_sectors dev lba buffer count s
    \<and> ata_simple_read_sectors dev lba buffer count s
      = map_prod id (\<lambda>t. t\<lparr>klog := klog s\<rparr>) (ata_read_sectors dev lba buffer count s)
    \<and> ata_improved_get_capacity = ata_get_capacity \<and> ata_simple_get_capacity = ata_get_capacity
    \<and> ata_simple_ioctl cmd s = (0, s)
    \<and> map_prod id (\<lambda>t. t\<lparr>klog := klog s\<rparr>) (ata_ioctl cmd s) = (0, s)
    \<and> map_prod id (\<lambda>t. t\<lparr>klog := klog s\<rparr>) (ata_improved_ioctl cmd s) = (if cmd \<in> {1, 2} then 0 else -1, s)"
proof (intro conjI)
  show "map_prod id (\<lambda>t. t\<lparr>klog := klog s\<rparr>) (ata_ioctl cmd s) = (0, s)"
    "map_prod id (\<lambda>t. t\<lparr>klog := klog s\<rparr>) (ata_improved_ioctl cmd s) = (if cmd \<in> {1, 2} then 0 else -1, s)"
    by (simp_all add: ata_ioctl_def ata_improved_ioctl_def printk_def)
qed (simp_all add: ata_versions ata_improved_get_capacity_def ata_simple_get_capacity_def ata_get_capacity_def
    ata_simple_ioctl_def)

end
