(* ===== verification/Initrd_Fs.thy ===== *)
theory Initrd_Fs
  imports Registry
begin

text \<open>
  The file system modules modules/sys/fs/initrd_fs: initrd_fs_module.c reads a disk through
  whatever driver has registered itself as block storage (kernel/src/interfaces/registry.c);
  initrd_fs_improved.c is a version of it with another list of files, initrd_fs_module_simple.c and
  fs.c are stubs. String literals, static structures and buffers on the stack are at addresses that
  are parameters; so is what a call through a function pointer does.
\<close>

subsection \<open>The interface structures of include/kernel/interfaces/generic.h\<close>

text \<open>name[32] at offset 0, then four function pointers and private_data.\<close>

definition storage_read :: "mem \<Rightarrow> addr \<Rightarrow> addr" where "storage_read m p = load32 m (p + 32)"

record filesystem_code =
  code_mount :: addr
  code_read :: addr
  code_write :: addr
  code_list :: addr

definition fill_filesystem_interface :: "filesystem_code \<Rightarrow> addr \<Rightarrow> mem \<Rightarrow> mem" where
  "fill_filesystem_interface f p m =
     (let m = store32 m (p + 32) (code_mount f);
          m = store32 m (p + 36) (code_read f);
          m = store32 m (p + 40) (code_write f);
          m = store32 m (p + 44) (code_list f)
      in store32 m (p + 48) NULL)"

subsection \<open>initrd_fs_module.c\<close>

record initrd_state = registry_state +
  storage_device :: addr

text \<open>A call of a \<open>read\<close> function: its address, the device, the sector, the buffer and the count.\<close>

type_synonym 'a read_code = "addr \<Rightarrow> addr \<Rightarrow> u64 \<Rightarrow> addr \<Rightarrow> u32
  \<Rightarrow> 'a initrd_state_scheme \<Rightarrow> int \<times> 'a initrd_state_scheme"

definition initrd_mount :: "'a read_code \<Rightarrow> addr \<Rightarrow> addr \<Rightarrow> addr
    \<Rightarrow> 'a initrd_state_scheme \<Rightarrow> (int \<times> 'a initrd_state_scheme) option" where
  "initrd_mount call block_storage test_buffer device s =
     (let s = printk (''InitRD FS: Mounting filesystem...'' @ nl) s
      in do {
        storage \<leftarrow> interface_get block_storage s;
        if storage = NULL
        then Some (-1, printk (''InitRD FS: ERROR - No block storage interface found!'' @ nl) s)
        else
          let s = s\<lparr>storage_device := device\<rparr>;
              s = printk (''InitRD FS: Using storage device via %s interface'' @ nl) s;
              rd = storage_read (mem s) storage;
              (r, s) = (if rd \<noteq> NULL then call rd (storage_device s) 0 test_buffer 1 s else (-1, s))
          in Some (0, printk (if rd \<noteq> NULL \<and> r = 0
                              then ''InitRD FS: Successfully read sector 0 from disk'' @ nl
                              else ''InitRD FS: WARNING - Could not read from disk'' @ nl) s)
      })"

definition initrd_read :: "'a read_code \<Rightarrow> addr \<Rightarrow> addr \<Rightarrow> addr \<Rightarrow> u32 \<Rightarrow> u32
    \<Rightarrow> 'a initrd_state_scheme \<Rightarrow> (int \<times> 'a initrd_state_scheme) option" where
  "initrd_read call block_storage sector_buffer buffer sz offset s =
     do {
       storage \<leftarrow> interface_get block_storage s;
       if storage = NULL \<or> storage_read (mem s) storage = NULL
       then Some (-1, printk (''InitRD FS: No storage available for reading %s'' @ nl) s)
       else
         let lba = ucast (1 + offset div 512);
             sector_offset = offset mod 512;
             (r, s) = call (storage_read (mem s) storage) (storage_device s) lba sector_buffer 1 s
         in if r = 0
            then let copy_size = (if sz < 512 - sector_offset then sz else 512 - sector_offset);
                     s = with_mem (memcpy (mem s) buffer (sector_buffer + sector_offset) copy_size) s
                 in Some (sint copy_size, printk (''InitRD FS: Read %d bytes from %s (LBA: %lld)'' @ nl) s)
            else Some (-1, s)
     }"

definition initrd_write :: "addr \<Rightarrow> u32 \<Rightarrow> u32 \<Rightarrow> 'a machine_scheme \<Rightarrow> int \<times> 'a machine_scheme" where
  "initrd_write buffer sz offset s =
     (-1, printk (''InitRD FS: Write to %s (size: %d, offset: %d) - NOT IMPLEMENTED'' @ nl) s)"

text \<open>\<open>file_list\<close> is the address of the literal.\<close>

definition initrd_list :: "addr \<Rightarrow> addr \<Rightarrow> u32 \<Rightarrow> 'a machine_scheme \<Rightarrow> (int \<times> 'a machine_scheme) option" where
  "initrd_list file_list buffer buffer_size s =
     do {
       len \<leftarrow> strlen (mem s) file_list;
       if buffer_size \<ge> len
       then do {
         m \<leftarrow> strcpy (mem s) buffer file_list;
         Some (sint len, printk (''InitRD FS: Listed directory %s'' @ nl) (s\<lparr>mem := m\<rparr>))
       }
       else Some (0, s)
     }"

definition initrd_fs_init :: "'a machine_scheme \<Rightarrow> 'a machine_scheme" where
  "initrd_fs_init s =
     printk (''  Requires: %s interface'' @ nl) (printk (''InitRD Filesystem initialized as module'' @ nl) s)"

definition initrd_fs_exit :: "'a machine_scheme \<Rightarrow> 'a machine_scheme" where
  "initrd_fs_exit s = printk (''InitRD Filesystem unloaded'' @ nl) s"

text \<open>\<open>file_system\<close> is the address of the literal, \<open>fs\<close> that of the static structure.\<close>

definition initrd_register_interfaces :: "filesystem_code \<Rightarrow> addr \<Rightarrow> addr
    \<Rightarrow> 'a registry_state_scheme \<Rightarrow> 'a registry_state_scheme option" where
  "initrd_register_interfaces f file_system fs s =
     do {
       m \<leftarrow> strcpy (mem s) fs file_system;
       interface_register file_system fs (with_mem (fill_filesystem_interface f fs m) s)
     }"

subsection \<open>initrd_fs_improved.c and initrd_fs_module_simple.c\<close>

definition initrd_improved_mount :: "'a read_code \<Rightarrow> addr \<Rightarrow> addr \<Rightarrow> addr
    \<Rightarrow> 'a initrd_state_scheme \<Rightarrow> (int \<times> 'a initrd_state_scheme) option" where
  "initrd_improved_mount call block_storage test_buffer device s =
     (let s = printk (''InitRD FS: Mounting filesystem...'' @ nl) s
      in do {
        storage \<leftarrow> interface_get block_storage s;
        if storage = NULL
        then Some (-1, printk (''InitRD FS: ERROR - No block storage interface found!'' @ nl) s)
        else
          let s = s\<lparr>storage_device := device\<rparr>;
              s = printk (''InitRD FS: Using storage device via %s interface'' @ nl) s;
              rd = storage_read (mem s) storage;
              (r, s) = (if rd \<noteq> NULL then call rd (storage_device s) 0 test_buffer 1 s else (-1, s))
          in Some (0, printk (if rd \<noteq> NULL \<and> r = 0
                              then ''InitRD FS: Successfully read sector 0 from disk'' @ nl
                              else ''InitRD FS: WARNING - Could not read from disk'' @ nl) s)
      })"

definition initrd_improved_read :: "'a read_code \<Rightarrow> addr \<Rightarrow> addr \<Rightarrow> addr \<Rightarrow> u32 \<Rightarrow> u32
    \<Rightarrow> 'a initrd_state_scheme \<Rightarrow> (int \<times> 'a initrd_state_scheme) option" where
  "initrd_improved_read call block_storage sector_buffer buffer sz offset s =
     do {
       storage \<leftarrow> interface_get block_storage s;
       if storage = NULL \<or> storage_read (mem s) storage = NULL
       then Some (-1, printk (''InitRD FS: No storage available for reading %s'' @ nl) s)
       else
         let lba = ucast (1 + offset div 512);
             sector_offset = offset mod 512;
             (r, s) = call (storage_read (mem s) storage) (storage_device s) lba sector_buffer 1 s
         in if r = 0
            then let copy_size = (if sz < 512 - sector_offset then sz else 512 - sector_offset);
                     s = with_mem (memcpy (mem s) buffer (sector_buffer + sector_offset) copy_size) s
                 in Some (sint copy_size, printk (''InitRD FS: Read %d bytes from %s (LBA: %lld)'' @ nl) s)
            else Some (-1, s)
     }"

definition initrd_improved_write :: "addr \<Rightarrow> u32 \<Rightarrow> u32 \<Rightarrow> 'a machine_scheme \<Rightarrow> int \<times> 'a machine_scheme" where
  "initrd_improved_write buffer sz offset s =
     (-1, printk (''InitRD FS: Write to %s (size: %d, offset: %d) - NOT IMPLEMENTED'' @ nl) s)"

definition initrd_improved_list :: "addr \<Rightarrow> addr \<Rightarrow> u32 \<Rightarrow> 'a machine_scheme \<Rightarrow> (int \<times> 'a machine_scheme) option" where
  "initrd_improved_list file_list buffer buffer_size s =
     do {
       len \<leftarrow> strlen (mem s) file_list;
       if buffer_size \<ge> len
       then do {
         m \<leftarrow> strcpy (mem s) buffer file_list;
         Some (sint len, printk (''InitRD FS: Listed directory %s'' @ nl) (s\<lparr>mem := m\<rparr>))
       }
       else Some (0, s)
     }"

definition initrd_improved_init :: "'a machine_scheme \<Rightarrow> 'a machine_scheme" where
  "initrd_improved_init s =
     printk (''  Requires: %s interface'' @ nl) (printk (''InitRD Filesystem initialized'' @ nl) s)"

definition initrd_improved_exit :: "'a machine_scheme \<Rightarrow> 'a machine_scheme" where
  "initrd_improved_exit s = printk (''InitRD Filesystem unloaded'' @ nl) s"

text \<open>The improved version does what the module does; only the literals differ.\<close>

lemma initrd_improved_same:
  "initrd_improved_mount = initrd_mount" "initrd_improved_read = initrd_read"
  "initrd_improved_write = initrd_write" "initrd_improved_list = initrd_list"
  by (simp_all only: fun_eq_iff initrd_improved_mount_def initrd_mount_def initrd_improved_read_def initrd_read_def
      initrd_improved_write_def initrd_write_def initrd_improved_list_def initrd_list_def simp_thms)

definition initrd_simple_mount :: "addr \<Rightarrow> 's \<Rightarrow> int \<times> 's" where
  "initrd_simple_mount device s = (0, s)"

definition initrd_simple_read :: "addr \<Rightarrow> u32 \<Rightarrow> u32 \<Rightarrow> 's \<Rightarrow> int \<times> 's" where
  "initrd_simple_read buffer sz offset s = (-1, s)"

definition initrd_simple_write :: "addr \<Rightarrow> u32 \<Rightarrow> u32 \<Rightarrow> 's \<Rightarrow> int \<times> 's" where
  "initrd_simple_write buffer sz offset s = (-1, s)"

definition initrd_simple_list :: "addr \<Rightarrow> u32 \<Rightarrow> 's \<Rightarrow> int \<times> 's" where
  "initrd_simple_list buffer buffer_size s = (0, s)"

subsection \<open>fs.c\<close>

text \<open>The five nodes of the read-only file system stub, and the static variables of its
  directory reader. \<open>lit\<close> gives the address of the path literal of a node, \<open>node\<close> its own.\<close>

datatype fs_node_name = Root_node | Modules_node | Drivers_node | Test_node | Tests_node

record fs_node_t =
  node_name :: string
  node_size :: u32
  node_type :: u32

definition FS_FILE :: u32 where "FS_FILE = 1"
definition FS_DIRECTORY :: u32 where "FS_DIRECTORY = 2"

fun fs_node :: "fs_node_name \<Rightarrow> fs_node_t" where
  "fs_node Root_node = \<lparr>node_name = ''/'', node_size = 0, node_type = FS_DIRECTORY\<rparr>"
| "fs_node Modules_node = \<lparr>node_name = ''/modules'', node_size = 0, node_type = FS_DIRECTORY\<rparr>"
| "fs_node Drivers_node = \<lparr>node_name = ''/modules/drivers'', node_size = 0, node_type = FS_DIRECTORY\<rparr>"
| "fs_node Test_node = \<lparr>node_name = ''/modules/test'', node_size = 0, node_type = FS_DIRECTORY\<rparr>"
| "fs_node Tests_node = \<lparr>node_name = ''/modules/tests'', node_size = 0, node_type = FS_DIRECTORY\<rparr>"

record fs_state = machine +
  readdir_index :: int
  current_dir :: addr

definition fs_init :: "'a machine_scheme \<Rightarrow> bool \<times> 'a machine_scheme" where
  "fs_init s = (True, printk (''Initializing read-only filesystem stub...'' @ nl) s)"

definition fs_open :: "(fs_node_name \<Rightarrow> addr) \<Rightarrow> (fs_node_name \<Rightarrow> addr) \<Rightarrow> addr \<Rightarrow> 'a machine_scheme \<Rightarrow> addr option" where
  "fs_open lit node filename s =
     do {
       c \<leftarrow> strcmp (mem s) filename (lit Root_node);
       if c = 0 then Some (node Root_node) else do {
       c \<leftarrow> strcmp (mem s) filename (lit Modules_node);
       if c = 0 then Some (node Modules_node) else do {
       c \<leftarrow> strcmp (mem s) filename (lit Drivers_node);
       if c = 0 then Some (node Drivers_node) else do {
       c \<leftarrow> strcmp (mem s) filename (lit Test_node);
       if c = 0 then Some (node Test_node) else do {
       c \<leftarrow> strcmp (mem s) filename (lit Tests_node);
       if c = 0 then Some (node Tests_node) else Some NULL }}}}
     }"

definition fs_close :: "addr \<Rightarrow> 's \<Rightarrow> 's" where
  "fs_close node s = s"

definition fs_read :: "addr \<Rightarrow> addr \<Rightarrow> u32 \<Rightarrow> 's \<Rightarrow> u32 \<times> 's" where
  "fs_read node buf sz s = (0, s)"

definition fs_readdir :: "addr \<Rightarrow> 'a fs_state_scheme \<Rightarrow> addr \<times> 'a fs_state_scheme" where
  "fs_readdir node s =
     (let s = (if node \<noteq> current_dir s then s\<lparr>current_dir := node, readdir_index := 0\<rparr> else s)
      in (NULL, s\<lparr>readdir_index := 0, current_dir := NULL\<rparr>))"

definition fs_create :: "addr \<Rightarrow> u32 \<Rightarrow> 'a machine_scheme \<Rightarrow> int \<times> 'a machine_scheme" where
  "fs_create path type s = (-1, printk (''ERROR: Read-only filesystem - cannot create '' @ [CHR 0x27] @ ''%s'' @ [CHR 0x27] @ nl) s)"

definition fs_write :: "addr \<Rightarrow> addr \<Rightarrow> u32 \<Rightarrow> 'a machine_scheme \<Rightarrow> u32 \<times> 'a machine_scheme" where
  "fs_write node buf sz s = (0, printk (''ERROR: Read-only filesystem - cannot write to '' @ [CHR 0x27] @ ''%s'' @ [CHR 0x27] @ nl) s)"

text \<open>\<open>fs_open\<close> finds the node of exactly that path.\<close>

definition fs_nodes :: "fs_node_name list" where
  "fs_nodes = [Root_node, Modules_node, Drivers_node, Test_node, Tests_node]"

lemma fs_open_finds:
  assumes "cstr_at (mem s) filename cs" "\<And>n. cstr_at (mem s) (lit n) (ascii (node_name (fs_node n)))"
  shows "fs_open lit node filename s
    = Some (case find (\<lambda>n. cs = ascii (node_name (fs_node n))) fs_nodes of Some n \<Rightarrow> node n | None \<Rightarrow> NULL)"
proof -
  have "\<exists>r. strcmp (mem s) filename (lit n) = Some r \<and> (r = 0 \<longleftrightarrow> cs = ascii (node_name (fs_node n)))" for n
    using strcmp_cstr [OF assms(1,2)] .
  then obtain r where "strcmp (mem s) filename (lit n) = Some (r n)" "r n = 0 \<longleftrightarrow> cs = ascii (node_name (fs_node n))" for n
    by metis
  then show ?thesis
    by (simp add: fs_open_def fs_nodes_def del: fs_node.simps)
qed

end
