(* ===== verification/Block_Device.thy ===== *)
theory Block_Device
  imports Initrd_Fs Registry_Props Console_Props
begin

text \<open>
  What the file system module relies on when it calls the \<open>read\<close> function of a storage interface
  (include/kernel/interfaces/generic.h), as the locale \<open>block_device\<close>, and what the module then
  promises. Initrd_Props.thy interprets it by the three versions of the disk driver.
\<close>

subsection \<open>Sectors as bytes\<close>

lemma unat_u64: "unat (ucast (x :: u32) :: u64) = unat x"
  using unat32_less [of x] by (simp add: unsigned_ucast_eq take_bit_nat_eq_self)

lemma bytes_at_drop: "bytes_at m (a + of_nat k) n = drop k (bytes_at m a (k + n))"
  by (rule nth_equalityI) (simp_all add: nth_bytes_at add.assoc)

lemma bytes_at_written:
  assumes "k + n \<le> length bs" "length bs \<le> 4294967296"
  shows "bytes_at (write_bytes m a bs) (a + of_nat k) n = take n (drop k bs)"
proof -
  have "bytes_at (write_bytes m a bs) a (k + n) = take (k + n) bs"
    using take_bytes_at [OF assms(1), of "write_bytes m a bs" a] bytes_at_write_bytes [OF assms(2), of m a] by simp
  then show ?thesis
    by (simp add: bytes_at_drop take_drop add.commute)
qed

subsection \<open>The interface of a block device\<close>

text \<open>\<open>works\<close> relates the device at the ports to what it stores and its number of sectors, \<open>quiet\<close> says
  of the accesses so far that no transfer is under way; the law is about one sector of 512 bytes on the
  device with an address of at most 28 bits: it is put where the caller wants it and nowhere else, and
  the device is quiet again.\<close>

locale block_device =
  fixes read_sectors :: "device \<Rightarrow> u64 \<Rightarrow> addr \<Rightarrow> u32 \<Rightarrow> 'a initrd_state_scheme \<Rightarrow> int \<times> 'a initrd_state_scheme"
    and works :: "device \<Rightarrow> nat \<Rightarrow> 'd \<Rightarrow> bool"
    and quiet :: "io_event list \<Rightarrow> bool"
    and sector :: "'d \<Rightarrow> nat \<Rightarrow> u8 list"
  assumes length_sector [simp]: "length (sector disk k) = 512"
    and read_one: "works dev cap disk \<Longrightarrow> quiet (io s) \<Longrightarrow> unat lba < 2 ^ 28 \<Longrightarrow> unat lba < cap
      \<Longrightarrow> \<exists>t. read_sectors dev lba b 1 s = (0, t) \<and> mem t = write_bytes (mem s) b (sector disk (unat lba)) \<and> quiet (io t)"
begin

text \<open>A read of the file system module delivers the bytes of one sector.\<close>

lemma initrd_read_client:
  fixes offset sz :: u32
  assumes "registry_rep s L al" "cstr_at (mem s) lit name" "lit \<noteq> NULL" "lookup al name = storage" "storage \<noteq> NULL"
    "storage_read (mem s) storage = rd" "rd \<noteq> NULL"
    "\<And>device lba b c s. call rd device lba b c s = read_sectors dev lba b c s"
    "works dev cap disk" "quiet (io s)" "1 + unat offset div 512 < cap" "span buffer 512 \<inter> span stack 512 = {}"
  defines "n \<equiv> min (unat sz) (512 - unat offset mod 512)"
  shows "\<exists>t. initrd_read call lit stack buffer sz offset s = Some (int n, t)
    \<and> bytes_at (mem t) buffer n = take n (drop (unat offset mod 512) (sector disk (1 + unat offset div 512)))
    \<and> (\<forall>x. x \<notin> span stack 512 \<and> x \<notin> span buffer n \<longrightarrow> mem t x = mem s x) \<and> quiet (io t)"
proof -
  let ?lba = "ucast (1 + offset div 512) :: u64" and ?so = "unat offset mod 512"
  have off: "unat (1 + offset div 512) = 1 + unat offset div 512"
    using unat32_less [of offset] by (subst unat_add_nowrap) (simp_all add: unat_div)
  have lba: "unat ?lba = 1 + unat offset div 512"
    by (simp only: unat_u64 off)
  have small: "unat ?lba < 2 ^ 28"
    unfolding lba using unat32_less [of offset] by simp
  have get: "interface_get lit s = Some storage"
    using interface_get_lookup [OF assms(1-3)] assms(4) by simp
  obtain t where t: "read_sectors dev ?lba stack 1 s = (0, t)"
    "mem t = write_bytes (mem s) stack (sector disk (unat ?lba))" "quiet (io t)"
    using read_one [OF assms(9,10) small, of stack] assms(11) unfolding lba by blast
  define copy where "copy = (if sz < 512 - offset mod 512 then sz else 512 - offset mod 512)"
  have so: "unat (offset mod 512) = ?so"
    by (simp add: unat_mod)
  have "unat (512 - offset mod 512) = 512 - ?so"
    using so by (subst unat_sub) (simp_all add: word_le_nat_alt unat_mod)
  then have copy: "unat copy = n"
    by (auto simp: copy_def n_def word32_less_nat)
  have n: "n \<le> 512 - ?so" "?so < 512"
    by (simp_all add: n_def)
  have sint: "sint copy = int n"
  proof -
    have "copy = of_nat n"
      by (simp flip: copy)
    then show ?thesis
      using n by (simp add: signed_of_nat signed_take_bit_int_eq_self)
  qed
  have src: "offset mod 512 = of_nat ?so"
    by (simp flip: so)
  have sub1: "span buffer n \<subseteq> span buffer 512"
    using n by (intro span_mono) linarith
  have "unat (of_nat ?so :: u32) + n \<le> 512"
    using n by simp
  then have sub2: "span (stack + of_nat ?so) n \<subseteq> span stack 512"
    by (rule span_offset_subset)
  let ?m = "memcpy (mem t) buffer (stack + offset mod 512) copy"
  have "bytes_at ?m buffer n = bytes_at (mem t) (stack + of_nat ?so) n"
    using bytes_at_memcpy [of buffer copy "stack + offset mod 512" "mem t"] assms(12) sub1 sub2 unfolding copy src by blast
  also have "... = take n (drop ?so (sector disk (unat ?lba)))"
    unfolding t(2) using n by (intro bytes_at_written) simp_all
  finally have bytes: "bytes_at ?m buffer n = take n (drop ?so (sector disk (1 + unat offset div 512)))"
    unfolding lba .
  have other: "?m x = mem s x" if "x \<notin> span stack 512" "x \<notin> span buffer n" for x
    using that by (simp add: memcpy_other copy t(2) write_bytes_other)
  have "initrd_read call lit stack buffer sz offset s
      = Some (int n, printk (''InitRD FS: Read %d bytes from %s (LBA: %lld)'' @ nl) (with_mem ?m t))"
    using assms(5-7) by (simp add: initrd_read_def get assms(8) t(1) Let_def sint flip: copy_def)
  moreover have "io (printk (''InitRD FS: Read %d bytes from %s (LBA: %lld)'' @ nl) (with_mem ?m t)) = io t"
    by (simp add: with_mem_def)
  ultimately show ?thesis
    using bytes other t(3) by (intro exI conjI) (assumption, simp_all)
qed

text \<open>Mounting succeeds and leaves sector 0 in the buffer on the stack.\<close>

lemma initrd_mount_client:
  assumes "registry_rep s L al" "cstr_at (mem s) lit name" "lit \<noteq> NULL" "lookup al name = storage" "storage \<noteq> NULL"
    "storage_read (mem s) storage = rd" "rd \<noteq> NULL"
    "\<And>device lba b c s. call rd device lba b c s = read_sectors dev lba b c s"
    "works dev cap disk" "quiet (io s)" "0 < cap"
  shows "\<exists>t. initrd_mount call lit buffer device s = Some (0, t)
    \<and> mem t = write_bytes (mem s) buffer (sector disk 0) \<and> quiet (io t)
    \<and> last (klog t) = ''InitRD FS: Successfully read sector 0 from disk'' @ nl"
proof -
  let ?s = "printk (''InitRD FS: Mounting filesystem...'' @ nl) s"
  let ?u = "printk (''InitRD FS: Using storage device via %s interface'' @ nl) (?s\<lparr>storage_device := device\<rparr>)"
  have "interface_get lit ?s = interface_get lit s"
    by (simp add: interface_get_def printk_def)
  then have get: "interface_get lit ?s = Some storage"
    using interface_get_lookup [OF assms(1-3)] assms(4) by simp
  have rd: "storage_read (mem ?u) storage = rd"
    using assms(6) by simp
  obtain t where t: "read_sectors dev 0 buffer 1 ?u = (0, t)" "mem t = write_bytes (mem s) buffer (sector disk 0)"
    "quiet (io t)"
    using read_one [OF assms(9), of ?u 0 buffer] assms(10,11) by auto
  from t(1) have call: "call rd (storage_device ?u) 0 buffer 1 ?u = (0, t)"
    by (simp only: assms(8))
  have "initrd_mount call lit buffer device s = Some (0, printk (''InitRD FS: Successfully read sector 0 from disk'' @ nl) t)"
    by (simp only: initrd_mount_def Let_def get Option.bind.bind_lunit rd call prod.case assms(5,7) if_False if_True
        not_False_eq_True simp_thms)
  with t(2,3) show ?thesis
    by (intro exI conjI) (assumption, simp_all)
qed

end

end
