(* ===== verification/Initrd_Props.thy ===== *)
theory Initrd_Props
  imports Block_Device Ata_Props
begin

text \<open>
  The properties of the file system module: a read goes through the interface registry and the
  disk driver and delivers the bytes of the disk; the listing overruns its buffer by one byte.
\<close>

subsection \<open>Sectors as bytes\<close>

definition word_bytes :: "u16 \<Rightarrow> u8 list" where
  "word_bytes w = [ucast w, ucast (drop_bit 8 w)]"

definition sector_bytes :: "(nat \<Rightarrow> u16) \<Rightarrow> nat \<Rightarrow> u8 list" where
  "sector_bytes disk k = concat (map word_bytes (disk_words disk (256 * k) 256))"

lemma length_concat_word_bytes: "length (concat (map word_bytes ws)) = 2 * length ws"
  by (induction ws) (simp_all add: word_bytes_def)

lemma length_sector_bytes [simp]: "length (sector_bytes disk k) = 512"
  by (simp add: sector_bytes_def length_concat_word_bytes)

lemma store16_bytes: "store16 m a w = write_bytes m a (word_bytes w)"
  by (simp add: store16_def word_bytes_def)

lemma write_words_bytes: "write_words m a ws = write_bytes m a (concat (map word_bytes ws))"
proof (induction ws arbitrary: m a)
  case (Cons w ws)
  have "of_nat (length (word_bytes w)) = (2 :: addr)"
    by (simp add: word_bytes_def)
  with Cons show ?case
    by (simp add: write_bytes_append store16_bytes)
qed simp

subsection \<open>Reading through the driver\<close>

lemma ata_read_one_sector:
  assumes "drive_works dev cap disk" "drive_idle (io s)" "unat lba < 2 ^ 28" "unat lba < cap"
  shows "\<exists>t. ata_read_sectors dev lba buffer 1 s = (0, t)
    \<and> mem t = write_bytes (mem s) buffer (sector_bytes disk (unat lba)) \<and> drive_idle (io t)"
proof -
  have lba: "unat lba mod 2 ^ 28 = unat lba"
    using assms(3) by simp
  with assms(4) have "unat lba mod 2 ^ 28 + sectors_for (unat (1 :: u32)) \<le> cap"
    by (simp add: sectors_for_def)
  from ata_read_result [OF assms(1,2) this, of buffer] lba show ?thesis
    by (simp add: write_words_bytes sector_bytes_def) blast
qed

lemma ata_simple_read_one_sector:
  assumes "drive_works dev cap disk" "drive_idle (io s)" "unat lba < 2 ^ 28" "unat lba < cap"
  shows "\<exists>t. ata_simple_read_sectors dev lba buffer 1 s = (0, t)
    \<and> mem t = write_bytes (mem s) buffer (sector_bytes disk (unat lba)) \<and> drive_idle (io t)"
  using ata_read_one_sector [OF assms, of buffer] by (auto simp: ata_simple_agrees)

text \<open>All three versions of the driver are block devices.\<close>

interpretation ata: block_device ata_read_sectors drive_works drive_idle sector_bytes
  by unfold_locales (simp, rule ata_read_one_sector)

interpretation ata_improved: block_device ata_improved_read_sectors drive_works drive_idle sector_bytes
  by unfold_locales (simp, unfold ata_improved_agrees, rule ata_read_one_sector)

interpretation ata_simple: block_device ata_simple_read_sectors drive_works drive_idle sector_bytes
  by unfold_locales (simp, rule ata_simple_read_one_sector)

text \<open>C27. \<open>initrd_read\<close> on a system where the disk driver is registered as block storage and the
  drive works and is idle, for an offset on the disk, returns the number of bytes it delivered: the bytes of sector
  \<open>1 + offset / 512\<close> of the disk from \<open>offset mod 512\<close> on, as many as asked for but at most up to
  the end of that sector (a longer read is cut short). Outside the two buffers (the
  caller's and the 512 bytes on the stack, which do not overlap) memory is unchanged, and the drive is idle
  again. The path plays no role.\<close>

theorem initrd_read_delivers:
  fixes s :: "'a initrd_state_scheme" and offset sz :: u32
  assumes "registry_rep s L al" "cstr_at (mem s) lit name" "lit \<noteq> NULL" "lookup al name = storage" "storage \<noteq> NULL"
    "storage_read (mem s) storage = rd" "rd \<noteq> NULL"
    "\<And>device lba b c s. call rd device lba b c s = ata_read_sectors dev lba b c s"
    "drive_works dev cap disk" "drive_idle (io s)" "1 + unat offset div 512 < cap"
    "span buffer 512 \<inter> span stack 512 = {}"
  defines "n \<equiv> min (unat sz) (512 - unat offset mod 512)"
  shows "\<exists>t. initrd_read call lit stack buffer sz offset s = Some (int n, t)
    \<and> bytes_at (mem t) buffer n = take n (drop (unat offset mod 512) (sector_bytes disk (1 + unat offset div 512)))
    \<and> (\<forall>x. x \<notin> span stack 512 \<and> x \<notin> span buffer n \<longrightarrow> mem t x = mem s x) \<and> drive_idle (io t)"
  using assms(1-12) unfolding n_def by (rule ata.initrd_read_client)

subsection \<open>A system with the driver registered\<close>

text \<open>The literal "block_storage" at 0x8000, a storage interface at 0x9100 whose \<open>read\<close> is the code at
  0x4000, and the heap that \<open>mm_init\<close> builds; then the driver registers itself.\<close>

definition block_storage_name :: "u8 list" where
  "block_storage_name = [0x62, 0x6C, 0x6F, 0x63, 0x6B, 0x5F, 0x73, 0x74, 0x6F, 0x72, 0x61, 0x67, 0x65]"

definition disk_mem :: mem where
  "disk_mem = store32 (write_bytes (\<lambda>_. 0) 0x8000 (block_storage_name @ [0])) 0x9120 0x4000"

definition disk_machine :: initrd_state where
  "disk_machine = mm_init 0x120000 0x9000 \<lparr>mem = disk_mem, klog = [], io = [], heap_start = NULL, heap_end = NULL,
     first_block = NULL, mm_stats = \<lparr>total_memory = 0, heap_size = 0, allocated = 0, alloc_count = 0, free_count = 0\<rparr>,
     interfaces = NULL, storage_device = NULL\<rparr>"

lemma disk_mem_zero:
  assumes "0x9000 \<le> unat x" "unat x < 0x9100"
  shows "disk_mem x = 0"
proof -
  have "x \<notin> span 0x8000 (length (block_storage_name @ [0]))" "x \<notin> span 0x9120 4"
    using assms by (simp_all add: in_span_nowrap block_storage_name_def)
  then show ?thesis
    by (simp add: disk_mem_def store32_other write_bytes_other)
qed

lemma disk_flags: "load32 disk_mem 0x9000 = 0"
proof -
  have "load32 disk_mem 0x9000 = load32 (\<lambda>_. 0) 0x9000"
    by (rule load32_span) (simp add: in_span_nowrap disk_mem_zero)
  then show ?thesis by (simp add: load32_def)
qed

lemma disk_machine_ok:
  "heap_ok disk_machine [Blk 2097136 True]" "stats_ok disk_machine [Blk 2097136 True]"
  "heap_start disk_machine = 0x120000" "interfaces disk_machine = NULL"
  "heap_arena disk_machine = {x. 0x120000 \<le> x \<and> x < 0x320000}"
  "\<And>x. unat x < 0x120000 \<Longrightarrow> mem disk_machine x = disk_mem x"
proof -
  let ?s = "\<lparr>mem = disk_mem, klog = [], io = [], heap_start = NULL, heap_end = NULL,
     first_block = NULL, mm_stats = \<lparr>total_memory = 0, heap_size = 0, allocated = 0, alloc_count = 0, free_count = 0\<rparr>,
     interfaces = NULL, storage_device = NULL\<rparr> :: initrd_state"
  have "load32 (mem ?s) 0x9000 = 0"
    using disk_flags by simp
  note booted = booted_over [OF this]
  show "heap_ok disk_machine [Blk 2097136 True]" "stats_ok disk_machine [Blk 2097136 True]"
    "heap_start disk_machine = 0x120000" "heap_arena disk_machine = {x. 0x120000 \<le> x \<and> x < 0x320000}"
    using booted(1-4) by (simp_all add: disk_machine_def)
  have "interfaces disk_machine = interfaces ?s"
    unfolding disk_machine_def by (rule more_interfaces) (rule booted)
  then show "interfaces disk_machine = NULL"
    by simp
  show "unat x < 0x120000 \<Longrightarrow> mem disk_machine x = disk_mem x" for x
    using booted(6) [of x] by (simp add: disk_machine_def)
qed

lemma disk_machine_low:
  assumes "\<And>x. unat x < 0x120000 \<Longrightarrow> mem s x = disk_mem x"
  shows "cstr_at (mem s) 0x8000 block_storage_name" "storage_read (mem s) 0x9100 = 0x4000"
proof -
  have "cstr_at (write_bytes (\<lambda>_. 0) 0x8000 (block_storage_name @ [0])) 0x8000 block_storage_name"
    by (rule cstr_at_write_bytes) (simp_all add: block_storage_name_def)
  moreover have "mem s x = write_bytes (\<lambda>_. 0) 0x8000 (block_storage_name @ [0]) x"
    if "x \<in> span 0x8000 (Suc (length block_storage_name))" for x
    using that assms by (simp add: block_storage_name_def in_span_nowrap disk_mem_def store32_other)
  ultimately show "cstr_at (mem s) 0x8000 block_storage_name"
    using cstr_at_span by blast
  have "load32 (mem s) 0x9120 = load32 disk_mem 0x9120"
    using assms by (intro load32_span) (simp add: in_span_nowrap)
  then show "storage_read (mem s) 0x9100 = 0x4000"
    by (simp add: storage_read_def disk_mem_def)
qed

text \<open>The heap and the registry access no port.\<close>

lemma disk_init_io: "io (mm_init kernel_end mbi s) = io s"
  by (simp add: mm_init_def init_heap_def Let_def printk_def)

lemma kmalloc_io: "kmalloc sz s = Some (r, s') \<Longrightarrow> io s' = io s"
  by (auto simp: kmalloc_def Let_def printk_def split: if_splits bind_splits)

lemma interface_register_io: "interface_register name iface s = Some s' \<Longrightarrow> io s' = io s"
  by (auto simp: interface_register_def Let_def printk_def with_mem_def dest!: kmalloc_io split: if_splits bind_splits)

lemma disk_driver_registered:
  obtains s :: initrd_state where "ata_register_interfaces 0x8000 0x9100 disk_machine = Some s"
    "registry_rep s {} [(block_storage_name, 0x9100)]" "\<And>x. unat x < 0x120000 \<Longrightarrow> mem s x = disk_mem x" "io s = []"
proof -
  note ok = disk_machine_ok
  have "heap_owns disk_machine {}"
    unfolding heap_owns_def using ok(1,2) by (intro exI [of _ "[Blk 2097136 True]"]) simp
  then have reg: "reg_ok disk_machine {} []"
    by (simp add: reg_ok_def ok(4))
  obtain s1 where s1: "kmalloc 40 disk_machine = Some (0x120010, s1)"
    using kmalloc_blocks [OF ok(1,2), where sz = 40 and a = "0x120010" and bs' = "[Blk 40 False, Blk 2097080 True]"]
    by (auto simp: alloc_abs_def align_nat_def ok(3) carve_def)
  then have head: "interface_register 0x8000 0x9100 disk_machine = Some s' \<Longrightarrow> interfaces s' = 0x120010" for s'
    by (auto simp: interface_register_def sizeof_interface_entry_def Let_def)
  have str: "cstr_at (mem disk_machine) 0x8000 block_storage_name"
    by (rule disk_machine_low) (rule ok(6))
  have low: "span 0x8000 (Suc (length block_storage_name)) \<subseteq> regions {} \<union> - heap_arena disk_machine"
    by (auto simp: ok(5) in_span_nowrap block_storage_name_def word32_le_nat)
  have "(0x8000 :: addr) \<noteq> NULL" "(0x9100 :: addr) \<noteq> NULL" by simp_all
  from reg this str low show thesis
  proof (cases rule: interface_register_cases)
    case full
    with head [OF full(2)] ok(4) show ?thesis by (simp add: printk_def)
  next
    case (entered s' r n)
    have "registry_rep s' {} [(block_storage_name, 0x9100)]"
      unfolding registry_rep_def using entered(2)
      by (intro exI [of _ "[(r, n, block_storage_name, 0x9100)]"]) (simp add: block_storage_name_def)
    moreover have "mem s' x = disk_mem x" if "unat x < 0x120000" for x
      using that entered(4) [of x] ok(5,6) by (simp add: word32_le_nat)
    ultimately show ?thesis
      using that entered(1) interface_register_io [OF entered(1)]
      by (simp add: ata_register_interfaces_def disk_machine_def disk_init_io)
  qed
qed

text \<open>Reading 20 bytes at offset 1012 delivers the 12 bytes that are left of sector 2.\<close>

theorem initrd_read_delivers_witness:
  "\<exists>s t. ata_register_interfaces 0x8000 0x9100 disk_machine = Some s
    \<and> initrd_read (\<lambda>rd device lba b c s. ata_read_sectors counting_drive lba b c s) 0x8000 0x7000 0xA000 20 1012 s = Some (12, t)
    \<and> bytes_at (mem t) 0xA000 12 = take 12 (drop 500 (sector_bytes of_nat 2)) \<and> drive_idle (io t)"
proof -
  obtain s where s: "ata_register_interfaces 0x8000 0x9100 disk_machine = Some s"
    "registry_rep s {} [(block_storage_name, 0x9100)]" "\<And>x. unat x < 0x120000 \<Longrightarrow> mem s x = disk_mem x" "io s = []"
    using disk_driver_registered by blast
  have low: "cstr_at (mem s) 0x8000 block_storage_name" "storage_read (mem s) 0x9100 = 0x4000"
    by (rule disk_machine_low, rule s(3), assumption)+
  have disj: "span (0xA000 :: addr) 512 \<inter> span 0x7000 512 = {}"
    by (rule span_disjoint) simp_all
  have "lookup [(block_storage_name, 0x9100)] block_storage_name = 0x9100"
    by (simp add: lookup_def)
  from initrd_read_delivers [OF s(2) low(1) _ this _ low(2) _ _ counting_drive_works [of 100] _ _ disj, where sz = 20 and offset = 1012
      and call = "\<lambda>rd device lba b c s. ata_read_sectors counting_drive lba b c s"]
  show ?thesis
    using s(1,4) by (auto simp flip: numeral_2_eq_2)
qed

subsection \<open>Listing\<close>

lemma initrd_list_result:
  assumes "cstr_at (mem s) fl cs" "length cs < 2147483648"
    "span buffer (Suc (length cs)) \<inter> span fl (Suc (length cs)) = {}"
  shows "initrd_list fl buffer sz s =
    (if length cs \<le> unat sz
     then Some (int (length cs), printk (''InitRD FS: Listed directory %s'' @ nl)
            (s\<lparr>mem := write_bytes (mem s) buffer (cs @ [0])\<rparr>))
     else Some (0, s))"
proof -
  have "unat (of_nat (length cs) :: u32) = length cs" "sint (of_nat (length cs) :: u32) = int (length cs)"
    using assms(2) by (simp_all add: signed_of_nat signed_take_bit_int_eq_self)
  then show ?thesis
    by (simp add: initrd_list_def strlen_cstr [OF assms(1)] strcpy_cstr [OF assms(1,3)] word32_le_nat)
qed

text \<open>\<open>initrd_list\<close> returns, and refuses a buffer shorter than the text; but a buffer of
  exactly its length is accepted, and then the byte after the end of the buffer is overwritten with
  the 0 that ends the string, and nothing else outside the buffer.\<close>

theorem initrd_list_overruns:
  fixes s :: "'a machine_scheme"
  assumes "cstr_at (mem s) fl cs" "length cs < 2147483648"
    "span buffer (Suc (length cs)) \<inter> span fl (Suc (length cs)) = {}"
  shows "(unat sz < length cs \<longrightarrow> initrd_list fl buffer sz s = Some (0, s))
    \<and> (length cs \<le> unat sz \<longrightarrow> (\<exists>t. initrd_list fl buffer sz s = Some (int (length cs), t)
         \<and> bytes_at (mem t) buffer (length cs) = cs
         \<and> mem t (buffer + of_nat (length cs)) = 0
         \<and> (\<forall>x. x \<notin> span buffer (Suc (length cs)) \<longrightarrow> mem t x = mem s x)))"
proof -
  let ?m = "write_bytes (mem s) buffer (cs @ [0])"
  have "bytes_at ?m (buffer + of_nat 0) (length cs) = take (length cs) (drop 0 (cs @ [0]))"
    "bytes_at ?m (buffer + of_nat (length cs)) 1 = take 1 (drop (length cs) (cs @ [0]))"
    using assms(2) by (intro bytes_at_written; simp)+
  then have "bytes_at ?m buffer (length cs) = cs" "?m (buffer + of_nat (length cs)) = 0"
    by (simp_all add: bytes_at_Suc)
  moreover have "?m x = mem s x" if "x \<notin> span buffer (Suc (length cs))" for x
    using that by (simp add: write_bytes_other)
  ultimately show ?thesis
    by (auto simp: initrd_list_result [OF assms])
qed

text \<open>The two-byte text "H" and a newline in a buffer of two bytes.\<close>

theorem initrd_list_overruns_witness:
  "\<exists>t. initrd_list 0x1000 0x2000 2 (hello\<lparr>mem := (mem hello)(0x2002 := 7)\<rparr>) = Some (2, t) \<and> mem t 0x2002 = 0"
proof -
  have str: "cstr_at (mem (hello\<lparr>mem := (mem hello)(0x2002 := 7)\<rparr>)) 0x1000 [0x48, 0x0A]"
    by (simp add: hello_def)
  have disj: "span (0x2000 :: addr) (Suc (length [0x48, 0x0A :: u8])) \<inter> span 0x1000 (Suc (length [0x48, 0x0A :: u8])) = {}"
    by (rule span_disjoint) simp_all
  show ?thesis
    using initrd_list_overruns [OF str _ disj, of 2] by auto
qed

end
