(* ===== verification/Module_Info.thy ===== *)
theory Module_Info
  imports Initrd_Fs
begin

text \<open>
  The static data of the loadable modules: the module structures of include/kernel/module.h with the
  types of include/kernel/types.h, and the storage interfaces of the three disk drivers as they lie in
  memory. Functions are named by the symbols of the source; where the compiler puts their code is a
  parameter.
\<close>

subsection \<open>Types\<close>

datatype module_type_t = MODULE_TYPE_SYSTEM | MODULE_TYPE_DRIVER | MODULE_TYPE_SERVICE | MODULE_TYPE_TEST

datatype driver_subtype_t = DRIVER_SUBTYPE_NONE | DRIVER_SUBTYPE_INPUT | DRIVER_SUBTYPE_VIDEO
  | DRIVER_SUBTYPE_STORAGE | DRIVER_SUBTYPE_NETWORK | DRIVER_SUBTYPE_AUDIO | DRIVER_SUBTYPE_TIME

datatype module_status_t = MODULE_STATUS_UNLOADED | MODULE_STATUS_LOADED | MODULE_STATUS_ERROR

definition MODULE_MAGIC :: u32 where "MODULE_MAGIC = 0x4D4F4455"

record module_struct =
  module_magic :: u32
  module_text :: string
  module_version :: u32
  module_type :: module_type_t
  module_register :: "string option"
  module_unregister :: "string option"
  module_start :: "string option"
  module_stop :: "string option"

subsection \<open>The module structures\<close>

definition ata_module :: module_struct where
  "ata_module = \<lparr>module_magic = MODULE_MAGIC, module_text = ''ata_disk_driver'', module_version = 0x100,
     module_type = MODULE_TYPE_DRIVER, module_register = Some ''ata_register_interfaces'', module_unregister = None,
     module_start = Some ''ata_init'', module_stop = Some ''ata_exit''\<rparr>"

definition ata_improved_module :: module_struct where
  "ata_improved_module = \<lparr>module_magic = MODULE_MAGIC, module_text = ''ata_pc_driver'', module_version = 0x100,
     module_type = MODULE_TYPE_DRIVER, module_register = Some ''ata_register_interfaces'', module_unregister = None,
     module_start = Some ''ata_init'', module_stop = Some ''ata_exit''\<rparr>"

definition ata_simple_module :: module_struct where
  "ata_simple_module = \<lparr>module_magic = MODULE_MAGIC, module_text = ''ata_disk_driver'', module_version = 0x100,
     module_type = MODULE_TYPE_DRIVER, module_register = Some ''ata_register_interfaces'', module_unregister = None,
     module_start = Some ''ata_init'', module_stop = Some ''ata_exit''\<rparr>"

definition initrd_fs_module :: module_struct where
  "initrd_fs_module = \<lparr>module_magic = MODULE_MAGIC, module_text = ''initrd_filesystem'', module_version = 0x100,
     module_type = MODULE_TYPE_TEST, module_register = Some ''initrd_register_interfaces'', module_unregister = None,
     module_start = Some ''initrd_init'', module_stop = Some ''initrd_exit''\<rparr>"

text \<open>Every name fits into the 32 bytes of its field with the final 0.\<close>

lemma module_names_fit:
  "length (module_text ata_module) < 32" "length (module_text ata_improved_module) < 32"
  "length (module_text ata_simple_module) < 32" "length (module_text initrd_fs_module) < 32"
  by (simp_all add: ata_module_def ata_improved_module_def ata_simple_module_def initrd_fs_module_def)

subsection \<open>The storage interface of a driver\<close>

text \<open>The static structure with the code of the driver at the given addresses: the name, padded with
  zeros to 32 bytes, then \<open>read\<close>, no \<open>write\<close>, \<open>get_capacity\<close>, \<open>ioctl\<close> and no private data.\<close>

definition INTERFACE_BLOCK_STORAGE :: string where "INTERFACE_BLOCK_STORAGE = ''block_storage''"
definition INTERFACE_FILE_SYSTEM :: string where "INTERFACE_FILE_SYSTEM = ''file_system''"
definition INTERFACE_DISPLAY :: string where "INTERFACE_DISPLAY = ''display''"
definition INTERFACE_INPUT :: string where "INTERFACE_INPUT = ''input''"
definition INTERFACE_NETWORK :: string where "INTERFACE_NETWORK = ''network''"

definition ata_storage :: "addr \<Rightarrow> addr \<Rightarrow> addr \<Rightarrow> addr \<Rightarrow> mem \<Rightarrow> mem" where
  "ata_storage rd capacity ctl p m =
     (let m = write_bytes m p (take 32 (ascii INTERFACE_BLOCK_STORAGE @ replicate 32 0));
          m = store32 m (p + 32) rd;
          m = store32 m (p + 36) NULL;
          m = store32 m (p + 40) capacity;
          m = store32 m (p + 44) ctl
      in store32 m (p + 48) NULL)"

text \<open>The same structure in the two other versions of the driver, with their own functions.\<close>

definition ata_improved_storage :: "addr \<Rightarrow> addr \<Rightarrow> addr \<Rightarrow> addr \<Rightarrow> mem \<Rightarrow> mem" where
  "ata_improved_storage rd capacity ctl p m =
     (let m = write_bytes m p (take 32 (ascii INTERFACE_BLOCK_STORAGE @ replicate 32 0));
          m = store32 m (p + 32) rd;
          m = store32 m (p + 36) NULL;
          m = store32 m (p + 40) capacity;
          m = store32 m (p + 44) ctl
      in store32 m (p + 48) NULL)"

definition ata_simple_storage :: "addr \<Rightarrow> addr \<Rightarrow> addr \<Rightarrow> addr \<Rightarrow> mem \<Rightarrow> mem" where
  "ata_simple_storage rd capacity ctl p m =
     (let m = write_bytes m p (take 32 (ascii INTERFACE_BLOCK_STORAGE @ replicate 32 0));
          m = store32 m (p + 32) rd;
          m = store32 m (p + 36) NULL;
          m = store32 m (p + 40) capacity;
          m = store32 m (p + 44) ctl
      in store32 m (p + 48) NULL)"

lemma ata_storages_agree: "ata_improved_storage = ata_storage" "ata_simple_storage = ata_storage"
  by (simp_all add: fun_eq_iff ata_improved_storage_def ata_simple_storage_def ata_storage_def)

text \<open>The file system finds the driver's \<open>read\<close> there.\<close>

lemma storage_read_ata [simp]: "storage_read (ata_storage rd cap ctl p m) p = rd"
  by (simp add: storage_read_def ata_storage_def Let_def mem_simps)

end
