(* ===== verification/Drivers.thy ===== *)
theory Drivers
  imports Interrupts_Props
begin

text \<open>
  The small drivers and stubs: modules/drivers/core (keyboard.c, timer.c, vga.c, vga_driver.c),
  modules/sys/terminal/terminal.c, the empty ATA and file system modules (ata.c, initrd_fs.c), the
  functions that modules are linked against until they are loaded (module_stubs.c), the spin locks of
  scheduler.h and paging_init of mm_paging.c.
\<close>

subsection \<open>The drivers\<close>

definition KEYBOARD_DATA_PORT :: u16 where "KEYBOARD_DATA_PORT = 0x60"
definition KEYBOARD_STATUS_PORT :: u16 where "KEYBOARD_STATUS_PORT = 0x64"

definition keyboard_handler :: "device \<Rightarrow> 'a machine_scheme \<Rightarrow> 'a machine_scheme" where
  "keyboard_handler dev s =
     (let (st, s) = inb dev KEYBOARD_STATUS_PORT s
      in if st AND 0x01 \<noteq> 0
         then (let (keycode, s) = inb dev KEYBOARD_DATA_PORT s
               in printk (''Key pressed: 0x%x'' @ nl) s)
         else s)"

text \<open>\<open>handler\<close> is the address of \<open>keyboard_handler\<close>.\<close>

definition keyboard_init :: "addr \<Rightarrow> 'a interrupt_state_scheme \<Rightarrow> int \<times> 'a interrupt_state_scheme" where
  "keyboard_init handler s =
     (0, printk (''Keyboard driver initialized'' @ nl) (register_irq_handler 1 handler s))"

definition keyboard_exit :: "'a interrupt_state_scheme \<Rightarrow> 'a interrupt_state_scheme" where
  "keyboard_exit s = register_irq_handler 1 NULL s"

definition timer_init :: "'a machine_scheme \<Rightarrow> int \<times> 'a machine_scheme" where
  "timer_init s = (0, printk (''Timer module initialized'' @ nl) s)"

definition timer_deinit :: "'a machine_scheme \<Rightarrow> int \<times> 'a machine_scheme" where
  "timer_deinit s = (0, printk (''Timer module deinitialized'' @ nl) s)"

definition vga_module_init :: "'a machine_scheme \<Rightarrow> int \<times> 'a machine_scheme" where
  "vga_module_init s = (0, printk (''VGA module initialized'' @ nl) s)"

definition vga_module_deinit :: "'a machine_scheme \<Rightarrow> int \<times> 'a machine_scheme" where
  "vga_module_deinit s = (0, printk (''VGA module deinitialized'' @ nl) s)"

definition vga_driver_module_init :: "'a machine_scheme \<Rightarrow> int \<times> 'a machine_scheme" where
  "vga_driver_module_init s = (0, printk (''VGA driver module initialized (stub)'' @ nl) s)"

definition terminal_module_init :: "'a machine_scheme \<Rightarrow> int \<times> 'a machine_scheme" where
  "terminal_module_init s = (0, printk (''Terminal module initialized'' @ nl) s)"

definition terminal_module_deinit :: "'a machine_scheme \<Rightarrow> 'a machine_scheme" where
  "terminal_module_deinit s = printk (''Terminal module deinitialized'' @ nl) s"

definition ata_stub_init :: "'a machine_scheme \<Rightarrow> int \<times> 'a machine_scheme" where
  "ata_stub_init s = (0, printk (''ATA driver initialized'' @ nl) s)"

definition ata_stub_exit :: "'a machine_scheme \<Rightarrow> 'a machine_scheme" where
  "ata_stub_exit s = printk (''ATA driver exited'' @ nl) s"

definition initrd_fs_stub_init :: "'a machine_scheme \<Rightarrow> int \<times> 'a machine_scheme" where
  "initrd_fs_stub_init s = (0, printk (''Initrd filesystem initialized'' @ nl) s)"

definition initrd_fs_stub_exit :: "'a machine_scheme \<Rightarrow> 'a machine_scheme" where
  "initrd_fs_stub_exit s = printk (''Initrd filesystem exited'' @ nl) s"

definition paging_init :: "'s \<Rightarrow> 's" where "paging_init s = s"

subsection \<open>module_stubs.c\<close>

definition stub_printk :: "addr \<Rightarrow> 's \<Rightarrow> 's" where "stub_printk fmt s = s"
definition stub_interface_register :: "addr \<Rightarrow> addr \<Rightarrow> 's \<Rightarrow> 's" where "stub_interface_register name interf s = s"
definition stub_interface_get :: "addr \<Rightarrow> 's \<Rightarrow> addr \<times> 's" where "stub_interface_get name s = (NULL, s)"
definition stub_kmalloc :: "u32 \<Rightarrow> 's \<Rightarrow> addr \<times> 's" where "stub_kmalloc n s = (NULL, s)"
definition stub_kfree :: "addr \<Rightarrow> 's \<Rightarrow> 's" where "stub_kfree p s = s"

partial_function (option) stub_strlen_loop :: "mem \<Rightarrow> addr \<Rightarrow> u32 \<Rightarrow> u32 option" where
  "stub_strlen_loop m s len = (if m (s + len) \<noteq> 0 then stub_strlen_loop m s (len + 1) else Some len)"

definition stub_strlen :: "mem \<Rightarrow> addr \<Rightarrow> u32 option" where
  "stub_strlen m s = stub_strlen_loop m s 0"

partial_function (option) stub_strcpy :: "mem \<Rightarrow> addr \<Rightarrow> addr \<Rightarrow> mem option" where
  "stub_strcpy m d s =
     (let c = m s; m = m(d := c) in if c \<noteq> 0 then stub_strcpy m (d + 1) (s + 1) else Some m)"

fun stub_memcpy_loop :: "mem \<Rightarrow> addr \<Rightarrow> addr \<Rightarrow> nat \<Rightarrow> mem" where
  "stub_memcpy_loop m d s n =
     (if n = 0 then m else stub_memcpy_loop (m(d := m s)) (d + 1) (s + 1) (n - 1))"

definition stub_memcpy :: "mem \<Rightarrow> addr \<Rightarrow> addr \<Rightarrow> u32 \<Rightarrow> mem" where
  "stub_memcpy m dest src n = stub_memcpy_loop m dest src (unat n)"

declare stub_memcpy_loop.simps [simp del]

subsection \<open>Spin locks\<close>

text \<open>The locks are 32-bit cells. \<open>spinlock_lock\<close> waits until the cell is 0; no other processor
  changes it meanwhile, as the kernel starts none.\<close>

definition spinlock_init :: "addr \<Rightarrow> mem \<Rightarrow> mem" where
  "spinlock_init lock m = store32 m lock 0"

partial_function (option) spinlock_wait :: "addr \<Rightarrow> mem \<Rightarrow> unit option" where
  "spinlock_wait lock m = (if load32 m lock \<noteq> 0 then spinlock_wait lock m else Some ())"

definition spinlock_lock :: "addr \<Rightarrow> mem \<Rightarrow> mem option" where
  "spinlock_lock lock m = do { _ \<leftarrow> spinlock_wait lock m; Some (store32 m lock 1) }"

definition spinlock_unlock :: "addr \<Rightarrow> mem \<Rightarrow> mem" where
  "spinlock_unlock lock m = store32 m lock 0"

subsection \<open>The stubs against the kernel's string library\<close>

text \<open>Two loops in the option monad agree when each returns what the other does.\<close>

lemma option_eqI: "(\<And>r. x = Some r \<Longrightarrow> y = Some r) \<Longrightarrow> (\<And>r. y = Some r \<Longrightarrow> x = Some r) \<Longrightarrow> x = y"
  by (cases x; cases y) auto

lemma stub_strlen_loop_eq: "stub_strlen_loop m s len = strlen_loop m (s + len) len"
proof (rule option_eqI)
  fix r assume "stub_strlen_loop m s len = Some r"
  then show "strlen_loop m (s + len) len = Some r"
    by (rule stub_strlen_loop.raw_induct [where P = "\<lambda>m s len r. strlen_loop m (s + len) len = Some r", rotated])
      (subst strlen_loop.simps, auto simp: add.assoc split: if_splits)
next
  fix r assume "strlen_loop m (s + len) len = Some r"
  then have "stub_strlen_loop m (s + len - len) len = Some r"
    by (rule strlen_loop.raw_induct [where P = "\<lambda>m a len r. stub_strlen_loop m (a - len) len = Some r", rotated])
      (subst stub_strlen_loop.simps, fastforce split: if_splits)
  then show "stub_strlen_loop m s len = Some r" by simp
qed

lemma stub_strcpy_eq: "stub_strcpy m d s = strcpy m d s"
proof (rule option_eqI)
  fix r assume "stub_strcpy m d s = Some r"
  then show "strcpy m d s = Some r"
    by (rule stub_strcpy.raw_induct [where P = "\<lambda>m d s r. strcpy m d s = Some r", rotated])
      (subst strcpy.simps, auto simp: Let_def split: if_splits)
next
  fix r assume "strcpy m d s = Some r"
  then show "stub_strcpy m d s = Some r"
    by (rule strcpy.raw_induct [where P = "\<lambda>m d s r. stub_strcpy m d s = Some r", rotated])
      (subst stub_strcpy.simps, auto simp: Let_def split: if_splits)
qed

lemma stub_memcpy_loop_eq: "stub_memcpy_loop m d s n = memcpy_loop m d s n"
  by (induction n arbitrary: m d s) (subst stub_memcpy_loop.simps; simp)+

lemma spinlock_wait_free: "spinlock_wait lock m = (if load32 m lock = 0 then Some () else None)"
proof (rule option_eqI)
  fix r assume "spinlock_wait lock m = Some r"
  then have "load32 m lock = 0"
    by (rule spinlock_wait.raw_induct [where P = "\<lambda>lock m r. load32 m lock = 0", rotated]) (auto split: if_splits)
  then show "(if load32 m lock = 0 then Some () else None) = Some r" by simp
next
  fix r assume "(if load32 m lock = 0 then Some () else None) = Some r"
  then show "spinlock_wait lock m = Some r"
    by (subst spinlock_wait.simps) (auto split: if_splits)
qed

subsection \<open>The properties\<close>

text \<open>The string functions that modules are linked against compute what the kernel's string
  library does, overlapping buffers and strings that never end included.\<close>

theorem stubs_agree_with_kernel:
  "stub_strlen m s = strlen m s \<and> stub_strcpy m d s = strcpy m d s \<and> stub_memcpy m d s n = memcpy m d s n"
  by (simp add: stub_strlen_def strlen_def stub_strlen_loop_eq stub_strcpy_eq stub_memcpy_def memcpy_def stub_memcpy_loop_eq)

text \<open>\<open>spinlock_lock\<close> returns exactly when the lock is free, and then holds it: a second
  \<open>spinlock_lock\<close> never returns, and it returns again after \<open>spinlock_unlock\<close>. No byte outside
  the lock changes.\<close>

theorem spinlock_excludes:
  "((\<exists>m'. spinlock_lock lock m = Some m') \<longleftrightarrow> load32 m lock = 0)
   \<and> (case spinlock_lock lock m of
        None \<Rightarrow> True
      | Some m' \<Rightarrow> spinlock_lock lock m' = None
          \<and> (\<exists>m''. spinlock_lock lock (spinlock_unlock lock m') = Some m'')
          \<and> {x. m' x \<noteq> m x} \<subseteq> span lock 4)
   \<and> (\<exists>m'. spinlock_lock lock (spinlock_init lock m) = Some m')"
  by (auto simp: spinlock_lock_def spinlock_wait_free spinlock_unlock_def spinlock_init_def mem_simps
      split: option.splits if_splits bind_splits intro: ccontr dest: store32_other)

text \<open>The keyboard driver registers its handler in a table from which no interrupt is
  dispatched: after its initialisation IRQ 1 still runs the default handler, and no code of a driver
  is called.\<close>

theorem keyboard_irq_ignored:
  assumes "length (irq_handlers s) = 16"
  shows "irq_handler call 33 (snd (keyboard_init h (irq_init dev s)))
    = pic_send_eoi 1 (default_irq_handler (snd (keyboard_init h (irq_init dev s))))"
proof -
  let ?s = "snd (keyboard_init h (irq_init dev s))"
  have "irq_handlers ?s = irq_handlers (irq_init dev s)"
    by (simp add: keyboard_init_def register_irq_handler_def printk_def)
  then have "irq_handlers ?s ! 1 = Some Default_irq_handler"
    using irq_do_handlers [OF assms, of "[]" dev] by simp
  then show ?thesis
    by (simp add: irq_handler_def)
qed

theorem keyboard_irq_ignored_witness:
  "klog (irq_handler (\<lambda>a s. s\<lparr>klog := []\<rparr>) 33 (snd (keyboard_init 0x5000 (irq_init (\<lambda>_ _. 0) no_interrupts))))
    = klog (snd (keyboard_init 0x5000 (irq_init (\<lambda>_ _. 0) no_interrupts))) @ [''Unhandled IRQ occurred!'' @ nl]"
proof -
  have len: "length (irq_handlers no_interrupts) = 16"
    by (simp add: no_interrupts_def interrupt_state.defs gdt_state.defs)
  show ?thesis
    unfolding keyboard_irq_ignored [OF len]
    by (simp add: default_irq_handler_def pic_send_eoi_def outb_def)
qed

end
