(* ===== verification/Spinlock.thy ===== *)
theory Spinlock
  imports Drivers
begin

text \<open>
  Processors that share a spin lock of include/kernel/scheduler.h. Each is at one of four points of
  \<open>spinlock_lock(lock); ...; spinlock_unlock(lock)\<close>, and they take turns in any order, one access to
  the lock at a time. The same processors with \<open>spinlock_lock\<close> as a single step are the specification
  the comment in the code has in mind.
\<close>

subsection \<open>One access at a time\<close>

datatype lock_pc = Outside | Testing | Setting | Holding

record spin_state =
  lock_mem :: mem
  lock_pcs :: "nat \<Rightarrow> lock_pc"

definition move_pc :: "nat \<Rightarrow> lock_pc \<Rightarrow> spin_state \<Rightarrow> spin_state" where
  "move_pc i pc s = s\<lparr>lock_pcs := (lock_pcs s)(i := pc)\<rparr>"

definition put_mem :: "mem \<Rightarrow> spin_state \<Rightarrow> spin_state" where
  "put_mem m s = s\<lparr>lock_mem := m\<rparr>"

lemma spin_state_simps [simp]:
  "lock_pcs (move_pc i pc s) = (lock_pcs s)(i := pc)" "lock_mem (move_pc i pc s) = lock_mem s"
  "lock_pcs (put_mem m s) = lock_pcs s" "lock_mem (put_mem m s) = m"
  by (simp_all add: move_pc_def put_mem_def)

text \<open>The condition of \<open>while (*lock) {}\<close> is evaluated in \<open>spin\<close> and \<open>pass\<close>, \<open>*lock = 1\<close> executed in
  \<open>take\<close>. A holder may change any memory but the lock.\<close>

inductive spin_step :: "addr \<Rightarrow> spin_state \<Rightarrow> spin_state \<Rightarrow> bool" for lock where
  call: "lock_pcs s i = Outside \<Longrightarrow> spin_step lock s (move_pc i Testing s)"
| spin: "lock_pcs s i = Testing \<Longrightarrow> load32 (lock_mem s) lock \<noteq> 0 \<Longrightarrow> spin_step lock s s"
| pass: "lock_pcs s i = Testing \<Longrightarrow> load32 (lock_mem s) lock = 0 \<Longrightarrow> spin_step lock s (move_pc i Setting s)"
| take: "lock_pcs s i = Setting \<Longrightarrow> spin_step lock s (move_pc i Holding (put_mem (store32 (lock_mem s) lock 1) s))"
| work: "lock_pcs s i = Holding \<Longrightarrow> load32 m lock = load32 (lock_mem s) lock \<Longrightarrow> spin_step lock s (put_mem m s)"
| leave: "lock_pcs s i = Holding
    \<Longrightarrow> spin_step lock s (move_pc i Outside (put_mem (spinlock_unlock lock (lock_mem s)) s))"

inductive_cases spin_stepE: "spin_step lock s t"

subsection \<open>The lock as one step\<close>

text \<open>For comparison, a lock that the source does not have: \<open>spinlock_lock\<close> as one uninterruptible step.\<close>

inductive atomic_step :: "addr \<Rightarrow> spin_state \<Rightarrow> spin_state \<Rightarrow> bool" for lock where
  enter: "lock_pcs s i = Outside \<Longrightarrow> spinlock_lock lock (lock_mem s) = Some m
    \<Longrightarrow> atomic_step lock s (move_pc i Holding (put_mem m s))"
| work: "lock_pcs s i = Holding \<Longrightarrow> load32 m lock = load32 (lock_mem s) lock \<Longrightarrow> atomic_step lock s (put_mem m s)"
| leave: "lock_pcs s i = Holding
    \<Longrightarrow> atomic_step lock s (move_pc i Outside (put_mem (spinlock_unlock lock (lock_mem s)) s))"

definition holders :: "spin_state \<Rightarrow> nat set" where
  "holders s = {i. lock_pcs s i = Holding}"

text \<open>All processors are outside and the lock is free.\<close>

definition spin_start :: "addr \<Rightarrow> spin_state \<Rightarrow> bool" where
  "spin_start lock s \<longleftrightarrow> load32 (lock_mem s) lock = 0 \<and> lock_pcs s = (\<lambda>_. Outside)"

text \<open>The lock is held by one processor or by none, and its cell says which.\<close>

definition lock_inv :: "addr \<Rightarrow> spin_state \<Rightarrow> bool" where
  "lock_inv lock s \<longleftrightarrow> (if load32 (lock_mem s) lock = 0 then holders s = {} else \<exists>i. holders s = {i})"

lemma holders_simps [simp]:
  "holders (put_mem m s) = holders s"
  "holders (move_pc i pc s) = (if pc = Holding then insert i (holders s) else holders s - {i})"
  by (auto simp: holders_def)

lemma holder_unique: "lock_inv lock s \<Longrightarrow> lock_pcs s i = Holding \<Longrightarrow> load32 (lock_mem s) lock \<noteq> 0 \<and> holders s = {i}"
proof -
  assume inv: "lock_inv lock s" and "lock_pcs s i = Holding"
  then have "i \<in> holders s"
    by (simp add: holders_def)
  with inv show ?thesis
    by (auto simp: lock_inv_def split: if_splits)
qed

lemma spinlock_lock_Some: "spinlock_lock lock m = Some m' \<Longrightarrow> load32 m lock = 0 \<and> m' = store32 m lock 1"
  by (simp add: spinlock_lock_def spinlock_wait_free split: if_splits)

lemma atomic_step_inv: "atomic_step lock s t \<Longrightarrow> lock_inv lock s \<Longrightarrow> lock_inv lock t"
proof (induction rule: atomic_step.induct)
  case (enter s i m)
  then show ?case
    using spinlock_lock_Some [OF enter(2)] by (simp add: lock_inv_def)
next
  case (work s i m)
  then show ?case
    by (simp add: lock_inv_def)
next
  case (leave s i)
  then show ?case
    using holder_unique [OF leave(2,1)] by (simp add: lock_inv_def spinlock_unlock_def)
qed

lemma atomic_reach_inv:
  assumes "(atomic_step lock)\<^sup>*\<^sup>* s t" "spin_start lock s"
  shows "lock_inv lock t"
  using assms(1)
proof (induction rule: rtranclp_induct)
  case base
  from assms(2) show ?case
    by (auto simp: spin_start_def lock_inv_def holders_def)
next
  case (step t u)
  then show ?case
    by (blast intro: atomic_step_inv)
qed

subsection \<open>A single processor\<close>

text \<open>While the other processors stay outside, the steps of one do what \<open>spinlock_lock\<close> does.\<close>

lemma spin_alone:
  assumes "lock_pcs s i = Outside" "spinlock_lock lock (lock_mem s) = Some m"
  shows "(spin_step lock)\<^sup>*\<^sup>* s (move_pc i Holding (put_mem m s))"
proof -
  from spinlock_lock_Some [OF assms(2)] have free: "load32 (lock_mem s) lock = 0" and m: "m = store32 (lock_mem s) lock 1"
    by blast+
  let ?t = "move_pc i Testing s" and ?u = "move_pc i Setting (move_pc i Testing s)"
  have "spin_step lock s ?t"
    using assms(1) by (rule spin_step.call)
  moreover have "spin_step lock ?t ?u"
    by (rule spin_step.pass) (simp_all add: free)
  moreover have "spin_step lock ?u (move_pc i Holding (put_mem (store32 (lock_mem ?u) lock 1) ?u))"
    by (rule spin_step.take) simp
  moreover have "move_pc i Holding (put_mem (store32 (lock_mem ?u) lock 1) ?u) = move_pc i Holding (put_mem m s)"
    by (simp add: m move_pc_def put_mem_def)
  ultimately show ?thesis
    by (metis (no_types) converse_rtranclp_into_rtranclp rtranclp.rtrancl_refl)
qed

text \<open>C37. What the comment at \<open>spinlock_lock\<close> says is missing. Run by one processor, the accesses of
  \<open>spinlock_lock\<close> have the effect of the function. Were the function one atomic step, then in every
  reachable state at most one processor would hold the lock and its cell would be 0 exactly when none
  does. But test and set are separate accesses, and from a free lock every two processors can both
  come to hold it.\<close>

theorem spinlock_race:
  assumes "spin_start lock s" "i \<noteq> j"
  shows "(\<exists>m. spinlock_lock lock (lock_mem s) = Some m \<and> (spin_step lock)\<^sup>*\<^sup>* s (move_pc i Holding (put_mem m s)))
    \<and> (\<forall>t. (atomic_step lock)\<^sup>*\<^sup>* s t \<longrightarrow> lock_inv lock t)
    \<and> (\<exists>t. (spin_step lock)\<^sup>*\<^sup>* s t \<and> holders t = {i, j})"
proof (intro conjI allI impI)
  from assms(1) have free: "load32 (lock_mem s) lock = 0" and out: "\<And>k. lock_pcs s k = Outside"
    by (simp_all add: spin_start_def)
  then have "spinlock_lock lock (lock_mem s) = Some (store32 (lock_mem s) lock 1)"
    by (simp add: spinlock_lock_def spinlock_wait_free)
  with spin_alone [OF out this] show "\<exists>m. spinlock_lock lock (lock_mem s) = Some m
      \<and> (spin_step lock)\<^sup>*\<^sup>* s (move_pc i Holding (put_mem m s))"
    by blast
  show "lock_inv lock t" if "(atomic_step lock)\<^sup>*\<^sup>* s t" for t
    using that assms(1) by (rule atomic_reach_inv)
  let ?called = "move_pc j Testing (move_pc i Testing s)"
  let ?passed = "move_pc j Setting (move_pc i Setting ?called)"
  let ?one = "move_pc i Holding (put_mem (store32 (lock_mem ?passed) lock 1) ?passed)"
  let ?two = "move_pc j Holding (put_mem (store32 (lock_mem ?one) lock 1) ?one)"
  have "spin_step lock s (move_pc i Testing s)" "spin_step lock (move_pc i Testing s) ?called"
    "spin_step lock ?called (move_pc i Setting ?called)" "spin_step lock (move_pc i Setting ?called) ?passed"
    "spin_step lock ?passed ?one" "spin_step lock ?one ?two"
    using out free assms(2) by (intro spin_step.intros; simp)+
  then have "(spin_step lock)\<^sup>*\<^sup>* s ?two"
    by (meson r_into_rtranclp rtranclp_trans)
  moreover have "holders ?two = {i, j}"
    using out by (auto simp: holders_def)
  ultimately show "\<exists>t. (spin_step lock)\<^sup>*\<^sup>* s t \<and> holders t = {i, j}"
    by blast
qed

theorem spinlock_race_witness:
  "\<exists>t. (spin_step 0x1000)\<^sup>*\<^sup>* \<lparr>lock_mem = \<lambda>_. 0, lock_pcs = \<lambda>_. Outside\<rparr> t \<and> holders t = {0, 1}"
proof -
  have "spin_start 0x1000 \<lparr>lock_mem = \<lambda>_. 0, lock_pcs = \<lambda>_. Outside\<rparr>"
    by (simp add: spin_start_def load32_def)
  from spinlock_race [OF this, of 0 1] show ?thesis
    by simp
qed

end
