(* ===== verification/Library_Props.thy ===== *)
theory Library_Props
  imports Klist
begin

text \<open>
  The properties of the two libraries that every other part of the kernel calls: the memory and
  string functions of kernel/src/string.c and the linked lists of include/kernel/list.h.
\<close>

subsection \<open>memcpy with overlapping regions\<close>

lemma memcpy_loop_snoc:
  "memcpy_loop m d s (Suc n) = (memcpy_loop m d s n)(d + of_nat n := memcpy_loop m d s n (s + of_nat n))"
proof (induction n arbitrary: m d s)
  case 0
  show ?case by simp
next
  case (Suc n)
  let ?m = "m(d := m s)"
  have "memcpy_loop m d s (Suc (Suc n)) = memcpy_loop ?m (d + 1) (s + 1) (Suc n)"
    by (rule memcpy_loop.simps(2))
  also have "\<dots> = (memcpy_loop ?m (d + 1) (s + 1) n)(d + 1 + of_nat n := memcpy_loop ?m (d + 1) (s + 1) n (s + 1 + of_nat n))"
    by (rule Suc.IH)
  also have "memcpy_loop ?m (d + 1) (s + 1) n = memcpy_loop m d s (Suc n)"
    by simp
  finally show ?case
    by (simp only: of_nat_Suc add.assoc)
qed

text \<open>The loop runs upwards: with the destination \<open>k\<close> bytes above the source, the bytes read from the
  \<open>k\<close>-th on are those written before, so the first \<open>k\<close> bytes of the source are repeated.\<close>

lemma memcpy_loop_overlap:
  assumes "i < n" "n \<le> 4294967296"
  shows "memcpy_loop m d s n (d + of_nat i) = m (s + of_nat (i mod unat (d - s)))"
  using assms
proof (induction n arbitrary: i)
  case (Suc n)
  let ?k = "unat (d - s)" and ?m = "memcpy_loop m d s n"
  have d: "d = s + of_nat ?k"
    by simp
  have less: "n < 4294967296" "?k < 4294967296"
    using Suc.prems(2) unat32_less by simp_all
  show ?case
  proof (cases "i = n")
    case False
    with Suc.prems have i: "i < n" by simp
    with less have "of_nat i \<noteq> (of_nat n :: addr)"
      by (metis less_trans unat_of_nat32 nat_neq_iff)
    with Suc.IH [OF i] less show ?thesis
      by (simp add: memcpy_loop_snoc del: memcpy_loop.simps)
  next
    case True
    have "?m (s + of_nat n) = m (s + of_nat (n mod ?k))"
    proof (cases "0 < ?k \<and> ?k \<le> n")
      case True
      then have "s + of_nat n = d + of_nat (n - ?k)" "n - ?k < n"
        by (simp_all add: of_nat_diff)
      moreover have "(n - ?k) mod ?k = n mod ?k"
        using True by (simp add: le_mod_geq)
      ultimately show ?thesis
        using Suc.IH [of "n - ?k"] less by simp
    next
      case False
      have "s + of_nat n \<notin> span d n"
      proof
        assume "s + of_nat n \<in> span d n"
        then obtain j where j: "j < n" "s + of_nat n = d + of_nat j"
          by (auto simp: span_def)
        then have "(of_nat n :: addr) = of_nat (?k + j)"
          by (simp add: algebra_simps)
        from arg_cong [OF this, of unat] have "n mod 4294967296 = (?k + j) mod 4294967296"
          by (simp only: unat_of_nat) simp
        with j(1) less False show False
          by (auto simp: mod_if split: if_splits)
      qed
      moreover have "n mod ?k = n"
        using False by auto
      ultimately show ?thesis
        by (simp add: memcpy_loop_other)
    qed
    with True show ?thesis
      by (simp add: memcpy_loop_snoc del: memcpy_loop.simps)
  qed
qed simp

lemma memcpy_overlap:
  "bytes_at (memcpy m d s n) d (unat n) = map (\<lambda>i. m (s + of_nat (i mod unat (d - s)))) [0..<unat n]"
  using unat32_less [of n] by (simp add: bytes_at_def memcpy_def memcpy_loop_overlap)

subsection \<open>C strings\<close>

lemma cstr_at_nth: "cstr_at m a cs \<Longrightarrow> m (a + of_nat i) \<noteq> 0" if "i < length cs"
  using that
proof (induction cs arbitrary: a i)
  case (Cons c cs)
  then show ?case
    by (cases i) (auto simp: add.assoc [symmetric])
qed simp

lemma cstr_at_end: "cstr_at m a cs \<Longrightarrow> m (a + of_nat (length cs)) = 0"
  by (induction cs arbitrary: a) (auto simp: add.assoc [symmetric])

text \<open>A string that filled the whole memory would have no place for its final 0.\<close>

lemma cstr_at_length:
  assumes "cstr_at m a cs"
  shows "length cs < 4294967296"
proof (rule ccontr)
  assume "\<not> ?thesis"
  then have len: "length cs - 4294967296 < length cs" "4294967296 \<le> length cs"
    by simp_all
  have "(of_nat (length cs - 4294967296) :: addr) = of_nat (length cs)"
    using len(2) by (simp add: of_nat_diff)
  with cstr_at_nth [OF len(1) assms] cstr_at_end [OF assms] show False
    by simp
qed

lemma strlen_loop_Some:
  assumes "strlen_loop m a k = Some r"
  shows "\<exists>cs. cstr_at m a cs \<and> r = k + of_nat (length cs)"
proof (rule strlen_loop.raw_induct [where P = "\<lambda>m a k r. \<exists>cs. cstr_at m a cs \<and> r = k + of_nat (length cs)", rotated, OF assms])
  fix rec :: "mem \<Rightarrow> addr \<Rightarrow> u32 \<Rightarrow> u32 option" and m a k r
  assume rec: "\<And>m a k r. rec m a k = Some r \<Longrightarrow> \<exists>cs. cstr_at m a cs \<and> r = k + of_nat (length cs)"
    and r: "(if m a = 0 then Some k else rec m (a + 1) (k + 1)) = Some r"
  show "\<exists>cs. cstr_at m a cs \<and> r = k + of_nat (length cs)"
  proof (cases "m a = 0")
    case True
    with r show ?thesis
      by (intro exI [of _ "[]"]) simp
  next
    case False
    with r rec obtain cs where "cstr_at m (a + 1) cs" "r = k + 1 + of_nat (length cs)"
      by fastforce
    with False show ?thesis
      by (intro exI [of _ "m a # cs"]) simp
  qed
qed

lemma strcpy_string:
  assumes "cstr_at m a cs" "span d (Suc (length cs)) \<inter> span a (Suc (length cs)) = {}"
  obtains m' where "strcpy m d a = Some m'" "cstr_at m' d cs" "cstr_at m' a cs"
    "{x. m' x \<noteq> m x} \<subseteq> span d (Suc (length cs))"
proof -
  let ?m = "write_bytes m d (cs @ [0])"
  have out: "?m x = m x" if "x \<notin> span d (Suc (length cs))" for x
    using that by (intro write_bytes_other) simp
  have "cstr_at ?m a cs"
    using assms(1) by (subst cstr_at_span [of _ _ _ m]) (use out assms(2) in blast)+
  with out that [OF strcpy_cstr [OF assms]] cstr_at_write_bytes [OF cstr_at_nonzero [OF assms(1)] cstr_at_length [OF assms(1)], of m d]
  show thesis by blast
qed

text \<open>C17. The functions of string.c. \<open>memcpy\<close> copies upwards byte by byte for every two regions, also
  overlapping and wrapped ones: a source that begins \<open>k\<close> bytes before the destination leaves there
  its first \<open>k\<close> bytes over and over, every other source arrives as it was; \<open>memset\<close> fills the
  region with the low byte of its argument; neither touches a byte outside the region. \<open>strlen\<close>
  returns exactly where there is a string, and then its length, which never wraps. \<open>strcpy\<close> to a
  region apart from the string returns with a copy there and nothing else changed.\<close>

theorem string_library_correct:
  assumes "cstr_at m a cs" "span d (Suc (length cs)) \<inter> span a (Suc (length cs)) = {}"
  shows "bytes_at (memcpy m0 p q n) p (unat n) = map (\<lambda>i. m0 (q + of_nat (i mod unat (p - q)))) [0..<unat n]
    \<and> bytes_at (memset m0 p c n) p (unat n) = replicate (unat n) (ucast c)
    \<and> {x. memcpy m0 p q n x \<noteq> m0 x} \<union> {x. memset m0 p c n x \<noteq> m0 x} \<subseteq> span p (unat n)
    \<and> (strlen m0 p = Some k \<longleftrightarrow> (\<exists>ds. cstr_at m0 p ds \<and> unat k = length ds))
    \<and> (\<exists>m'. strcpy m d a = Some m' \<and> cstr_at m' d cs \<and> cstr_at m' a cs \<and> {x. m' x \<noteq> m x} \<subseteq> span d (Suc (length cs)))"
proof (intro conjI)
  show "{x. memcpy m0 p q n x \<noteq> m0 x} \<union> {x. memset m0 p c n x \<noteq> m0 x} \<subseteq> span p (unat n)"
    using memcpy_other [of _ p n m0 q] memset_other [of _ p n m0 c] by blast
  have "unat k = length ds \<longleftrightarrow> k = of_nat (length ds)" if "cstr_at m0 p ds" for ds
    using cstr_at_length [OF that] by (simp add: word_eq_iff_unsigned [where ?'a = nat])
  then show "strlen m0 p = Some k \<longleftrightarrow> (\<exists>ds. cstr_at m0 p ds \<and> unat k = length ds)"
    using strlen_cstr [of m0 p] strlen_loop_Some [of m0 p 0 k] by (auto simp: strlen_def)
  show "\<exists>m'. strcpy m d a = Some m' \<and> cstr_at m' d cs \<and> cstr_at m' a cs \<and> {x. m' x \<noteq> m x} \<subseteq> span d (Suc (length cs))"
    by (rule strcpy_string [OF assms]) blast
qed (rule memcpy_overlap bytes_at_memset)+

text \<open>The string "ab" at 0x100; a copy of five bytes to two bytes further repeats it.\<close>

definition two_letters :: mem where
  "two_letters = (\<lambda>_. 0)(0x100 := 97, 0x101 := 98)"

theorem string_library_correct_witness:
  "cstr_at two_letters 0x100 [97, 98] \<and> bytes_at (memcpy two_letters 0x102 0x100 5) 0x102 5 = [97, 98, 97, 98, 97]
    \<and> (\<exists>m'. strcpy two_letters 0x200 0x100 = Some m' \<and> cstr_at m' 0x200 [97, 98])"
proof -
  have cs: "cstr_at two_letters 0x100 [97, 98]"
    by (simp add: two_letters_def)
  have "span (0x200 :: addr) 3 \<inter> span 0x100 3 = {}"
    by (rule span_disjoint) simp_all
  then have "span (0x200 :: addr) (Suc (length [97, 98 :: u8])) \<inter> span 0x100 (Suc (length [97, 98 :: u8])) = {}"
    by (simp add: numeral_3_eq_3)
  from string_library_correct [OF cs this, of two_letters "0x102" "0x100" 5]
  have "bytes_at (memcpy two_letters 0x102 0x100 5) 0x102 5 = map (\<lambda>i. two_letters (0x100 + of_nat (i mod 2))) [0..<5]"
    "\<exists>m'. strcpy two_letters 0x200 0x100 = Some m' \<and> cstr_at m' 0x200 [97, 98]"
    by (simp_all del: cstr_at.simps) blast
  moreover have "[0..<5 :: nat] = [0, 1, 2, 3, 4]"
    by (simp add: upt_rec)
  ultimately show ?thesis
    using cs by (simp add: two_letters_def)
qed

subsection \<open>Sequences of list operations\<close>

datatype list_op = Add_Tail addr | Del addr

text \<open>What a sequence of calls does to memory and what it does to the list it stands for.\<close>

fun list_op_run :: "addr \<Rightarrow> list_op \<Rightarrow> mem \<Rightarrow> mem" where
  "list_op_run h (Add_Tail p) m = list_add_tail m p h"
| "list_op_run h (Del p) m = list_del m p"

fun list_op_abs :: "list_op \<Rightarrow> addr list \<Rightarrow> addr list" where
  "list_op_abs (Add_Tail p) ps = ps @ [p]"
| "list_op_abs (Del p) ps = remove1 p ps"

fun list_op_adds :: "list_op \<Rightarrow> addr list" where
  "list_op_adds (Add_Tail p) = [p]"
| "list_op_adds (Del p) = []"

text \<open>A node is added when it overlaps neither the head nor a node of the list, and deleted when it
  is in the list.\<close>

fun list_op_ok :: "addr \<Rightarrow> list_op \<Rightarrow> addr list \<Rightarrow> bool" where
  "list_op_ok h (Add_Tail p) ps = list_all (apart p) (h # ps)"
| "list_op_ok h (Del p) ps = (p \<in> set ps)"

fun list_ops_ok :: "addr \<Rightarrow> list_op list \<Rightarrow> addr list \<Rightarrow> bool" where
  "list_ops_ok h [] ps = True"
| "list_ops_ok h (x # xs) ps = (list_op_ok h x ps \<and> list_ops_ok h xs (list_op_abs x ps))"

lemma list_op_step:
  assumes "ring m h ps" "list_op_ok h x ps"
  shows "ring (list_op_run h x m) h (list_op_abs x ps)"
    "y \<notin> cells (h # ps @ list_op_adds x) \<Longrightarrow> list_op_run h x m y = m y"
    "cells (list_op_abs x ps) \<subseteq> cells (ps @ list_op_adds x)"
proof -
  show "cells (list_op_abs x ps) \<subseteq> cells (ps @ list_op_adds x)"
    by (cases x) (use set_remove1_subset in \<open>fastforce simp: cells_def\<close>)+
  show "ring (list_op_run h x m) h (list_op_abs x ps)"
  proof (cases x)
    case (Add_Tail p)
    with assms show ?thesis
      by (auto simp: list_all_iff intro!: ring_list_add_tail)
  next
    case (Del p)
    with assms(2) obtain xs ys where ps: "ps = xs @ p # ys" "p \<notin> set xs"
      by (auto dest: split_list_first)
    with assms(1) Del show ?thesis
      by (simp add: remove1_append ring_list_del)
  qed
  show "list_op_run h x m y = m y" if y: "y \<notin> cells (h # ps @ list_op_adds x)"
  proof (cases x)
    case (Add_Tail p)
    with assms(1) y show ?thesis
      by (auto intro: list_add_tail_other)
  next
    case (Del p)
    with assms(2) obtain xs ys where "ps = xs @ p # ys"
      by (auto dest: split_list)
    with assms(1) Del y show ?thesis
      by (auto intro: list_del_other)
  qed
qed

lemma list_ops_run:
  assumes "ring m h ps" "list_ops_ok h xs ps"
  shows "ring (fold (list_op_run h) xs m) h (fold list_op_abs xs ps)
    \<and> {y. fold (list_op_run h) xs m y \<noteq> m y} \<subseteq> cells (h # ps @ concat (map list_op_adds xs))"
  using assms
proof (induction xs arbitrary: m ps)
  case Nil
  then show ?case by simp
next
  case (Cons x xs)
  then have ok: "list_op_ok h x ps" by simp
  note step = list_op_step [OF Cons.prems(1) ok]
  let ?m = "list_op_run h x m" and ?ps = "list_op_abs x ps" and ?adds = "concat (map list_op_adds xs)"
  have ih: "ring (fold (list_op_run h) xs ?m) h (fold list_op_abs xs ?ps)"
    "{y. fold (list_op_run h) xs ?m y \<noteq> ?m y} \<subseteq> cells (h # ?ps @ ?adds)"
    using Cons.IH [OF step(1)] Cons.prems(2) by simp_all
  have "fold (list_op_run h) xs ?m y = m y" if y: "y \<notin> cells (h # ps @ list_op_adds x @ ?adds)" for y
  proof -
    have "y \<notin> cells (h # ?ps @ ?adds)" "y \<notin> cells (h # ps @ list_op_adds x)"
      using y step(3) by auto
    moreover have "fold (list_op_run h) xs ?m y = ?m y" if "y \<notin> cells (h # ?ps @ ?adds)"
      using ih(2) that by (simp only: subset_iff mem_Collect_eq) blast
    ultimately show ?thesis
      by (simp only: step(2) not_False_eq_True)
  qed
  with ih(1) show ?case
    by auto
qed

text \<open>C16. The list operations refine lists: after any sequence of \<open>list_add_tail\<close> of nodes that overlap
  nothing in the list and \<open>list_del\<close> of nodes in it, a walk with \<open>list_for_each\<close> returns and visits
  exactly the nodes that the same sequence of appending and removing leaves, in that order;
  \<open>list_empty\<close> tells whether there are none; memory outside the head and the nodes is unchanged,
  so a second list in it keeps its nodes.\<close>

theorem list_ops_refine:
  assumes "ring m h ps" "list_ops_ok h xs ps" "ring m k qs"
    "cells (k # qs) \<inter> cells (h # ps @ concat (map list_op_adds xs)) = {}"
  defines "m' \<equiv> fold (list_op_run h) xs m" and "rs \<equiv> fold list_op_abs xs ps"
  shows "list_for_each m' (lnext m' h) h = Some rs \<and> (list_empty m' h \<longleftrightarrow> rs = []) \<and> ring m' h rs
    \<and> {y. m' y \<noteq> m y} \<subseteq> cells (h # ps @ concat (map list_op_adds xs))
    \<and> list_for_each m' (lnext m' k) k = Some qs"
proof -
  have r: "ring m' h rs" "{y. m' y \<noteq> m y} \<subseteq> cells (h # ps @ concat (map list_op_adds xs))"
    using list_ops_run [OF assms(1,2)] by (simp_all add: m'_def rs_def)
  have "ring m' k qs"
    using assms(3) by (rule ring_frame) (use r(2) assms(4) in blast)
  with r show ?thesis
    by (simp add: ring_for_each ring_empty)
qed

text \<open>Two lists; three nodes are added to the first and the second of them deleted.\<close>

definition two_lists :: mem where
  "two_lists = INIT_LIST_HEAD (INIT_LIST_HEAD (\<lambda>_. 0) 0x1000) 0x5000"

definition three_adds :: "list_op list" where
  "three_adds = [Add_Tail 0x2000, Add_Tail 0x3000, Add_Tail 0x4000, Del 0x3000]"

theorem list_ops_refine_witness:
  "let m = fold (list_op_run 0x1000) three_adds two_lists
   in list_for_each m (lnext m 0x1000) 0x1000 = Some [0x2000, 0x4000] \<and> list_for_each m (lnext m 0x5000) 0x5000 = Some []"
proof -
  have ap: "cell p \<inter> cell q = {}" if "8 \<le> unat (q - p)" "8 \<le> unat (p - q)" for p q
    using that unfolding cell_def by (rule span_disjoint)
  have "ring (INIT_LIST_HEAD (\<lambda>_. 0) 0x1000) 0x1000 []"
    by (rule ring_INIT_LIST_HEAD)
  then have "ring two_lists 0x1000 []"
    unfolding two_lists_def by (rule ring_frame) (use ap [of "0x1000" "0x5000"] in \<open>auto intro!: kq.init_frame\<close>)
  moreover have "list_ops_ok 0x1000 three_adds []"
    by (simp add: three_adds_def apart_def ap)
  moreover have "ring two_lists 0x5000 []"
    unfolding two_lists_def by (rule ring_INIT_LIST_HEAD)
  moreover have "cells [0x5000] \<inter> cells (0x1000 # [] @ concat (map list_op_adds three_adds)) = {}"
    by (simp add: three_adds_def Int_Un_distrib ap)
  ultimately show ?thesis
    using list_ops_refine [of two_lists "0x1000" "[]" three_adds "0x5000" "[]"] by (simp add: Let_def) (simp add: three_adds_def)
qed

end
