(* ===== verification/Os_Builder.thy ===== *)
theory Os_Builder
  imports Prelude
begin

text \<open>
  tools/os-builder.c, the program that packs module files into the initial ram disk, a CPIO archive
  in the format "070701". The file system of the build host is the parameter \<open>files\<close>; the strings
  of the host are lists of bytes without the final 0. What the program prints is the list of its
  messages.
\<close>

subsection \<open>Numbers and strings of the host\<close>

text \<open>\<open>%08lo\<close>: octal digits, at least eight of them.\<close>

fun octal_digits :: "nat \<Rightarrow> nat list" where
  "octal_digits n = (if n < 8 then [n] else octal_digits (n div 8) @ [n mod 8])"

declare octal_digits.simps [simp del]

definition fmt_08lo :: "nat \<Rightarrow> u8 list" where
  "fmt_08lo n = map (\<lambda>d. 0x30 + of_nat d) (replicate (8 - length (octal_digits n)) 0 @ octal_digits n)"

text \<open>\<open>strtok\<close> with the delimiter comma: the non-empty pieces.\<close>

fun tokens :: "u8 list \<Rightarrow> u8 list \<Rightarrow> u8 list list" where
  "tokens cur [] = (if cur = [] then [] else [cur])"
| "tokens cur (c # cs) =
     (if c = 0x2C then (if cur = [] then tokens [] cs else cur # tokens [] cs) else tokens (cur @ [c]) cs)"

subsection \<open>The archive\<close>

record cpio_header =
  c_magic :: "u8 list"
  c_ino :: "u8 list"
  c_mode :: "u8 list"
  c_uid :: "u8 list"
  c_gid :: "u8 list"
  c_nlink :: "u8 list"
  c_mtime :: "u8 list"
  c_filesize :: "u8 list"
  c_devmajor :: "u8 list"
  c_devminor :: "u8 list"
  c_rdevmajor :: "u8 list"
  c_rdevminor :: "u8 list"
  c_namesize :: "u8 list"
  c_check :: "u8 list"

definition header_bytes :: "cpio_header \<Rightarrow> u8 list" where
  "header_bytes h = c_magic h @ c_ino h @ c_mode h @ c_uid h @ c_gid h @ c_nlink h @ c_mtime h @ c_filesize h
     @ c_devmajor h @ c_devminor h @ c_rdevmajor h @ c_rdevminor h @ c_namesize h @ c_check h"

text \<open>The header after \<open>memset\<close> and the copy of the magic number (its final 0 falls into \<open>c_ino\<close>).\<close>

definition blank_header :: cpio_header where
  "blank_header = (let z = replicate 8 0 in
     \<lparr>c_magic = ascii ''070701'', c_ino = z, c_mode = z, c_uid = z, c_gid = z, c_nlink = z, c_mtime = z, c_filesize = z,
      c_devmajor = z, c_devminor = z, c_rdevmajor = z, c_rdevminor = z, c_namesize = z, c_check = z\<rparr>)"

definition format_cpio_field :: "nat \<Rightarrow> (nat \<Rightarrow> u8 list) \<Rightarrow> nat \<Rightarrow> u8 list" where
  "format_cpio_field field_size fmt val =
     (let tmp = take 8 (fmt val)
      in take (field_size - 1) (tmp @ replicate (field_size - 1) 0) @ [0])"

abbreviation field :: "nat \<Rightarrow> u8 list" where "field \<equiv> format_cpio_field 8 fmt_08lo"

definition file_header :: "nat \<Rightarrow> nat \<Rightarrow> cpio_header" where
  "file_header size_of_file namesize = blank_header
     \<lparr>c_mode := field 33188, c_uid := field 0, c_gid := field 0, c_nlink := field 1, c_mtime := field 0,
      c_filesize := field size_of_file, c_devmajor := field 0, c_devminor := field 0, c_rdevmajor := field 0,
      c_rdevminor := field 0, c_namesize := field namesize, c_check := field 0\<rparr>"

definition sizeof_cpio_header :: nat where "sizeof_cpio_header = 110"

text \<open>\<open>(4 - n % 4) % 4\<close> zero bytes.\<close>

definition padding :: "nat \<Rightarrow> u8 list" where
  "padding n = replicate ((4 - n mod 4) mod 4) 0"

datatype file_result = Cannot_stat | Cannot_open | Cannot_read | File_data "u8 list"

record builder =
  archive :: "u8 list"
  messages :: "u8 list list"

definition add_file_to_cpio :: "(u8 list \<Rightarrow> file_result) \<Rightarrow> u8 list \<Rightarrow> u8 list \<Rightarrow> builder \<Rightarrow> builder" where
  "add_file_to_cpio files filename dest_path b =
     (case files filename of
        Cannot_stat \<Rightarrow> b\<lparr>messages := messages b @ [ascii ''Error: Cannot stat file '' @ filename]\<rparr>
      | Cannot_open \<Rightarrow> b\<lparr>messages := messages b @ [ascii ''Error: Cannot open file '' @ filename]\<rparr>
      | Cannot_read \<Rightarrow> b\<lparr>messages := messages b @ [ascii ''Error: Failed to read file '' @ filename]\<rparr>
      | File_data bytes \<Rightarrow> b\<lparr>archive := archive b
          @ header_bytes (file_header (length bytes) (length dest_path + 1))
          @ dest_path @ [0]
          @ padding (sizeof_cpio_header + length dest_path + 1)
          @ bytes
          @ padding (length bytes)\<rparr>)"

text \<open>The object file of a module, and \<open>snprintf\<close> into a buffer of 256 bytes.\<close>

definition module_file :: "u8 list \<Rightarrow> u8 list" where
  "module_file token = take 255
     (if token = ascii ''timer'' then ascii ''build/modules/drivers/core/timer/timer.o''
      else if token = ascii ''keyboard'' then ascii ''build/modules/drivers/core/keyboard/keyboard.o''
      else if token = ascii ''vga'' then ascii ''build/modules/drivers/core/vga/vga.o''
      else if token = ascii ''terminal'' then ascii ''build/modules/sys/terminal/terminal.o''
      else ascii ''build/modules/'' @ token @ ascii ''.o'')"

definition add_module :: "(u8 list \<Rightarrow> file_result) \<Rightarrow> u8 list \<Rightarrow> builder \<Rightarrow> builder" where
  "add_module files token = add_file_to_cpio files (module_file token) (take 255 (token @ ascii ''.o''))"

definition trailer :: "u8 list" where
  "trailer = header_bytes (blank_header\<lparr>c_namesize := field 11, c_filesize := field 0\<rparr>)
     @ ascii ''TRAILER!!!'' @ [0] @ padding (sizeof_cpio_header + 11)"

text \<open>The arguments: the last \<open>--output-initrd=\<close> and the last \<open>--add=\<close> count.\<close>

fun strip_prefix :: "u8 list \<Rightarrow> u8 list \<Rightarrow> u8 list option" where
  "strip_prefix [] xs = Some xs"
| "strip_prefix (p # ps) [] = None"
| "strip_prefix (p # ps) (x # xs) = (if p = x then strip_prefix ps xs else None)"

fun parse_args :: "u8 list list \<Rightarrow> u8 list option \<times> u8 list option \<Rightarrow> u8 list option \<times> u8 list option" where
  "parse_args [] r = r"
| "parse_args (a # as) (out, mods) =
     (case strip_prefix (ascii ''--output-initrd='') a of
        Some f \<Rightarrow> parse_args as (Some f, mods)
      | None \<Rightarrow> (case strip_prefix (ascii ''--add='') a of
          Some m \<Rightarrow> parse_args as (out, Some m)
        | None \<Rightarrow> parse_args as (out, mods)))"

text \<open>\<open>main\<close>, with \<open>argv\<close> (its first element is the name of the program): the exit code, the file
  it wrote, if any, and what it printed.\<close>

definition os_builder_main :: "(u8 list \<Rightarrow> file_result) \<Rightarrow> (u8 list \<Rightarrow> bool) \<Rightarrow> u8 list list
    \<Rightarrow> int \<times> (u8 list \<times> u8 list) option \<times> u8 list list" where
  "os_builder_main files can_create argv =
     (if length argv < 2
      then (1, None, [ascii ''Usage: '' @ hd argv @ ascii '' --output-initrd=filename [--add=module1,module2,...]''])
      else case parse_args (tl argv) (None, None) of
        (None, mods) \<Rightarrow> (1, None, [ascii ''Error: Output filename not specified''])
      | (Some out, mods) \<Rightarrow>
          if \<not> can_create out then (1, None, [ascii ''Error: Cannot create output file '' @ out])
          else
            let b = \<lparr>archive = [], messages = []\<rparr>;
                b = (case mods of None \<Rightarrow> b | Some m \<Rightarrow> fold (add_module files) (tokens [] m) b)
            in (0, Some (out, archive b @ trailer), messages b @ [ascii ''Created initrd: '' @ out]))"

subsection \<open>Octal numbers\<close>

definition octal_value :: "u8 list \<Rightarrow> nat" where
  "octal_value cs = foldl (\<lambda>a c. 8 * a + unat (c - 0x30)) 0 cs"

definition digits_value :: "nat list \<Rightarrow> nat" where
  "digits_value ds = foldl (\<lambda>a d. 8 * a + d) 0 ds"

lemma digits_value_simps [simp]: "digits_value [] = 0" "digits_value (ds @ [d]) = 8 * digits_value ds + d"
  by (simp_all add: digits_value_def)

lemma digits_value_zeros [simp]: "digits_value (replicate k 0 @ ds) = digits_value ds"
  unfolding digits_value_def by (induction k) simp_all

lemma octal_digits_value: "digits_value (octal_digits n) = n"
proof (induction n rule: octal_digits.induct)
  case (1 n)
  then show ?case
    by (subst octal_digits.simps) (simp add: digits_value_def)
qed

lemma octal_digits_small: "d \<in> set (octal_digits n) \<Longrightarrow> d < 8"
proof (induction n rule: octal_digits.induct)
  case (1 n)
  then show ?case
    by (subst (asm) octal_digits.simps) (auto split: if_splits)
qed

lemma octal_digits_length: "n < 8 ^ Suc k \<Longrightarrow> length (octal_digits n) \<le> Suc k"
proof (induction k arbitrary: n)
  case 0
  then show ?case by (subst octal_digits.simps) simp
next
  case (Suc k)
  then have "n div 8 < 8 ^ Suc k"
    by (simp add: less_mult_imp_div_less)
  from Suc.IH [OF this] show ?case
    by (subst octal_digits.simps) simp
qed

lemma foldl_octal_characters:
  assumes "\<And>d. d \<in> set ds \<Longrightarrow> d < 8"
  shows "foldl (\<lambda>a c. 8 * a + unat (c - 0x30)) x (map (\<lambda>d. 0x30 + of_nat d :: u8) ds)
    = foldl (\<lambda>a d. 8 * a + d) x ds"
  using assms
proof (induction ds arbitrary: x)
  case Nil
  show ?case by simp
next
  case (Cons d ds)
  have "unat (of_nat d :: u8) = d"
    using Cons.prems [of d] by (simp add: unat_of_nat)
  moreover have "foldl (\<lambda>a c. 8 * a + unat (c - 0x30)) (8 * x + d) (map (\<lambda>d. 0x30 + of_nat d :: u8) ds)
      = foldl (\<lambda>a d. 8 * a + d) (8 * x + d) ds"
    using Cons.prems by (intro Cons.IH) simp
  ultimately show ?case
    by (simp only: list.map foldl_Cons add_diff_cancel_left')
qed

lemma octal_value_digits:
  assumes "\<And>d. d \<in> set ds \<Longrightarrow> d < 8"
  shows "octal_value (map (\<lambda>d. 0x30 + of_nat d) ds) = digits_value ds"
  unfolding octal_value_def digits_value_def by (rule foldl_octal_characters, rule assms)

lemma digits_value_butlast:
  assumes "ds \<noteq> []" "last ds < 8"
  shows "digits_value (butlast ds) = digits_value ds div 8"
proof -
  have "digits_value ds = 8 * digits_value (butlast ds) + last ds"
    using assms(1) digits_value_simps(2) [of "butlast ds" "last ds"] by simp
  with assms(2) show ?thesis by simp
qed

lemma length_field [simp]: "length (field n) = 8"
  by (simp add: format_cpio_field_def Let_def)

lemma format_cpio_field_eight:
  assumes "length (fmt n) = 8"
  shows "format_cpio_field 8 fmt n = take 7 (fmt n) @ [0]" "format_cpio_field 8 fmt n ! 7 = 0"
proof -
  show f: "format_cpio_field 8 fmt n = take 7 (fmt n) @ [0]"
    using assms by (simp add: format_cpio_field_def Let_def)
  have "length (take 7 (fmt n)) = 7" using assms by simp
  then show "format_cpio_field 8 fmt n ! 7 = 0"
    unfolding f by (metis nth_append_length)
qed

subsection \<open>The properties of the builder\<close>

text \<open>\<open>format_cpio_field\<close> loses the last digit of every number: the seven characters before the
  final 0 of a field are octal digits of the value divided by 8. (The format asks for eight hexadecimal
  digits.) A file of \<open>n\<close> bytes is thus recorded with \<open>n div 8\<close>, and a name of less than eight
  bytes with size 0.\<close>

theorem cpio_field_loses_digit:
  assumes "n < 8 ^ 8"
  shows "octal_value (take 7 (format_cpio_field 8 fmt_08lo n)) = n div 8
    \<and> length (format_cpio_field 8 fmt_08lo n) = 8 \<and> format_cpio_field 8 fmt_08lo n ! 7 = 0"
proof -
  let ?ds = "replicate (8 - length (octal_digits n)) 0 @ octal_digits n"
  have len: "length (octal_digits n) \<le> 8"
    using octal_digits_length [of n 7] assms by simp
  then have l8: "length ?ds = 8" by simp
  then have l: "length (fmt_08lo n) = 8"
    by (simp only: fmt_08lo_def length_map)
  have ne: "octal_digits n \<noteq> []"
    by (subst octal_digits.simps) simp
  have small: "d < 8" if "d \<in> set ?ds" for d
    using that octal_digits_small by auto
  have "take 7 (field n) = map (\<lambda>d. 0x30 + of_nat d) (butlast ?ds)"
  proof -
    have "(8::nat) - 1 = 7" by simp
    then have "take 7 ?ds = butlast ?ds"
      by (simp only: butlast_conv_take l8)
    moreover have "take 7 (field n) = take 7 (fmt_08lo n)"
      by (simp add: format_cpio_field_eight(1) [of fmt_08lo, OF l] l)
    ultimately show ?thesis
      by (simp only: fmt_08lo_def take_map)
  qed
  moreover have "octal_value (map (\<lambda>d. 0x30 + of_nat d) (butlast ?ds)) = digits_value (butlast ?ds)"
    using small by (intro octal_value_digits) (auto dest: in_set_butlastD)
  moreover have "digits_value (butlast ?ds) = digits_value ?ds div 8"
    using ne small [of "last ?ds"] by (intro digits_value_butlast) simp_all
  ultimately have "octal_value (take 7 (field n)) = n div 8"
    by (simp only: digits_value_zeros octal_digits_value)
  then show ?thesis
    using format_cpio_field_eight(2) [of fmt_08lo, OF l] by (simp only: length_field)
qed

theorem cpio_field_loses_digit_witness: "octal_value (take 7 (format_cpio_field 8 fmt_08lo 1000)) = 125"
  using cpio_field_loses_digit [of 1000] by simp

subsection \<open>Alignment\<close>

lemma length_header: "length (header_bytes (file_header n k)) = 110" "length trailer mod 4 = 0"
  by (simp_all add: header_bytes_def file_header_def blank_header_def ascii_def Let_def trailer_def padding_def sizeof_cpio_header_def)

lemma padded: "(n + length (padding n)) mod 4 = 0"
proof -
  have "n mod 4 = 0 \<or> n mod 4 = 1 \<or> n mod 4 = 2 \<or> n mod 4 = 3" by presburger
  then show ?thesis
    by (auto simp: padding_def mod_add_left_eq [of n 4, symmetric])
qed

lemma add_file_aligned:
  assumes "4 dvd length (archive b)"
  shows "4 dvd length (archive (add_file_to_cpio files f p b))"
proof (cases "files f")
  case (File_data bytes)
  let ?n = "sizeof_cpio_header + length p + 1"
  have "length (archive (add_file_to_cpio files f p b)) = length (archive b) + (?n + length (padding ?n))
      + (length bytes + length (padding (length bytes)))"
    by (simp add: add_file_to_cpio_def File_data length_header(1) sizeof_cpio_header_def)
  moreover have "4 dvd ?n + length (padding ?n)" "4 dvd length bytes + length (padding (length bytes))"
    using padded by (simp_all only: dvd_eq_mod_eq_0)
  ultimately show ?thesis
    using assms by (simp only: dvd_add)
qed (use assms in \<open>simp_all add: add_file_to_cpio_def\<close>)

lemma add_modules_aligned: "4 dvd length (archive b) \<Longrightarrow> 4 dvd length (archive (fold (add_module files) ts b))"
  by (induction ts arbitrary: b) (simp_all add: add_module_def add_file_aligned)

text \<open>The length of every archive the builder writes is a multiple of four, whatever the arguments
  and the files are, so its parts stay aligned: a file that cannot be read leaves no partial entry.\<close>

theorem os_builder_aligned:
  assumes "os_builder_main files can_create argv = (code, Some (out, bytes), printed)"
  shows "code = 0 \<and> can_create out \<and> 4 dvd length bytes"
proof -
  have "4 dvd length (archive (fold (add_module files) ts \<lparr>archive = [], messages = []\<rparr>))" for ts
    by (rule add_modules_aligned) simp
  then show ?thesis
    using assms length_header(2)
    by (auto simp: os_builder_main_def Let_def dvd_eq_mod_eq_0 mod_add_eq [symmetric] split: prod.splits option.splits if_splits)
qed

theorem os_builder_aligned_witness:
  "\<exists>bytes printed. os_builder_main (\<lambda>_. File_data [1, 2, 3]) (\<lambda>_. True) [ascii ''os-builder'', ascii ''--output-initrd=a'', ascii ''--add=vga'']
     = (0, Some (ascii ''a'', bytes), printed) \<and> 4 dvd length bytes"
proof -
  obtain bytes printed where "os_builder_main (\<lambda>_. File_data [1, 2, 3]) (\<lambda>_. True) [ascii ''os-builder'', ascii ''--output-initrd=a'', ascii ''--add=vga'']
     = (0, Some (ascii ''a'', bytes), printed)"
    by (simp add: os_builder_main_def ascii_def Let_def)
  with os_builder_aligned [OF this] show ?thesis by blast
qed

subsection \<open>The contents of the archive\<close>

text \<open>The entry of a module whose file can be read, as it stands in the archive.\<close>

definition module_entry :: "(u8 list \<Rightarrow> file_result) \<Rightarrow> u8 list \<Rightarrow> u8 list" where
  "module_entry files token =
     (let name = take 255 (token @ ascii ''.o'') in
      case files (module_file token) of
        File_data bytes \<Rightarrow> header_bytes (file_header (length bytes) (length name + 1)) @ name @ [0]
          @ padding (sizeof_cpio_header + length name + 1) @ bytes @ padding (length bytes)
      | _ \<Rightarrow> [])"

lemma add_modules_archive:
  "archive (fold (add_module files) ts b) = archive b @ concat (map (module_entry files) ts)"
proof (induction ts arbitrary: b)
  case (Cons t ts)
  have "archive (add_module files t b) = archive b @ module_entry files t"
    by (cases "files (module_file t)") (simp_all add: add_module_def add_file_to_cpio_def module_entry_def Let_def)
  with Cons show ?case by simp
qed simp

lemma add_modules_messages:
  assumes "\<And>f. (\<exists>d. files f = File_data d) \<longleftrightarrow> (\<exists>d. files' f = File_data d)" "\<And>f. (\<nexists>d. files f = File_data d) \<Longrightarrow> files' f = files f"
  shows "messages b' = messages b
    \<Longrightarrow> messages (fold (add_module files') ts b') = messages (fold (add_module files) ts b)"
proof (induction ts arbitrary: b b')
  case (Cons t ts)
  have "messages (add_module files' t b') = messages (add_module files t b)"
  proof (cases "\<exists>d. files (module_file t) = File_data d")
    case True
    then obtain d d' where "files (module_file t) = File_data d" "files' (module_file t) = File_data d'"
      using assms(1) by blast
    with Cons.prems show ?thesis
      by (simp add: add_module_def add_file_to_cpio_def)
  next
    case False
    with Cons.prems assms(2) [OF False] show ?thesis
      by (cases "files (module_file t)") (auto simp: add_module_def add_file_to_cpio_def)
  qed
  then show ?case
    using Cons.IH by simp
qed simp

text \<open>The field of a number depends on the number without its last octal digit.\<close>

lemma fmt_08lo_prefix:
  assumes "n < 8 ^ 8"
  shows "take 7 (fmt_08lo n) = map (\<lambda>d. 0x30 + of_nat d) (if n < 8 then replicate 7 0
     else replicate (7 - length (octal_digits (n div 8))) 0 @ octal_digits (n div 8))" "length (fmt_08lo n) = 8"
proof -
  have len: "length (octal_digits n) \<le> 8"
    using octal_digits_length [of n 7] assms by simp
  then show l: "length (fmt_08lo n) = 8"
    by (simp add: fmt_08lo_def)
  show "take 7 (fmt_08lo n) = map (\<lambda>d. 0x30 + of_nat d) (if n < 8 then replicate 7 0
     else replicate (7 - length (octal_digits (n div 8))) 0 @ octal_digits (n div 8))"
  proof (cases "n < 8")
    case True
    then have "octal_digits n = [n]"
      by (subst octal_digits.simps) simp
    with True show ?thesis
      by (simp add: fmt_08lo_def)
  next
    case False
    then have d: "octal_digits n = octal_digits (n div 8) @ [n mod 8]"
      by (subst octal_digits.simps) simp
    with len False show ?thesis
      by (simp add: fmt_08lo_def take_map)
  qed
qed

lemma field_same:
  assumes "n < 8 ^ 8" "k < 8 ^ 8" "n div 8 = k div 8"
  shows "field n = field k"
proof -
  have "n < 8 \<longleftrightarrow> k < 8"
    using assms(3) by (metis div_eq_0_iff zero_neq_numeral)
  then have "take 7 (fmt_08lo n) = take 7 (fmt_08lo k)"
    unfolding fmt_08lo_prefix(1) [OF assms(1)] fmt_08lo_prefix(1) [OF assms(2)] by (simp add: assms(3))
  then show ?thesis
    using format_cpio_field_eight(1) [of fmt_08lo, OF fmt_08lo_prefix(2)] assms(1,2) by simp
qed

lemma padded_zero:
  assumes "length bytes mod 4 \<noteq> 0"
  shows "(bytes @ [0]) @ padding (length (bytes @ [0])) = bytes @ padding (length bytes)"
proof -
  have "(4 - length bytes mod 4) mod 4 = Suc ((4 - Suc (length bytes) mod 4) mod 4)"
  proof -
    consider "length bytes mod 4 = 1" | "length bytes mod 4 = 2" | "length bytes mod 4 = 3"
      using assms mod_less_divisor [of 4 "length bytes"] by linarith
    then show ?thesis
      by cases (simp_all add: mod_Suc)
  qed
  then show ?thesis
    by (simp add: padding_def)
qed

lemma module_entry_zero:
  assumes "files f = File_data bytes" "length bytes mod 4 \<noteq> 0" "length bytes mod 8 \<noteq> 7" "length bytes + 1 < 8 ^ 8"
  shows "module_entry (files(f := File_data (bytes @ [0]))) token = module_entry files token"
proof (cases "module_file token = f")
  case True
  have "length (bytes @ [0]) div 8 = length bytes div 8"
    using assms(3) by (simp add: div_Suc mod_Suc)
  then have "file_header (length (bytes @ [0])) k = file_header (length bytes) k" for k
    using field_same [of "length (bytes @ [0])" "length bytes"] assms(4) by (simp add: file_header_def)
  with True padded_zero [OF assms(2)] assms(1) show ?thesis
    by (simp add: module_entry_def Let_def)
qed (simp add: module_entry_def)

text \<open>What the builder writes, when the arguments name an output file that can be created and a list of
  modules.\<close>

lemma os_builder_writes:
  assumes "2 \<le> length argv" "parse_args (tl argv) (None, None) = (Some out, Some m)" "can_create out"
  shows "\<exists>printed. os_builder_main files can_create argv
    = (0, Some (out, concat (map (module_entry files) (tokens [] m)) @ trailer), printed)"
  using assms by (simp add: os_builder_main_def Let_def add_modules_archive)

text \<open>C39. The archive does not determine its files. Its contents are the entries of the modules in order
  (\<open>module_entry\<close>: the header, the name and its final 0, padding, every byte of the file, padding) and the
  trailer; in the header the fields of the size and of the name's length are the octal digits of the
  number without its last one. Where a file of \<open>n\<close> bytes leaves room in its last
  group of four bytes (and is not the last of eight), a file with one zero byte more therefore gives
  the same run of the builder: the same archive, byte for byte, because the padding is zeros too. No
  reader of the archive can tell the two apart.\<close>

theorem os_builder_ambiguous:
  assumes "files f = File_data bytes" "length bytes mod 4 \<noteq> 0" "length bytes mod 8 \<noteq> 7" "length bytes + 1 < 8 ^ 8"
  shows "os_builder_main (files(f := File_data (bytes @ [0]))) can_create argv = os_builder_main files can_create argv
    \<and> (2 \<le> length argv \<and> parse_args (tl argv) (None, None) = (Some out, Some m) \<and> can_create out \<longrightarrow>
        (\<exists>printed. os_builder_main files can_create argv
          = (0, Some (out, concat (map (module_entry files) (tokens [] m)) @ trailer), printed)))
    \<and> (\<forall>n < 8 ^ 8. \<forall>k < 8 ^ 8. octal_value (take 7 (c_filesize (file_header n k))) = n div 8 \<and> c_filesize (file_header n k) ! 7 = 0
        \<and> octal_value (take 7 (c_namesize (file_header n k))) = k div 8 \<and> c_namesize (file_header n k) ! 7 = 0)"
proof (intro conjI)
  let ?files = "files(f := File_data (bytes @ [0]))" and ?b = "\<lparr>archive = [], messages = []\<rparr>"
  have "module_entry ?files = module_entry files"
    by (rule ext) (rule module_entry_zero [of files f bytes, OF assms])
  then have "archive (fold (add_module ?files) ts ?b) = archive (fold (add_module files) ts ?b)" for ts
    by (simp add: add_modules_archive)
  moreover have "messages (fold (add_module ?files) ts ?b) = messages (fold (add_module files) ts ?b)" for ts
    using assms(1) by (intro add_modules_messages) auto
  ultimately show "os_builder_main ?files can_create argv = os_builder_main files can_create argv"
    by (simp add: os_builder_main_def Let_def split: prod.splits option.splits)
  show "2 \<le> length argv \<and> parse_args (tl argv) (None, None) = (Some out, Some m) \<and> can_create out \<longrightarrow>
      (\<exists>printed. os_builder_main files can_create argv
        = (0, Some (out, concat (map (module_entry files) (tokens [] m)) @ trailer), printed))"
    using os_builder_writes by blast
  show "\<forall>n < 8 ^ 8. \<forall>k < 8 ^ 8. octal_value (take 7 (c_filesize (file_header n k))) = n div 8 \<and> c_filesize (file_header n k) ! 7 = 0
      \<and> octal_value (take 7 (c_namesize (file_header n k))) = k div 8 \<and> c_namesize (file_header n k) ! 7 = 0"
    using cpio_field_loses_digit by (simp add: file_header_def)
qed

text \<open>The files "1 2" and "1 2 0" as the module vga: in the archive stand the bytes 1 and 2, two zeros,
  and the size 0.\<close>

theorem os_builder_ambiguous_witness:
  "\<exists>printed. os_builder_main (\<lambda>_. File_data [1, 2]) (\<lambda>_. True) [ascii ''os-builder'', ascii ''--output-initrd=a'', ascii ''--add=vga'']
      = (0, Some (ascii ''a'', header_bytes (file_header 2 6) @ ascii ''vga.o'' @ [0] @ padding 116 @ [1, 2, 0, 0] @ trailer), printed)
    \<and> os_builder_main ((\<lambda>_. File_data [1, 2])(ascii ''build/modules/drivers/core/vga/vga.o'' := File_data [1, 2, 0])) (\<lambda>_. True)
        [ascii ''os-builder'', ascii ''--output-initrd=a'', ascii ''--add=vga'']
      = (0, Some (ascii ''a'', header_bytes (file_header 2 6) @ ascii ''vga.o'' @ [0] @ padding 116 @ [1, 2, 0, 0] @ trailer), printed)
    \<and> octal_value (take 7 (c_filesize (file_header 2 6))) = 0"
proof -
  let ?argv = "[ascii ''os-builder'', ascii ''--output-initrd=a'', ascii ''--add=vga'']"
  have args: "2 \<le> length ?argv \<and> parse_args (tl ?argv) (None, None) = (Some (ascii ''a''), Some (ascii ''vga'')) \<and> True"
    by (simp add: ascii_def)
  note ambiguous = os_builder_ambiguous [of "\<lambda>_. File_data [1, 2]" "ascii ''build/modules/drivers/core/vga/vga.o''" "[1, 2]"
      "\<lambda>_. True" ?argv "ascii ''a''" "ascii ''vga''"]
  have entry: "concat (map (module_entry (\<lambda>_. File_data [1, 2])) (tokens [] (ascii ''vga'')))
      = header_bytes (file_header 2 6) @ ascii ''vga.o'' @ [0] @ padding 116 @ [1, 2, 0, 0]"
  proof -
    have "tokens [] (ascii ''vga'') = [ascii ''vga'']" "length (ascii ''vga.o'') = 5"
      "take 255 (ascii ''vga'' @ ascii ''.o'') = ascii ''vga.o''"
      by (simp_all add: ascii_def)
    moreover have "padding (length [1, 2 :: u8]) = [0, 0]"
      by code_simp
    ultimately show ?thesis
      by (simp add: module_entry_def sizeof_cpio_header_def flip: numeral_2_eq_2)
  qed
  show ?thesis
    using ambiguous args unfolding entry by auto
qed

end
