(* ===== verification/Cpu.thy ===== *)
theory Cpu
  imports Boot
begin

text \<open>
  The processor as the assembler files of the kernel use it: an i386 in protected mode at
  privilege level 0. The state adds the registers to the state of the kernel; an instruction is a
  constructor of \<open>instr\<close>, with the length of its encoding, and the text of the kernel is a
  function \<open>code\<close> from addresses to instructions. Segment registers are checked against the
  descriptors of Gdt.thy, and an exception is delivered through the gates of Interrupts_Props.thy.
  What the manual of the processor leaves undefined is a parameter.
\<close>

subsection \<open>Registers\<close>

datatype reg = EAX | EBX | ECX | EDX | ESI | EDI | EBP | ESP

datatype sreg = CS | DS | ES | FS | GS | SS

record cpu_state = interrupt_state +
  regs :: "reg \<Rightarrow> u32"
  sregs :: "sreg \<Rightarrow> u16"
  eip :: addr
  eflags :: u32

text \<open>The flags after an addition, and the return address that a double fault saves: the code depends
  on neither.\<close>

record unknowns =
  add_flags :: "u32 \<Rightarrow> u32 \<Rightarrow> u32 \<Rightarrow> u32"
  double_fault_cs :: u16
  double_fault_eip :: addr

definition set_reg :: "reg \<Rightarrow> u32 \<Rightarrow> 'a cpu_state_scheme \<Rightarrow> 'a cpu_state_scheme" where
  "set_reg r v s = s\<lparr>regs := (regs s)(r := v)\<rparr>"

definition set_reg16 :: "reg \<Rightarrow> u16 \<Rightarrow> 'a cpu_state_scheme \<Rightarrow> 'a cpu_state_scheme" where
  "set_reg16 r v s = set_reg r ((regs s r AND 0xFFFF0000) OR ucast v) s"

definition set_reg8 :: "reg \<Rightarrow> u8 \<Rightarrow> 'a cpu_state_scheme \<Rightarrow> 'a cpu_state_scheme" where
  "set_reg8 r v s = set_reg r ((regs s r AND 0xFFFFFF00) OR ucast v) s"

definition set_sreg :: "sreg \<Rightarrow> u16 \<Rightarrow> 'a cpu_state_scheme \<Rightarrow> 'a cpu_state_scheme" where
  "set_sreg r v s = s\<lparr>sregs := (sregs s)(r := v)\<rparr>"

definition push :: "u32 \<Rightarrow> 'a cpu_state_scheme \<Rightarrow> 'a cpu_state_scheme" where
  "push v s = s\<lparr>mem := store32 (mem s) (regs s ESP - 4) v, regs := (regs s)(ESP := regs s ESP - 4)\<rparr>"

text \<open>The \<open>n\<close>-th word from the top of the stack.\<close>

definition stack_word :: "nat \<Rightarrow> 'a cpu_state_scheme \<Rightarrow> u32" where
  "stack_word n s = load32 (mem s) (regs s ESP + 4 * of_nat n)"

subsection \<open>Loading segment registers\<close>

text \<open>The exception that loading a selector as code or as data raises, if any: the index must lie
  within the table, the descriptor must be of the right kind and of ring 0, and present. All
  descriptors of this kernel are of ring 0, so a return to an outer ring does not occur. Bits of the
  access byte: 7 present, 5 and 6 ring, 4 no system segment, 3 executable, 1 readable or writable.\<close>

definition selector_access :: "'a gdt_state_scheme \<Rightarrow> u16 \<Rightarrow> u8" where
  "selector_access s sl = desc_access (descriptor s (unat sl div 8))"

definition selector_in_table :: "'a gdt_state_scheme \<Rightarrow> u16 \<Rightarrow> bool" where
  "selector_in_table s sl \<longleftrightarrow> \<not> bit sl 2 \<and> 8 * (unat sl div 8) + 7 \<le> unat (gp_limit (gdtr s))"

definition code_fault :: "'a gdt_state_scheme \<Rightarrow> u16 \<Rightarrow> nat option" where
  "code_fault s sl =
     (let a = selector_access s sl in
      if sl AND 0xFFFC = 0 \<or> \<not> selector_in_table s sl then Some 13
      else if a AND 0x18 \<noteq> 0x18 \<or> a AND 0x60 \<noteq> 0 \<or> sl AND 3 \<noteq> 0 then Some 13
      else if \<not> bit a 7 then Some 11 else None)"

definition data_fault :: "'a gdt_state_scheme \<Rightarrow> sreg \<Rightarrow> u16 \<Rightarrow> nat option" where
  "data_fault s r sl =
     (let a = selector_access s sl in
      if sl AND 0xFFFC = 0 then (if r = SS then Some 13 else None)
      else if \<not> selector_in_table s sl then Some 13
      else if r = SS \<and> (a AND 0x1A \<noteq> 0x12 \<or> a AND 0x60 \<noteq> 0 \<or> sl AND 3 \<noteq> 0) then Some 13
      else if r \<noteq> SS \<and> (a AND 0x10 = 0 \<or> a AND 0x0A = 0x08) then Some 13
      else if \<not> bit a 7 then Some (if r = SS then 12 else 11) else None)"

definition selector_error :: "u16 \<Rightarrow> u32" where
  "selector_error sl = ucast (sl AND 0xFFFC)"

subsection \<open>Delivering an exception or an interrupt\<close>

text \<open>The flags as they are saved: faults set the resume flag (bit 16) in the saved copy. On entry
  the processor clears trap (8), nested task (14), resume (16) and virtual mode (17), and behind an
  interrupt gate the interrupt flag (9).\<close>

definition saved_flags :: "nat \<Rightarrow> u32 \<Rightarrow> u32" where
  "saved_flags v f = (if v \<in> {0, 5, 6, 7, 10, 11, 12, 13, 14, 16, 17} then f OR 0x10000 else f)"

definition entry_flags :: "u64 \<Rightarrow> u32 \<Rightarrow> u32" where
  "entry_flags g f = f AND NOT (if bit (gate_type g) 0 then 0x34100 else 0x34300)"

definition gate_usable :: "'a interrupt_state_scheme \<Rightarrow> nat \<Rightarrow> bool" where
  "gate_usable s v \<longleftrightarrow> 8 * v + 7 \<le> unat (ip_limit (idtr s)) \<and> gate_type (gate s v) AND 0x1E = 0x0E
     \<and> gate_present (gate s v) \<and> code_fault s (gate_selector (gate s v)) = None"

text \<open>The frame: flags, code segment, return address, and for some exceptions an error code.\<close>

definition enter :: "nat \<Rightarrow> u32 option \<Rightarrow> 'a cpu_state_scheme \<Rightarrow> 'a cpu_state_scheme" where
  "enter v err s =
     (let g = gate s v;
          t = push (eip s) (push (ucast (sregs s CS)) (push (saved_flags v (eflags s)) s));
          t = (case err of None \<Rightarrow> t | Some e \<Rightarrow> push e t)
      in (set_sreg CS (gate_selector g) t)\<lparr>eip := gate_offset g, eflags := entry_flags g (eflags s)\<rparr>)"

text \<open>A vector without a usable gate raises a second exception: not present (11) when only the
  present bit is missing, else general protection (13). After a contributory exception or a page fault
  that is a double fault (8); a double fault that cannot be delivered shuts the processor down.\<close>

definition contributory :: "nat \<Rightarrow> bool" where
  "contributory v \<longleftrightarrow> v \<in> {0, 10, 11, 12, 13, 14}"

definition double_fault :: "unknowns \<Rightarrow> 'a cpu_state_scheme \<Rightarrow> 'a cpu_state_scheme option" where
  "double_fault u s =
     (if gate_usable s 8
      then Some (enter 8 (Some 0) ((set_sreg CS (double_fault_cs u) s)\<lparr>eip := double_fault_eip u\<rparr>))
      else None)"

definition second_fault :: "'a interrupt_state_scheme \<Rightarrow> nat \<Rightarrow> nat" where
  "second_fault s v =
     (if 8 * v + 7 \<le> unat (ip_limit (idtr s)) \<and> gate_type (gate s v) AND 0x1E = 0x0E \<and> \<not> gate_present (gate s v)
      then 11 else 13)"

text \<open>\<open>ext\<close> says that the event came from outside the program; it is bit 0 of the error code of the
  second exception.\<close>

definition deliver :: "unknowns \<Rightarrow> bool \<Rightarrow> nat \<Rightarrow> u32 option \<Rightarrow> 'a cpu_state_scheme \<Rightarrow> 'a cpu_state_scheme option" where
  "deliver u ext v err s =
     (if gate_usable s v then Some (enter v err s)
      else if v = 8 then None
      else if contributory v \<or> \<not> gate_usable s (second_fault s v) then double_fault u s
      else Some (enter (second_fault s v) (Some (of_nat (8 * v + 2 + (if ext then 1 else 0)))) s))"

subsection \<open>Instructions\<close>

datatype instr =
    I_cli | I_hlt | I_push reg | I_pop reg
  | I_mov reg u32                \<comment> \<open>\<open>mov r32, imm32\<close>\<close>
  | I_mov16 reg u16              \<comment> \<open>\<open>mov r16, imm16\<close>\<close>
  | I_mov8 reg u8                \<comment> \<open>\<open>mov r8, imm8\<close>, the low byte\<close>
  | I_load reg reg u32           \<comment> \<open>\<open>mov r32, [r32 + disp8]\<close>\<close>
  | I_add_mem reg u32 u32        \<comment> \<open>\<open>add dword [r32 + disp8], imm8\<close>\<close>
  | I_out                        \<comment> \<open>\<open>out dx, al\<close>\<close>
  | I_lgdt reg | I_lidt reg      \<comment> \<open>\<open>lgdt [r32]\<close>, \<open>lidt [r32]\<close>\<close>
  | I_mov_seg sreg reg           \<comment> \<open>\<open>mov sreg, r16\<close>\<close>
  | I_jmp addr | I_jmp_far u16 addr | I_call addr | I_ret | I_iret

text \<open>The length of the encoding that nasm chooses; an operand \<open>[esp + disp8]\<close> takes one byte more
  than the others, a move to a 16-bit register has a prefix, and the jump of the kernel is short.
  Loads of \<open>fs\<close> and \<open>gs\<close> have no longer encoding.\<close>

fun instr_length :: "instr \<Rightarrow> u32" where
  "instr_length I_cli = 1" | "instr_length I_hlt = 1"
| "instr_length (I_push r) = 1" | "instr_length (I_pop r) = 1"
| "instr_length (I_mov r v) = 5" | "instr_length (I_mov16 r v) = 4" | "instr_length (I_mov8 r v) = 2"
| "instr_length (I_load r b d) = (if b = ESP then 4 else 3)"
| "instr_length (I_add_mem b d v) = (if b = ESP then 5 else 4)"
| "instr_length I_out = 1"
| "instr_length (I_lgdt r) = 3" | "instr_length (I_lidt r) = 3" | "instr_length (I_mov_seg q r) = 2"
| "instr_length (I_jmp a) = 2" | "instr_length (I_jmp_far sl a) = 7" | "instr_length (I_call a) = 5"
| "instr_length I_ret = 1" | "instr_length I_iret = 1"

datatype 'a result = Done 'a | Fault nat u32

definition advance :: "instr \<Rightarrow> 'a cpu_state_scheme \<Rightarrow> 'a cpu_state_scheme" where
  "advance i s = s\<lparr>eip := eip s + instr_length i\<rparr>"

text \<open>A halted processor with interrupts disabled stays where it is. The registers \<open>gdtr\<close> and
  \<open>idtr\<close> are loaded from the six bytes of a packed pointer.\<close>

fun exec1 :: "unknowns \<Rightarrow> instr \<Rightarrow> 'a cpu_state_scheme \<Rightarrow> 'a cpu_state_scheme result" where
  "exec1 u I_cli s = Done (advance I_cli ((cli s)\<lparr>eflags := eflags s AND NOT 0x200\<rparr>))"
| "exec1 u I_hlt s = Done s"
| "exec1 u (I_push r) s = Done (advance (I_push r) (push (regs s r) s))"
| "exec1 u (I_pop r) s =
     Done (advance (I_pop r) (set_reg r (stack_word 0 s) (set_reg ESP (regs s ESP + 4) s)))"
| "exec1 u (I_mov r v) s = Done (advance (I_mov r v) (set_reg r v s))"
| "exec1 u (I_mov16 r v) s = Done (advance (I_mov16 r v) (set_reg16 r v s))"
| "exec1 u (I_mov8 r v) s = Done (advance (I_mov8 r v) (set_reg8 r v s))"
| "exec1 u (I_load r b d) s = Done (advance (I_load r b d) (set_reg r (load32 (mem s) (regs s b + d)) s))"
| "exec1 u (I_add_mem b d v) s =
     (let a = regs s b + d; w = load32 (mem s) a in
      Done (advance (I_add_mem b d v)
        (s\<lparr>mem := store32 (mem s) a (w + v), eflags := add_flags u (eflags s) w v\<rparr>)))"
| "exec1 u I_out s = Done (advance I_out (outb (ucast (regs s EDX)) (ucast (regs s EAX)) s))"
| "exec1 u (I_lgdt r) s =
     Done (advance (I_lgdt r) (s\<lparr>gdtr := \<lparr>gp_limit = load16 (mem s) (regs s r), gp_base = load32 (mem s) (regs s r + 2)\<rparr>\<rparr>))"
| "exec1 u (I_lidt r) s =
     Done (advance (I_lidt r) (s\<lparr>idtr := \<lparr>ip_limit = load16 (mem s) (regs s r), ip_base = load32 (mem s) (regs s r + 2)\<rparr>\<rparr>))"
| "exec1 u (I_mov_seg q r) s =
     (let sl = ucast (regs s r) in
      case data_fault s q sl of
        Some v \<Rightarrow> Fault v (selector_error sl)
      | None \<Rightarrow> Done (advance (I_mov_seg q r) (set_sreg q sl s)))"
| "exec1 u (I_jmp a) s = Done (s\<lparr>eip := a\<rparr>)"
| "exec1 u (I_jmp_far sl a) s =
     (case code_fault s sl of
        Some v \<Rightarrow> Fault v (selector_error sl)
      | None \<Rightarrow> Done ((set_sreg CS sl s)\<lparr>eip := a\<rparr>))"
| "exec1 u (I_call a) s = Done ((push (eip s + instr_length (I_call a)) s)\<lparr>eip := a\<rparr>)"
| "exec1 u I_ret s = Done ((set_reg ESP (regs s ESP + 4) s)\<lparr>eip := stack_word 0 s\<rparr>)"
| "exec1 u I_iret s =
     (let sl = ucast (stack_word 1 s) in
      case code_fault s sl of
        Some v \<Rightarrow> Fault v (selector_error sl)
      | None \<Rightarrow> Done ((set_sreg CS sl (set_reg ESP (regs s ESP + 12) s))
                        \<lparr>eip := stack_word 0 s, eflags := stack_word 2 s\<rparr>))"

subsection \<open>Programs\<close>

type_synonym program = "addr \<Rightarrow> instr option"

definition step :: "unknowns \<Rightarrow> program \<Rightarrow> 'a cpu_state_scheme \<Rightarrow> 'a cpu_state_scheme option" where
  "step u code s =
     (case code (eip s) of
        None \<Rightarrow> None
      | Some i \<Rightarrow> (case exec1 u i s of Done t \<Rightarrow> Some t | Fault v e \<Rightarrow> deliver u False v (Some e) s))"

primrec steps :: "unknowns \<Rightarrow> program \<Rightarrow> nat \<Rightarrow> 'a cpu_state_scheme \<Rightarrow> 'a cpu_state_scheme option" where
  "steps u code 0 s = Some s"
| "steps u code (Suc n) s = (case step u code s of None \<Rightarrow> None | Some t \<Rightarrow> steps u code n t)"

text \<open>A routine at an address of the text.\<close>

primrec loaded :: "program \<Rightarrow> addr \<Rightarrow> instr list \<Rightarrow> bool" where
  "loaded code a [] \<longleftrightarrow> True"
| "loaded code a (i # is) \<longleftrightarrow> code a = Some i \<and> loaded code (a + instr_length i) is"

text \<open>The checks read the tables only.\<close>

lemma tables_updates [simp]:
  "code_fault (s\<lparr>mem := m\<rparr>) sl = code_fault s sl" "code_fault (s\<lparr>io := h\<rparr>) sl = code_fault s sl"
  "code_fault (t\<lparr>regs := r\<rparr>) sl = code_fault t sl" "code_fault (t\<lparr>sregs := q\<rparr>) sl = code_fault t sl"
  "code_fault (t\<lparr>eip := a\<rparr>) sl = code_fault t sl" "code_fault (t\<lparr>eflags := f\<rparr>) sl = code_fault t sl"
  by (simp_all add: code_fault_def selector_in_table_def selector_access_def descriptor_def)

lemma data_fault_cong:
  "gdtr t = gdtr s \<Longrightarrow> gdt_entries t = gdt_entries s \<Longrightarrow> data_fault t q sl = data_fault s q sl"
  unfolding data_fault_def selector_in_table_def selector_access_def descriptor_def by (simp only:)

lemma data_fault_updates [simp]:
  "data_fault (t\<lparr>regs := r\<rparr>) q sl = data_fault t q sl" "data_fault (t\<lparr>sregs := p\<rparr>) q sl = data_fault t q sl"
  "data_fault (t\<lparr>eip := a\<rparr>) q sl = data_fault t q sl"
  by (rule data_fault_cong; simp)+

text \<open>With the null descriptor and the two segments of gdt.c, the selector 8 is the only one that
  can be loaded into \<open>cs\<close>.\<close>

definition flat_table :: "'a gdt_state_scheme \<Rightarrow> bool" where
  "flat_table s \<longleftrightarrow> gp_limit (gdtr s) = 23 \<and> desc_access (descriptor s 1) = 0x9A \<and> desc_access (descriptor s 2) = 0x92"

lemma flat_code_fault:
  assumes "flat_table s"
  shows "code_fault s sl = (if sl = 8 then None else Some 13)"
proof (cases "selector_in_table s sl")
  case True
  with assms have "unat sl < 24" and low: "\<not> bit sl 2"
    by (auto simp: selector_in_table_def flat_table_def)
  then consider "unat sl < 8" | "8 \<le> unat sl" "unat sl < 16" | "16 \<le> unat sl" "unat sl < 24"
    by linarith
  then show ?thesis
  proof cases
    case 1
    then have "unat sl \<in> {0, 1, 2, 3, 4, 5, 6, 7}" by auto
    then have "sl \<in> {0, 1, 2, 3, 4, 5, 6, 7}"
      by (auto simp: word_unat_eq_iff)
    with low show ?thesis
      by (auto simp: code_fault_def)
  next
    case 2
    then have "unat sl \<in> {8, 9, 10, 11, 12, 13, 14, 15}" by auto
    then have "sl \<in> {8, 9, 10, 11, 12, 13, 14, 15}"
      by (auto simp: word_unat_eq_iff)
    with low assms True show ?thesis
      by (auto simp: code_fault_def selector_access_def flat_table_def)
  next
    case 3
    then have "unat sl div 8 = 2" by presburger
    moreover have "sl \<noteq> 8" using 3 by auto
    ultimately show ?thesis
      using assms by (simp add: code_fault_def selector_access_def flat_table_def)
  qed
qed (use assms in \<open>auto simp: code_fault_def selector_in_table_def flat_table_def\<close>)

lemma flat_data_fault: "flat_table s \<Longrightarrow> data_fault s q 0x10 = None"
  by (simp add: data_fault_def selector_in_table_def selector_access_def flat_table_def Let_def)

subsection \<open>Running a routine\<close>

lemma steps_append: "steps u code (m + n) s = (case steps u code m s of None \<Rightarrow> None | Some t \<Rightarrow> steps u code n t)"
  by (induction m arbitrary: s) (auto split: option.splits)

lemma steps_trans: "steps u code m s = Some t \<Longrightarrow> steps u code n t = r \<Longrightarrow> steps u code (m + n) s = r"
  by (simp add: steps_append)

text \<open>Instructions that go on to the next one.\<close>

fun sequential :: "instr \<Rightarrow> bool" where
  "sequential I_hlt = False" | "sequential (I_jmp a) = False" | "sequential (I_jmp_far sl a) = False"
| "sequential (I_call a) = False" | "sequential I_ret = False" | "sequential I_iret = False"
| "sequential _ = True"

lemma cpu_eip_simps [simp]:
  "eip (set_reg r v s) = eip s" "eip (set_reg16 r w s) = eip s" "eip (set_reg8 r b s) = eip s"
  "eip (set_sreg q w s) = eip s" "eip (push v s) = eip s" "eip (advance i s) = eip s + instr_length i"
  "eip (cli s) = eip s" "eip (outb p b s) = eip s"
  by (simp_all add: set_reg_def set_reg16_def set_reg8_def set_sreg_def push_def advance_def cli_def outb_def)

lemma exec1_sequential: "exec1 u i s = Done t \<Longrightarrow> sequential i \<Longrightarrow> eip t = eip s + instr_length i"
  by (cases i) (auto simp: Let_def advance_def split: option.splits)

text \<open>The effect of a list of instructions, one after the other.\<close>

primrec exec :: "unknowns \<Rightarrow> instr list \<Rightarrow> 'a cpu_state_scheme \<Rightarrow> 'a cpu_state_scheme option" where
  "exec u [] s = Some s"
| "exec u (i # is) s = (case exec1 u i s of Done t \<Rightarrow> exec u is t | Fault v e \<Rightarrow> None)"

lemma exec_append: "exec u (is @ js) s = (case exec u is s of None \<Rightarrow> None | Some t \<Rightarrow> exec u js t)"
  by (induction "is" arbitrary: s) (auto split: result.splits)

lemma exec_last: "exec u (is @ [i]) s = Some t \<Longrightarrow> \<exists>m. exec u is s = Some m \<and> exec1 u i m = Done t"
  by (auto simp: exec_append split: option.splits result.splits)

fun straight :: "instr list \<Rightarrow> bool" where
  "straight [] = True" | "straight [i] = True" | "straight (i # is) = (sequential i \<and> straight is)"

lemma run_routine:
  "loaded code (eip s) is \<Longrightarrow> straight is \<Longrightarrow> exec u is s = Some t \<Longrightarrow> steps u code (length is) s = Some t"
proof (induction "is" arbitrary: s rule: straight.induct)
  case (3 i j js)
  then obtain s1 where s1: "exec1 u i s = Done s1" "exec u (j # js) s1 = Some t"
    by (auto split: result.splits simp del: exec.simps(2) simp: exec.simps(2) [of u i])
  then have "eip s1 = eip s + instr_length i"
    using 3 by (auto intro: exec1_sequential)
  with 3 s1 show ?case
    by (simp add: step_def)
qed (auto simp: step_def split: result.splits)

lemma loaded_prefix: "loaded code a (is @ js) \<Longrightarrow> loaded code a is"
  by (induction "is" arbitrary: a) auto

text \<open>A text with a routine put at an address.\<close>

primrec place :: "addr \<Rightarrow> instr list \<Rightarrow> program \<Rightarrow> program" where
  "place a [] p = p"
| "place a (i # is) p = (place (a + instr_length i) is p)(a \<mapsto> i)"

subsection \<open>Where a run stays\<close>

text \<open>For \<open>n\<close> steps the next instruction is one at an address of \<open>A\<close>.\<close>

definition stays :: "unknowns \<Rightarrow> program \<Rightarrow> addr set \<Rightarrow> nat \<Rightarrow> 'a cpu_state_scheme \<Rightarrow> bool" where
  "stays u code A n s \<longleftrightarrow> (\<forall>k < n. \<exists>t. steps u code k s = Some t \<and> eip t \<in> A)"

primrec code_addrs :: "addr \<Rightarrow> instr list \<Rightarrow> addr set" where
  "code_addrs a [] = {}"
| "code_addrs a (i # is) = insert a (code_addrs (a + instr_length i) is)"

lemma stays_0 [simp]: "stays u code A 0 s"
  by (simp add: stays_def)

lemma stays_mono: "stays u code A n s \<Longrightarrow> A \<subseteq> B \<Longrightarrow> stays u code B n s"
  unfolding stays_def by blast

lemma stays_trans:
  assumes "stays u code A m s" "steps u code m s = Some t" "stays u code A n t"
  shows "stays u code A (m + n) s"
  unfolding stays_def
proof (intro allI impI)
  fix k assume k: "k < m + n"
  show "\<exists>t. steps u code k s = Some t \<and> eip t \<in> A"
  proof (cases "k < m")
    case False
    then have "steps u code k s = steps u code (k - m) t"
      using steps_append [of u code m "k - m" s] assms(2) by simp
    with assms(3) k False show ?thesis
      by (simp add: stays_def)
  qed (use assms(1) in \<open>auto simp: stays_def\<close>)
qed

lemma stays_Suc:
  "eip s \<in> A \<Longrightarrow> step u code s = Some t \<Longrightarrow> stays u code A n t \<Longrightarrow> stays u code A (Suc n) s"
  by (auto simp: stays_def less_Suc_eq_0_disj)

lemma stays_routine:
  "loaded code (eip s) is \<Longrightarrow> list_all sequential is \<Longrightarrow> exec u is s = Some t
   \<Longrightarrow> stays u code (code_addrs (eip s) is) (length is) s"
proof (induction "is" arbitrary: s)
  case (Cons i js)
  then obtain s1 where s1: "exec1 u i s = Done s1" "exec u js s1 = Some t"
    by (auto split: result.splits)
  have e: "eip s1 = eip s + instr_length i"
    using Cons.prems s1 by (auto intro: exec1_sequential)
  have "stays u code (code_addrs (eip s1) js) (length js) s1"
    using Cons.prems s1(2) by (intro Cons.IH) (simp_all add: e)
  then have "stays u code (code_addrs (eip s) (i # js)) (length js) s1"
    by (rule stays_mono) (auto simp: e)
  moreover have "step u code s = Some s1"
    using Cons.prems s1 by (simp add: step_def)
  ultimately show ?case
    unfolding list.size add_0_right add_Suc_right by (intro stays_Suc) simp_all
qed simp

end
