(* ===== verification/Assembler.thy ===== *)
theory Assembler
  imports Cpu
begin

text \<open>
  The assembler files: kernel/src/boot.asm, kernel/src/gdt/gdt_flush.asm and
  kernel/src/interrupts/exception_stubs.asm, instruction by instruction. The addresses of labels are
  arguments; a label inside a routine is given by its distance from the start of the routine.
\<close>

subsection \<open>The routines\<close>

definition multiboot_header :: "u32 list" where
  "multiboot_header = [0x1BADB002, 0x00000003, - (0x1BADB002 + 0x00000003)]"

definition stack_size :: u32 where "stack_size = 16384"

definition start_code :: "addr \<Rightarrow> addr \<Rightarrow> addr \<Rightarrow> instr list" where
  "start_code base stack_top kernel_main_addr =
     [I_cli,
      I_mov ESP stack_top,
      I_push EBX,
      I_push EAX,
      I_call kernel_main_addr,
      I_cli,
      I_hlt,
      I_jmp (base + 14)]"

definition gdt_flush_code :: "addr \<Rightarrow> instr list" where
  "gdt_flush_code base =
     [I_load EAX ESP 4,
      I_lgdt EAX,
      I_mov16 EAX 0x10,
      I_mov_seg DS EAX,
      I_mov_seg ES EAX,
      I_mov_seg FS EAX,
      I_mov_seg GS EAX,
      I_mov_seg SS EAX,
      I_jmp_far 0x08 (base + 28),
      I_ret]"

definition load_idt_code :: "instr list" where
  "load_idt_code = [I_load EAX ESP 4, I_lidt EAX, I_ret]"

definition isr0_code :: "instr list" where
  "isr0_code =
     [I_push EAX,
      I_push EBX,
      I_mov16 EDX 0x3F8,
      I_mov8 EAX (of_char CHR ''0''),
      I_out,
      I_add_mem ESP 8 2,
      I_pop EBX,
      I_pop EAX,
      I_iret]"

definition isr6_code :: "instr list" where
  "isr6_code =
     [I_push EAX,
      I_push EBX,
      I_mov16 EDX 0x3F8,
      I_mov8 EAX (of_char CHR ''6''),
      I_out,
      I_add_mem ESP 8 2,
      I_pop EBX,
      I_pop EAX,
      I_iret]"

definition isr8_code :: "instr list" where
  "isr8_code = [I_push EAX, I_mov16 EDX 0x3F8, I_mov8 EAX (of_char CHR ''8''), I_out, I_pop EAX, I_iret]"

definition isr13_code :: "instr list" where
  "isr13_code = [I_push EAX, I_mov16 EDX 0x3F8, I_mov8 EAX (of_char CHR ''D''), I_out, I_pop EAX, I_iret]"

definition isr14_code :: "instr list" where
  "isr14_code = [I_push EAX, I_mov16 EDX 0x3F8, I_mov8 EAX (of_char CHR ''P''), I_out, I_pop EAX, I_iret]"

text \<open>The two kinds of exception routines, by the letter they print.\<close>

definition skip_code :: "u8 \<Rightarrow> instr list" where
  "skip_code c = [I_push EAX, I_push EBX, I_mov16 EDX 0x3F8, I_mov8 EAX c, I_out, I_add_mem ESP 8 2, I_pop EBX, I_pop EAX, I_iret]"

definition print_code :: "u8 \<Rightarrow> instr list" where
  "print_code c = [I_push EAX, I_mov16 EDX 0x3F8, I_mov8 EAX c, I_out, I_pop EAX]"

definition isr_code :: "nat \<Rightarrow> instr list" where
  "isr_code v = (if v = 0 then isr0_code else if v = 6 then isr6_code else if v = 8 then isr8_code
     else if v = 13 then isr13_code else isr14_code)"

definition isr_letter :: "nat \<Rightarrow> u8" where
  "isr_letter v = of_char (if v = 0 then CHR ''0'' else if v = 6 then CHR ''6'' else if v = 8 then CHR ''8''
     else if v = 13 then CHR ''D'' else CHR ''P'')"

lemma isr_code_shape:
  "v \<in> {0, 6} \<Longrightarrow> isr_code v = skip_code (isr_letter v)"
  "v \<in> {8, 13, 14} \<Longrightarrow> isr_code v = print_code (isr_letter v) @ [I_iret]"
  by (auto simp: isr_code_def isr_letter_def skip_code_def print_code_def isr0_code_def isr6_code_def
      isr8_code_def isr13_code_def isr14_code_def)

lemma multiboot_header_checksum: "sum_list multiboot_header = 0"
  by (simp add: multiboot_header_def)

subsection \<open>Registers and the stack\<close>

lemma high_masks: "(0xFFFF0000 :: u32) = NOT (mask 16)" "(0xFFFFFF00 :: u32) = NOT (mask 8)"
  by (simp_all add: mask_eq_exp_minus_1)

lemma low_half [simp]: "ucast ((v AND 0xFFFF0000) OR ucast (w :: u16) :: u32) = w"
  unfolding high_masks by (rule bit_word_eqI) (simp add: bit_simps)

lemma low_byte [simp]: "ucast ((v AND 0xFFFFFF00) OR ucast (b :: u8) :: u32) = b"
  unfolding high_masks by (rule bit_word_eqI) (simp add: bit_simps)

lemmas cpu_defs = set_reg_def set_reg16_def set_reg8_def set_sreg_def push_def advance_def stack_word_def
  cli_def outb_def

text \<open>What an exception routine leaves in \<open>edx\<close>: the number of the serial port in the low half.\<close>

definition after_out :: "u32 \<Rightarrow> u32" where
  "after_out d = (d AND 0xFFFF0000) OR 0x3F8"

lemma after_out_port [simp]: "ucast (d AND 0xFFFF0000 OR 0x3F8 :: u32) = (0x3F8 :: u16)"
  using low_half [of d "0x3F8"] by simp

lemma low_half_selector [simp]: "ucast (v AND 0xFFFF0000 OR 0x10 :: u32) = (0x10 :: u16)"
  using low_half [of v "0x10"] by simp

lemma exec_print_code:
  "\<exists>t. exec u (print_code c) s = Some t \<and> regs t = (regs s)(EDX := after_out (regs s EDX))
    \<and> mem t = store32 (mem s) (regs s ESP - 4) (regs s EAX) \<and> io t = io s @ [Outb 0x3F8 c] \<and> eip t = eip s + 9
    \<and> t = s\<lparr>regs := regs t, mem := mem t, io := io t, eip := eip t\<rparr>"
  by (simp add: print_code_def cpu_defs after_out_def fun_eq_iff)

lemma exec_skip_code:
  assumes "code_fault s (ucast (stack_word 1 s)) = None"
  shows "\<exists>t. exec u (skip_code c) s = Some t
    \<and> regs t = (regs s)(ESP := regs s ESP + 12, EDX := after_out (regs s EDX))
    \<and> mem t = store32 (store32 (store32 (mem s) (regs s ESP - 4) (regs s EAX)) (regs s ESP - 8) (regs s EBX))
        (regs s ESP) (stack_word 0 s + 2)
    \<and> io t = io s @ [Outb 0x3F8 c] \<and> eip t = stack_word 0 s + 2 \<and> eflags t = stack_word 2 s
    \<and> sregs t = (sregs s)(CS := ucast (stack_word 1 s))
    \<and> t = s\<lparr>regs := regs t, sregs := sregs t, eflags := eflags t, mem := mem t, io := io t, eip := eip t\<rparr>"
  using assms by (simp add: skip_code_def cpu_defs after_out_def mem_simps Let_def fun_eq_iff)

lemma straight_code [simp]: "straight (skip_code c)" "straight (print_code c)" "straight (print_code c @ [I_iret])"
  by (simp_all add: skip_code_def print_code_def)

lemma sequential_print: "list_all sequential (print_code c)"
  by (simp add: print_code_def)

lemma code_lengths: "length (skip_code c) = 9" "length (print_code c) = 5"
  by (simp_all add: skip_code_def print_code_def)

subsection \<open>The routines that load the tables\<close>

text \<open>Six bytes at the address passed are the packed pointer.\<close>

definition holds_gdt_ptr :: "addr \<Rightarrow> 'a gdt_state_scheme \<Rightarrow> bool" where
  "holds_gdt_ptr p s \<longleftrightarrow> load16 (mem s) p = gp_limit (gdt_ptr s) \<and> load32 (mem s) (p + 2) = gp_base (gdt_ptr s)"

definition holds_idt_ptr :: "addr \<Rightarrow> 'a interrupt_state_scheme \<Rightarrow> bool" where
  "holds_idt_ptr p s \<longleftrightarrow> load16 (mem s) p = ip_limit (idt_ptr s) \<and> load32 (mem s) (p + 2) = ip_base (idt_ptr s)"

lemma load_idt_routine:
  assumes "holds_idt_ptr (stack_word 1 s) s"
  shows "exec u load_idt_code s = Some ((load_idt s)\<lparr>
     regs := (regs s)(EAX := stack_word 1 s, ESP := regs s ESP + 4), eip := stack_word 0 s\<rparr>)"
  using assms by (simp add: load_idt_code_def cpu_defs holds_idt_ptr_def load_idt_def fun_upd_twist)

lemma gdt_ptr_fields [simp]: "\<lparr>gp_limit = gp_limit p, gp_base = gp_base p\<rparr> = p"
  by (cases p) simp

lemma flat_table_updates [simp]:
  "flat_table (t\<lparr>regs := r\<rparr>) = flat_table t" "flat_table (t\<lparr>sregs := q\<rparr>) = flat_table t"
  "flat_table (t\<lparr>eip := a\<rparr>) = flat_table t" "flat_table (t\<lparr>eflags := f\<rparr>) = flat_table t"
  "flat_table (s\<lparr>mem := m\<rparr>) = flat_table s" "flat_table (s\<lparr>io := h\<rparr>) = flat_table s"
  by (simp_all add: flat_table_def descriptor_def)

lemma all_segments:
  "(f :: sreg \<Rightarrow> u16)(CS := c, DS := d, ES := d, FS := d, GS := d, SS := d) = (\<lambda>q. if q = CS then c else d)"
proof
  show "(f(CS := c, DS := d, ES := d, FS := d, GS := d, SS := d)) q = (if q = CS then c else d)" for q
    by (cases q) simp_all
qed

lemma gdt_flush_routine:
  assumes "holds_gdt_ptr (stack_word 1 s) s" "flat_table (gdt_flush s)" "eip s = base"
  shows "\<exists>t. exec u (gdt_flush_code base) s = Some t
    \<and> t = (gdt_flush s)\<lparr>regs := (regs s)(EAX := regs t EAX, ESP := regs s ESP + 4), eip := stack_word 0 s,
        sregs := (\<lambda>q. if q = CS then 8 else 0x10)\<rparr>"
  using assms flat_data_fault [OF assms(2)] flat_code_fault [OF assms(2)]
  by (simp add: gdt_flush_code_def cpu_defs holds_gdt_ptr_def gdt_flush_def fun_upd_twist Let_def all_segments)

lemma start_routine:
  "exec u [I_cli, I_mov ESP stk, I_push EBX, I_push EAX, I_call main] s = Some (s\<lparr>
     io := io s @ [Cli], eflags := eflags s AND NOT 0x200, regs := (regs s)(ESP := stk - 12), eip := main,
     mem := store32 (store32 (store32 (mem s) (stk - 4) (regs s EBX)) (stk - 8) (regs s EAX)) (stk - 12) (13 + eip s)\<rparr>)"
  by (simp add: cpu_defs fun_upd_twist)

lemma load_idt_steps:
  assumes "loaded code (eip s) load_idt_code" "holds_idt_ptr (stack_word 1 s) s"
  shows "steps u code 3 s = Some ((load_idt s)\<lparr>
     regs := (regs s)(EAX := stack_word 1 s, ESP := regs s ESP + 4), eip := stack_word 0 s\<rparr>)"
  using run_routine [OF assms(1) _ load_idt_routine [OF assms(2)], of u]
  by (simp add: load_idt_code_def numeral_3_eq_3)

text \<open>The far jump of \<open>gdt_flush\<close> goes to the instruction behind it.\<close>

lemma gdt_flush_steps:
  assumes "loaded code (eip s) (gdt_flush_code (eip s))" "holds_gdt_ptr (stack_word 1 s) s" "flat_table (gdt_flush s)"
  shows "\<exists>t. steps u code 10 s = Some t
    \<and> t = (gdt_flush s)\<lparr>regs := (regs s)(EAX := regs t EAX, ESP := regs s ESP + 4), eip := stack_word 0 s,
        sregs := (\<lambda>q. if q = CS then 8 else 0x10)\<rparr>"
proof -
  let ?b = "eip s"
  let ?p = "[I_load EAX ESP 4, I_lgdt EAX, I_mov16 EAX 0x10, I_mov_seg DS EAX, I_mov_seg ES EAX, I_mov_seg FS EAX,
      I_mov_seg GS EAX, I_mov_seg SS EAX]"
  let ?j = "I_jmp_far 0x08 (?b + 28)"
  have c: "gdt_flush_code ?b = (?p @ [?j]) @ [I_ret]"
    by (simp add: gdt_flush_code_def)
  obtain t where t: "exec u ((?p @ [?j]) @ [I_ret]) s = Some t" "t = (gdt_flush s)\<lparr>regs := (regs s)(EAX := regs t EAX,
        ESP := regs s ESP + 4), eip := stack_word 0 s, sregs := (\<lambda>q. if q = CS then 8 else 0x10)\<rparr>"
    using gdt_flush_routine [OF assms(2,3), of ?b u] unfolding c by blast
  obtain m where m: "exec u (?p @ [?j]) s = Some m" "exec1 u I_ret m = Done t"
    using exec_last [OF t(1)] by blast
  then obtain x where "exec1 u ?j x = Done m"
    using exec_last by blast
  then have em: "eip m = ?b + 28"
    by (auto split: option.splits)
  have "steps u code (length (?p @ [?j])) s = Some m"
    using loaded_prefix assms(1) unfolding c by (intro run_routine [OF _ _ m(1)]) (blast, simp)
  then have "steps u code 9 s = Some m"
    by (simp add: numeral_eq_Suc del: steps.simps)
  moreover have "step u code m = Some t"
    using m(2) assms(1) unfolding c by (simp add: step_def em add.commute [of _ ?b])
  ultimately have "steps u code 10 s = Some t"
    using steps_trans [of u code 9 s m 1] by simp
  with t(2) show ?thesis by blast
qed

end
