(* ===== verification/Exceptions.thy ===== *)
theory Exceptions
  imports Assembler
begin

text \<open>
  The properties of the assembler files: the start of the kernel, the routines that load the
  tables, and what becomes of an exception or interrupt once the tables of \<open>kernel_main\<close> are loaded
  and the exception routines run.
\<close>

subsection \<open>The tables after the start\<close>

text \<open>The gates and the descriptors after the start.\<close>

lemma started_tables:
  assumes "length (gdt_entries s) = 3" "length (idt_entries s) = 256"
    "gdt_entries t = gdt_entries (interrupts_trace dev a s)" "idt_entries t = idt_entries (interrupts_trace dev a s)"
  shows "descriptor t 0 = 0" "flat_segment 0x9A (descriptor t 1)" "flat_segment 0x92 (descriptor t 2)"
    "v < 256 \<Longrightarrow> gate t v = idt_entry_bits (if v \<in> {0, 6, 8, 13, 14} then isr_entry (at_isr a v) 8 0x8E else null_idt_entry)"
  using gdt_init_flat [OF assms(1), of "at_gdt a"] idt_init_gate [OF assms(2), of v "at_idt a" "at_isr a"] assms(3,4)
  by (simp_all add: descriptor_def gate_def interrupts_trace_fields)

definition started :: "layout \<Rightarrow> 'a interrupt_state_scheme \<Rightarrow> bool" where
  "started a s \<longleftrightarrow> gdtr s = \<lparr>gp_limit = 23, gp_base = at_gdt a\<rparr> \<and> idtr s = \<lparr>ip_limit = 0x7FF, ip_base = at_idt a\<rparr>
     \<and> flat_segment 0x9A (descriptor s 1) \<and> flat_segment 0x92 (descriptor s 2)
     \<and> (\<forall>v < 256. gate s v = idt_entry_bits
           (if v \<in> {0, 6, 8, 13, 14} then isr_entry (at_isr a v) 8 0x8E else null_idt_entry))"

lemma kernel_main_started:
  assumes "length (gdt_entries s) = 3" "length (idt_entries s) = 256" "\<forall>h. becomes_ready dev h"
  shows "\<exists>t. kernel_main dev a mbi s = Some (Halted t) \<and> started a t"
proof -
  obtain l where t: "kernel_main dev a mbi s = Some (Halted ((heap_trace dev a mbi s)\<lparr>klog := l,
    io := said_all dev (interrupts_history dev (io s)) (start_messages (mem s) a mbi)\<rparr>))"
    using kernel_main_ready [OF assms(3)] by blast
  let ?t = "(heap_trace dev a mbi s)\<lparr>klog := l,
    io := said_all dev (interrupts_history dev (io s)) (start_messages (mem s) a mbi)\<rparr>"
  have "gdt_entries ?t = gdt_entries (interrupts_trace dev a s)" "gdtr ?t = gdtr (interrupts_trace dev a s)"
    "idt_entries ?t = idt_entries (interrupts_trace dev a s)" "idtr ?t = idtr (interrupts_trace dev a s)"
    by (simp_all add: heap_trace_def)
  with started_tables [OF assms(1,2) this(1,3)] have "started a ?t"
    by (simp add: started_def interrupts_trace_fields)
  with t show ?thesis by blast
qed

text \<open>The tables stay as they are while only memory, ports and registers change.\<close>

lemma started_cong:
  "gdtr t = gdtr s \<Longrightarrow> idtr t = idtr s \<Longrightarrow> gdt_entries t = gdt_entries s \<Longrightarrow> idt_entries t = idt_entries s
   \<Longrightarrow> started a t = started a s"
  by (simp add: started_def descriptor_def gate_def)

lemma started_flat: "started a s \<Longrightarrow> flat_table s"
  by (simp add: started_def flat_table_def flat_segment_def)

lemma started_code_fault: "started a s \<Longrightarrow> code_fault s sl = (if sl = 8 then None else Some 13)"
  by (rule flat_code_fault) (rule started_flat)

lemma null_gate_type: "gate_type (idt_entry_bits null_idt_entry) = 0"
  by (rule bit_word_eqI) (simp add: gate_type_def bit_simps bit_idt_entry_bits null_idt_entry_def)

lemma started_gate:
  assumes "started a s" "v < 256"
  shows "gate_usable s v \<longleftrightarrow> v \<in> {0, 6, 8, 13, 14}"
    "v \<in> {0, 6, 8, 13, 14} \<Longrightarrow> gate_offset (gate s v) = at_isr a v \<and> gate_selector (gate s v) = 8 \<and> gate_type (gate s v) = 0x8E"
    "v \<notin> {0, 6, 8, 13, 14} \<Longrightarrow> second_fault s v = 13"
proof -
  have g: "gate s v = idt_entry_bits (if v \<in> {0, 6, 8, 13, 14} then isr_entry (at_isr a v) 8 0x8E else null_idt_entry)"
    and lim: "8 * v + 7 \<le> unat (ip_limit (idtr s))"
    using assms by (auto simp: started_def)
  show "gate_usable s v \<longleftrightarrow> v \<in> {0, 6, 8, 13, 14}"
    using lim by (simp add: gate_usable_def g isr_entry_gate null_gate started_code_fault [OF assms(1)])
  show "v \<in> {0, 6, 8, 13, 14} \<Longrightarrow> gate_offset (gate s v) = at_isr a v \<and> gate_selector (gate s v) = 8 \<and> gate_type (gate s v) = 0x8E"
    by (simp only: g if_True isr_entry_gate simp_thms)
  show "v \<notin> {0, 6, 8, 13, 14} \<Longrightarrow> second_fault s v = 13"
    by (simp only: second_fault_def g if_False null_gate_type) simp
qed

text \<open>The routines are where the gates lead.\<close>

definition routines :: "layout \<Rightarrow> program \<Rightarrow> bool" where
  "routines a code \<longleftrightarrow> (\<forall>v \<in> {0, 6, 8, 13, 14}. loaded code (at_isr a v) (isr_code v))"

subsection \<open>Entering a routine\<close>

lemma entry_stack:
  fixes s :: "'a cpu_state_scheme" and v :: nat
  defines "d \<equiv> enter v None s"
  shows "regs d = (regs s)(ESP := regs s ESP - 12)" "stack_word 0 d = eip s" "stack_word (Suc 0) d = ucast (sregs s CS)"
    "stack_word 2 d = saved_flags v (eflags s)" "io d = io s"
    "sregs d = (sregs s)(CS := gate_selector (gate s v))" "eip d = gate_offset (gate s v)"
    "mem d = store32 (store32 (store32 (mem s) (regs s ESP - 4) (saved_flags v (eflags s)))
       (regs s ESP - 8) (ucast (sregs s CS))) (regs s ESP - 12) (eip s)"
    "gdtr d = gdtr s" "idtr d = idtr s" "gdt_entries d = gdt_entries s" "idt_entries d = idt_entries s"
  by (simp_all add: d_def enter_def cpu_defs Let_def mem_simps)

lemma entry_stack_error:
  fixes s :: "'a cpu_state_scheme" and v :: nat and e :: u32
  defines "d \<equiv> enter v (Some e) s"
  shows "regs d = (regs s)(ESP := regs s ESP - 16)" "stack_word 0 d = e" "stack_word (Suc 0) d = eip s" "io d = io s"
    "eip d = gate_offset (gate s v)"
    "gdtr d = gdtr s" "idtr d = idtr s" "gdt_entries d = gdt_entries s" "idt_entries d = idt_entries s"
  by (simp_all add: d_def enter_def cpu_defs Let_def mem_simps)

lemma ucast_u16_u32 [simp]: "ucast (ucast (w :: u16) :: u32) = w"
  by (rule bit_word_eqI) (simp add: bit_simps)

subsection \<open>The routines of exceptions without an error code\<close>

lemma skip_routine:
  assumes "started a s" "routines a code" "v \<in> {0, 6}" "sregs s CS = 8"
  shows "\<exists>d t. deliver u ext v None s = Some d \<and> steps u code 9 d = Some t
    \<and> eip t = eip s + 2 \<and> regs t = (regs s)(EDX := after_out (regs s EDX)) \<and> sregs t = sregs s
    \<and> eflags t = saved_flags v (eflags s) \<and> io t = io s @ [Outb 0x3F8 (isr_letter v)]
    \<and> (\<forall>x. x \<notin> span (regs s ESP - 20) 20 \<longrightarrow> mem t x = mem s x) \<and> started a t"
proof -
  let ?d = "enter v None s" and ?c = "skip_code (isr_letter v)"
  have v: "v < 256" "v \<in> {0, 6, 8, 13, 14}"
    using assms(3) by auto
  note g = started_gate [OF assms(1) v(1)]
  have d: "deliver u ext v None s = Some ?d"
    using g(1) v(2) by (simp add: deliver_def)
  have st: "started a ?d"
    using started_cong [of ?d s a] assms(1) by (simp add: entry_stack)
  have e: "eip ?d = at_isr a v" "gate_selector (gate s v) = 8"
    using g(2) [OF v(2)] by (simp_all add: entry_stack)
  have "loaded code (eip ?d) (isr_code v)"
    using assms(2) v(2) unfolding e(1) routines_def by blast
  then have l: "loaded code (eip ?d) ?c"
    by (simp only: isr_code_shape(1) [OF assms(3)])
  have cf: "code_fault ?d (ucast (stack_word 1 ?d)) = None"
    by (simp add: entry_stack assms(4) started_code_fault [OF st])
  obtain t where t: "exec u ?c ?d = Some t"
    "regs t = (regs ?d)(ESP := regs ?d ESP + 12, EDX := after_out (regs ?d EDX))"
    "mem t = store32 (store32 (store32 (mem ?d) (regs ?d ESP - 4) (regs ?d EAX)) (regs ?d ESP - 8) (regs ?d EBX))
        (regs ?d ESP) (stack_word 0 ?d + 2)"
    "io t = io ?d @ [Outb 0x3F8 (isr_letter v)]" "eip t = stack_word 0 ?d + 2" "eflags t = stack_word 2 ?d"
    "sregs t = (sregs ?d)(CS := ucast (stack_word 1 ?d))"
    "t = ?d\<lparr>regs := regs t, sregs := sregs t, eflags := eflags t, mem := mem t, io := io t, eip := eip t\<rparr>"
    using exec_skip_code [OF cf, of u "isr_letter v"] by blast
  have r: "steps u code 9 ?d = Some t"
    using run_routine [OF l straight_code(1) t(1)] unfolding code_lengths .
  have m: "mem t x = mem s x" if "x \<notin> span (regs s ESP - 20) 20" for x
  proof -
    have "x \<notin> span (regs s ESP - 20 + k) 4" if "unat k + 4 \<le> 20" for k
      using span_offset_subset [OF that, of "regs s ESP - 20"] \<open>x \<notin> _\<close> by blast
    from this [of 0] this [of 4] this [of 8] this [of 12] this [of 16] show ?thesis
      unfolding t(3) by (simp add: entry_stack store32_other)
  qed
  have tabs: "gdtr t = gdtr ?d" "idtr t = idtr ?d" "gdt_entries t = gdt_entries ?d" "idt_entries t = idt_entries ?d"
    by (subst t(8), simp)+
  have "started a t"
    using started_cong [OF tabs] st by simp
  with d r m t e show ?thesis
    by (intro exI [of _ ?d] exI [of _ t]) (simp add: entry_stack fun_upd_twist assms(4) fun_upd_idem)
qed

subsection \<open>The routines of exceptions with an error code\<close>

text \<open>The routines do not remove the error code, so \<open>iret\<close> takes it for the return address and the
  return address for the code segment. Unless the low half of the return address is 8 by chance, that
  raises a general protection exception, whose routine is of the same kind.\<close>

definition error_routines :: "layout \<Rightarrow> addr set" where
  "error_routines a = (\<Union>v \<in> {8, 13, 14}. code_addrs (at_isr a v) (isr_code v))"

lemma print_round:
  assumes "started a s" "routines a code" "v \<in> {8, 13, 14}" "eip s = at_isr a v"
    "ucast (stack_word 1 s) \<noteq> (8 :: u16)"
  shows "\<exists>t. steps u code 6 s = Some t \<and> eip t = at_isr a 13 \<and> stack_word 1 t = at_isr a v + 9
    \<and> regs t = (regs s)(ESP := regs s ESP - 16, EDX := after_out (regs s EDX))
    \<and> io t = io s @ [Outb 0x3F8 (isr_letter v)] \<and> started a t \<and> stays u code (error_routines a) 6 s"
proof -
  let ?c = "print_code (isr_letter v)"
  have v: "v \<in> {0, 6, 8, 13, 14}"
    using assms(3) by auto
  have "loaded code (eip s) (isr_code v)"
    using assms(2) v unfolding assms(4) routines_def by blast
  then have l: "loaded code (eip s) (?c @ [I_iret])"
    by (simp only: isr_code_shape(2) [OF assms(3)])
  then have l1: "loaded code (eip s) ?c" "code (eip s + 9) = Some I_iret"
    by (simp_all add: print_code_def add.commute [of _ "eip s"])
  obtain t where t: "exec u ?c s = Some t" "regs t = (regs s)(EDX := after_out (regs s EDX))"
    "mem t = store32 (mem s) (regs s ESP - 4) (regs s EAX)" "io t = io s @ [Outb 0x3F8 (isr_letter v)]" "eip t = eip s + 9"
    "t = s\<lparr>regs := regs t, mem := mem t, io := io t, eip := eip t\<rparr>"
    using exec_print_code [of u "isr_letter v" s] by blast
  have tabs: "gdtr t = gdtr s" "idtr t = idtr s" "gdt_entries t = gdt_entries s" "idt_entries t = idt_entries s"
    by (subst t(6), simp)+
  then have st: "started a t"
    using started_cong [OF tabs] assms(1) by simp
  have r: "steps u code 5 s = Some t"
    using run_routine [OF l1(1) straight_code(2) t(1)] unfolding code_lengths .
  have sw: "stack_word 1 t = stack_word 1 s"
    by (simp add: stack_word_def t(2,3) mem_simps)
  let ?e = "selector_error (ucast (stack_word 1 t))"
  let ?t = "enter 13 (Some ?e) t"
  have g: "gate_usable t 13" "gate_offset (gate t 13) = at_isr a 13"
    using started_gate(1,2) [OF st, of 13] by auto
  have "exec1 u I_iret t = Fault 13 ?e"
    using assms(5) sw by (simp add: started_code_fault [OF st] Let_def)
  then have f: "step u code t = Some ?t"
    using l1(2) g(1) by (simp add: step_def t(5) deliver_def)
  have "started a ?t"
    using started_cong [of ?t t a] st by (simp add: entry_stack_error)
  moreover have r6: "steps u code 6 s = Some ?t"
    using steps_trans [OF r, of 1] f by simp
  moreover have "stays u code (error_routines a) 6 s"
  proof -
    have "stays u code (code_addrs (eip s) ?c) 5 s"
      using stays_routine [OF l1(1) sequential_print t(1)] unfolding code_lengths .
    then have "stays u code (error_routines a) 5 s"
      by (rule stays_mono) (use assms(3,4) in \<open>auto simp: error_routines_def isr_code_shape print_code_def\<close>)
    moreover have "eip t \<in> error_routines a"
      using assms(3,4) t(5) by (auto simp: error_routines_def isr_code_shape print_code_def)
    then have "stays u code (error_routines a) (Suc 0) t"
      using f by (intro stays_Suc) simp_all
    ultimately show ?thesis
      using stays_trans [OF _ r] by fastforce
  qed
  ultimately show ?thesis
    using t(2,4,5) assms(4) g(2)
    by (intro exI [of _ ?t]) (simp add: entry_stack_error fun_upd_twist)
qed

lemma general_protection_rounds:
  assumes "started a s" "routines a code" "eip s = at_isr a 13" "ucast (stack_word 1 s) \<noteq> (8 :: u16)"
    "ucast (at_isr a 13 + 9) \<noteq> (8 :: u16)"
  shows "\<exists>t. steps u code (6 * n) s = Some t \<and> eip t = at_isr a 13 \<and> regs t ESP = regs s ESP - 16 * of_nat n
    \<and> io t = io s @ replicate n (Outb 0x3F8 (isr_letter 13)) \<and> stays u code (error_routines a) (6 * n) s"
  using assms(1,3,4)
proof (induction n arbitrary: s)
  case (Suc n)
  obtain t where t: "steps u code 6 s = Some t" "eip t = at_isr a 13" "stack_word 1 t = at_isr a 13 + 9"
    "regs t = (regs s)(ESP := regs s ESP - 16, EDX := after_out (regs s EDX))"
    "io t = io s @ [Outb 0x3F8 (isr_letter 13)]" "started a t" "stays u code (error_routines a) 6 s"
    using print_round [OF Suc.prems(1) assms(2) _ Suc.prems(2,3)] by auto
  have "ucast (stack_word 1 t) \<noteq> (8 :: u16)"
    using assms(5) by (simp only: t(3) simp_thms)
  from Suc.IH [OF t(6,2) this] obtain r where r: "steps u code (6 * n) t = Some r" "eip r = at_isr a 13"
    "regs r ESP = regs t ESP - 16 * of_nat n" "io r = io t @ replicate n (Outb 0x3F8 (isr_letter 13))"
    "stays u code (error_routines a) (6 * n) t"
    by blast
  have "6 * Suc n = 6 + 6 * n"
    by simp
  then show ?case
    using steps_trans [OF t(1) r(1)] stays_trans [OF t(7,1) r(5)] r(2-4) t(4,5)
    by (intro exI [of _ r]) (simp add: algebra_simps)
qed simp

text \<open>Every exception and interrupt but 0 and 6, and but the three without a gate that come while another
  exception is delivered (10, 11, 12), ends in one of these routines.\<close>

lemma error_entry:
  assumes "started a s" "v < 256" "v \<notin> {0, 6, 10, 11, 12}" "v \<in> {8, 13, 14} \<Longrightarrow> err \<noteq> None"
  defines "w \<equiv> if v \<in> {8, 14} then v else 13"
  shows "\<exists>d. deliver u ext v err s = Some d \<and> w \<in> {8, 13, 14} \<and> eip d = at_isr a w \<and> stack_word 1 d = eip s
    \<and> regs d ESP = regs s ESP - 16 \<and> io d = io s \<and> started a d"
proof -
  have gates: "gate_usable s w" "gate_offset (gate s w) = at_isr a w" "w \<in> {8, 13, 14}"
    using started_gate(1,2) [OF assms(1), of w] by (auto simp: w_def)
  have "\<exists>e. deliver u ext v err s = Some (enter w (Some e) s)"
  proof (cases "v \<in> {8, 13, 14}")
    case True
    then have "w = v" by (auto simp: w_def)
    with assms(4) [OF True] gates(1) show ?thesis
      by (auto simp: deliver_def)
  next
    case False
    with assms(3) have v: "v \<notin> {0, 6, 8, 13, 14}" "v \<noteq> 8" "w = 13" "\<not> contributory v"
      by (auto simp: w_def contributory_def)
    moreover have "second_fault s v = 13" "\<not> gate_usable s v"
      using started_gate(1,3) [OF assms(1,2)] v(1) by blast+
    ultimately have "deliver u ext v err s = Some (enter w (Some (of_nat (8 * v + 2 + (if ext then 1 else 0)))) s)"
      using gates(1) by (simp add: deliver_def)
    then show ?thesis by blast
  qed
  then obtain e where d: "deliver u ext v err s = Some (enter w (Some e) s)"
    by blast
  have "started a (enter w (Some e) s)"
    using started_cong [of "enter w (Some e) s" s a] assms(1) by (simp add: entry_stack_error)
  with d gates(2,3) show ?thesis
    by (intro exI [of _ "enter w (Some e) s"]) (simp add: entry_stack_error)
qed

lemma error_overrun:
  assumes "started a s" "routines a code" "v < 256" "v \<notin> {0, 6, 10, 11, 12}" "v \<in> {8, 13, 14} \<Longrightarrow> err \<noteq> None"
    and "ucast (eip s) \<noteq> (8 :: u16)" "\<And>w. w \<in> {8, 13, 14} \<Longrightarrow> ucast (at_isr a w + 9) \<noteq> (8 :: u16)"
    and "32 \<le> unat bottom" "bottom \<le> regs s ESP" "unat (regs s ESP) \<le> unat bottom + 16384"
  shows "\<exists>d n t k. deliver u ext v err s = Some d \<and> steps u code n d = Some t \<and> n \<le> 6150
    \<and> stays u code (error_routines a) n d \<and> eip t = at_isr a 13 \<and> regs t ESP < bottom
    \<and> io t = io s @ Outb 0x3F8 (isr_letter (if v \<in> {8, 14} then v else 13)) # replicate k (Outb 0x3F8 (isr_letter 13))"
proof -
  let ?w = "if v \<in> {8, 14} then v else 13" and ?E = "regs s ESP"
  obtain d where d: "deliver u ext v err s = Some d" "?w \<in> {8, 13, 14}" "eip d = at_isr a ?w" "stack_word 1 d = eip s"
    "regs d ESP = ?E - 16" "io d = io s" "started a d"
    using error_entry [OF assms(1,3,4,5)] by blast
  have "ucast (stack_word 1 d) \<noteq> (8 :: u16)"
    using assms(6) by (simp only: d(4) simp_thms)
  from print_round [OF d(7) assms(2) d(2,3) this] obtain r where r: "steps u code 6 d = Some r" "eip r = at_isr a 13"
    "stack_word 1 r = at_isr a ?w + 9" "regs r = (regs d)(ESP := regs d ESP - 16, EDX := after_out (regs d EDX))"
    "io r = io d @ [Outb 0x3F8 (isr_letter ?w)]" "started a r" "stays u code (error_routines a) 6 d"
    by blast
  let ?n = "(unat ?E - unat bottom) div 16"
  have "ucast (stack_word 1 r) \<noteq> (8 :: u16)"
    using assms(7) [OF d(2)] by (simp only: r(3) simp_thms)
  from general_protection_rounds [OF r(6) assms(2) r(2) this assms(7)] obtain t where t:
    "steps u code (6 * ?n) r = Some t" "eip t = at_isr a 13" "regs t ESP = regs r ESP - 16 * of_nat ?n"
    "io t = io r @ replicate ?n (Outb 0x3F8 (isr_letter 13))" "stays u code (error_routines a) (6 * ?n) r"
    by blast
  have b: "unat bottom \<le> unat ?E"
    using assms(9) by (simp add: word_le_nat_alt)
  have fits: "32 + 16 * ?n \<le> unat ?E" "32 + 16 * ?n < 4294967296"
    using b assms(8) unat32_less [of ?E] by linarith+
  have sp: "regs t ESP = ?E - of_nat (32 + 16 * ?n)"
    by (simp add: t(3) r(4) d(5))
  have "(of_nat (32 + 16 * ?n) :: addr) \<le> ?E"
    using fits by (simp only: word_le_nat_alt unat_of_nat32)
  then have "unat (regs t ESP) = unat ?E - (32 + 16 * ?n)"
    unfolding sp using fits(2) by (simp only: unat_diff_le unat_of_nat32)
  then have "regs t ESP < bottom"
    unfolding word32_less_nat using b assms(8) by linarith
  moreover have "6 + 6 * ?n \<le> 6150"
    using assms(10) by linarith
  ultimately show ?thesis
    using d(1) steps_trans [OF r(1) t(1)] stays_trans [OF r(7,1) t(5)] t(2,4) r(5) d(6)
    by (intro exI [of _ d] exI [of _ "6 + 6 * ?n"] exI [of _ t] exI [of _ ?n]) simp
qed

subsection \<open>Properties\<close>

text \<open>A text with the five routines at the addresses of a layout, for the witnesses, and a processor in
  the middle of the kernel, with 16 KB of stack from 0x114000 on.\<close>

definition start_layout :: layout where
  "start_layout = \<lparr>at_gdt = 0x110000, at_idt = 0x111000, at_isr = (\<lambda>n. 0x100000 + 32 * of_nat n), at_end = 0x120000\<rparr>"

definition kernel_text :: program where
  "kernel_text = fold (\<lambda>v. place (at_isr start_layout v) (isr_code v)) [0, 6, 8, 13, 14]
     (place 0x100400 (start_code 0x100400 0x118000 0x100800) Map.empty)"

definition cpu_reset :: cpu_state where
  "cpu_reset = interrupt_state.extend no_interrupts
     \<lparr>regs = (\<lambda>r. if r = EAX then 0x2BADB002 else if r = EBX then 0x9000 else if r = ESP then 0x118000 else 0),
      sregs = (\<lambda>q. 8), eip = 0x100400, eflags = 2\<rparr>"

definition some_unknowns :: unknowns where
  "some_unknowns = \<lparr>add_flags = (\<lambda>f a b. f), double_fault_cs = 0, double_fault_eip = 0\<rparr>"

lemma kernel_text_loaded:
  "routines start_layout kernel_text" "loaded kernel_text 0x100400 (start_code 0x100400 0x118000 0x100800)"
  by (simp_all add: routines_def kernel_text_def start_layout_def isr_code_def isr0_code_def isr6_code_def isr8_code_def
      isr13_code_def isr14_code_def start_code_def)

lemma no_interrupts_fields:
  "length (gdt_entries no_interrupts) = 3" "length (idt_entries no_interrupts) = 256" "length (irq_handlers no_interrupts) = 16"
  "mem no_interrupts = (\<lambda>_. 0)" "io no_interrupts = []"
  by (simp_all add: no_interrupts_def interrupt_state.defs gdt_state.defs no_tables_def)

lemma cpu_reset_fields:
  "length (gdt_entries cpu_reset) = 3" "length (idt_entries cpu_reset) = 256" "mem cpu_reset = (\<lambda>_. 0)" "io cpu_reset = []"
  "regs cpu_reset EAX = 0x2BADB002" "regs cpu_reset EBX = 0x9000" "regs cpu_reset ESP = 0x118000" "eip cpu_reset = 0x100400"
  "sregs cpu_reset q = 8"
  using no_interrupts_fields by (simp_all add: cpu_reset_def interrupt_state.defs)

lemma always_on: "\<forall>h. becomes_ready (\<lambda>_ _. 0x20) h"
  unfolding becomes_ready_def by (intro allI exI [of _ 0]) (simp add: status_def)

lemma cpu_started:
  obtains t where "kernel_main (\<lambda>_ _. 0x20) start_layout 0x9000 cpu_reset = Some (Halted t)" "started start_layout t"
  using kernel_main_started [OF cpu_reset_fields(1,2) always_on] by blast

text \<open>C24. The entry point passes the wrong argument. \<open>start\<close> pushes \<open>ebx\<close> and then \<open>eax\<close>, so the only
  parameter of \<open>kernel_main\<close> is the magic number that the boot loader left in \<open>eax\<close>; the address of its
  information, in \<open>ebx\<close>, is a second argument that nobody reads. When the serial port becomes ready after
  every history, \<open>kernel_main\<close> then runs through and has set up the heap from what memory holds at the address
  0x2BADB002.\<close>

theorem start_passes_magic:
  fixes s :: "'a cpu_state_scheme"
  assumes "loaded code base (start_code base stack_top kernel_main_addr)" "eip s = base" "regs s EAX = 0x2BADB002"
    "12 \<le> unat stack_top" "stack_top \<le> 0x2BADB002"
  shows "\<exists>t h. steps u code 5 s = Some t \<and> eip t = kernel_main_addr \<and> regs t ESP = stack_top - 12
    \<and> stack_word 1 t = 0x2BADB002 \<and> stack_word 2 t = regs s EBX
    \<and> ((\<forall>h. becomes_ready dev h) \<longrightarrow> kernel_main dev a (stack_word 1 t) t = Some (Halted h)
        \<and> total_memory (mm_stats h) = available_memory (mem s) 0x2BADB002)"
proof -
  let ?c = "[I_cli, I_mov ESP stack_top, I_push EBX, I_push EAX, I_call kernel_main_addr]"
  have "loaded code (eip s) ?c"
    using loaded_prefix [of code base ?c "[I_cli, I_hlt, I_jmp (base + 14)]"] assms(1,2) by (simp add: start_code_def)
  from run_routine [OF this _ start_routine] obtain t where t: "steps u code (length ?c) s = Some t"
    "eip t = kernel_main_addr" "regs t ESP = stack_top - 12"
    "mem t = store32 (store32 (store32 (mem s) (stack_top - 4) (regs s EBX)) (stack_top - 8) (regs s EAX))
       (stack_top - 12) (13 + eip s)"
    by fastforce
  have r: "steps u code 5 s = Some t"
    using t(1) by (simp add: numeral_eq_Suc)
  have args: "stack_word 1 t = 0x2BADB002" "stack_word 2 t = regs s EBX"
    using assms(3) by (simp_all add: stack_word_def t(3,4) mem_simps)
  have keep: "mem t x = mem s x" if x: "0x2BADB002 \<le> unat x" for x
  proof -
    have "x \<notin> span (stack_top - k) 4" if "4 \<le> unat k" "unat k \<le> 12" for k
    proof -
      have "unat (stack_top - k) = unat stack_top - unat k"
        using that assms(4) by (intro unat_diff_le) (simp add: word_le_nat_alt)
      with that x assms(4,5) show ?thesis
        by (simp add: in_span_nowrap word_le_nat_alt) linarith
    qed
    from this [of 4] this [of 8] this [of 12] show ?thesis
      by (simp add: t(4) store32_other)
  qed
  have "available_memory (mem t) 0x2BADB002 = available_memory (mem s) 0x2BADB002"
    by (simp add: available_memory_def mb_flags_def mb_mem_lower_def mb_mem_upper_def load32_def keep)
  moreover obtain h where "(\<forall>h. becomes_ready dev h) \<longrightarrow> kernel_main dev a 0x2BADB002 t = Some (Halted h)
      \<and> total_memory (mm_stats h) = available_memory (mem t) 0x2BADB002"
  proof (cases "\<forall>h. becomes_ready dev h")
    case True
    then obtain l i where k: "kernel_main dev a 0x2BADB002 t
        = Some (Halted ((heap_trace dev a 0x2BADB002 t)\<lparr>klog := l, io := i\<rparr>))"
      using kernel_main_ready [of dev a "0x2BADB002" t] by blast
    show ?thesis
      using k by (intro that [of "(heap_trace dev a 0x2BADB002 t)\<lparr>klog := l, io := i\<rparr>"])
        (simp add: heap_trace_def mm_init_fields interrupts_trace_fields)
  qed (use that in blast)
  ultimately show ?thesis
    using r t(2,3) args by - (rule exI [of _ t], rule exI [of _ h], simp)
qed

theorem start_passes_magic_witness:
  "\<exists>t h. steps some_unknowns kernel_text 5 cpu_reset = Some t \<and> stack_word 1 t = 0x2BADB002 \<and> stack_word 2 t = 0x9000
    \<and> kernel_main (\<lambda>_ _. 0x20) start_layout (stack_word 1 t) t = Some (Halted h)
    \<and> total_memory (mm_stats h) = 0x4000000"
proof -
  have "available_memory (mem cpu_reset) 0x2BADB002 = 0x4000000"
    by (simp add: available_memory_def mb_flags_def load32_def cpu_reset_fields)
  with start_passes_magic [OF kernel_text_loaded(2), where s = cpu_reset and u = some_unknowns and dev = "\<lambda>_ _. 0x20"
      and a = start_layout] always_on
  show ?thesis
    by (auto simp: cpu_reset_fields)
qed

text \<open>C23. The division error and the invalid opcode are skipped. On the tables of \<open>kernel_main\<close> such an
  exception, delivered on any stack, is back after nine instructions, two bytes behind the instruction
  that raised it, with the flags restored (but for the resume flag), with every register but \<open>edx\<close>
  and every byte of memory but the 20 below the stack. The low half of \<open>edx\<close> is lost.\<close>

theorem exception_skips:
  fixes s :: "'a cpu_state_scheme"
  assumes "started a s" "routines a code" "v \<in> {0, 6}" "sregs s CS = 8"
  shows "\<exists>d t. deliver u ext v None s = Some d \<and> steps u code 9 d = Some t
    \<and> eip t = eip s + 2 \<and> regs t = (regs s)(EDX := after_out (regs s EDX)) \<and> sregs t = sregs s
    \<and> eflags t = eflags s OR 0x10000 \<and> io t = io s @ [Outb 0x3F8 (isr_letter v)]
    \<and> (\<forall>x. x \<notin> span (regs s ESP - 20) 20 \<longrightarrow> mem t x = mem s x) \<and> started a t"
proof -
  have "saved_flags v (eflags s) = eflags s OR 0x10000"
    using assms(3) by (auto simp: saved_flags_def)
  then show ?thesis
    using skip_routine [OF assms, of u ext] by simp
qed

theorem exception_skips_witness:
  "\<exists>s d t. started start_layout (s :: cpu_state) \<and> deliver some_unknowns False 0 None s = Some d
    \<and> steps some_unknowns kernel_text 9 d = Some t \<and> eip t = eip s + 2"
proof -
  obtain h where h: "started start_layout (h :: cpu_state)"
    using cpu_started by blast
  let ?s = "h\<lparr>sregs := (\<lambda>q. 8)\<rparr>"
  have "started start_layout ?s"
    using h started_cong [of ?s h start_layout] by simp
  then show ?thesis
    using exception_skips [OF _ kernel_text_loaded(1), of ?s 0 some_unknowns False] by auto
qed

text \<open>C22. Any vector but 0, 6 and 10 to 12 overruns the stack of the kernel, when the vectors 8, 13 and 14
  come with an error code, as the processor's exceptions do. (A vector 8, 13 or 14 without an error code, as
  an interrupt line that the firmware left there raises it, is not covered: its routine returns; for 10, 11
  and 12 the processor's manual leaves open what is saved.) The routines of the
  double fault, the general protection exception and the page fault leave the error code on the stack,
  and a vector without a gate raises a general protection exception; \<open>iret\<close> then loads the return
  address as code segment, which raises the next one. The processor stays in these routines, printing
  a letter each time, until the stack pointer has left the 16 KB of the stack, at most 6150
  instructions later. The low half of the interrupted instruction's address and those of the return addresses
  in the three routines are assumed not to be 8, the code selector.\<close>

theorem exceptions_overrun_stack:
  fixes s :: "'a cpu_state_scheme"
  assumes "started a s" "routines a code" "v < 256" "v \<notin> {0, 6, 10, 11, 12}" "v \<in> {8, 13, 14} \<Longrightarrow> err \<noteq> None"
    and "ucast (eip s) \<noteq> (8 :: u16)" "\<And>w. w \<in> {8, 13, 14} \<Longrightarrow> ucast (at_isr a w + 9) \<noteq> (8 :: u16)"
    and "32 \<le> unat bottom" "bottom \<le> regs s ESP" "unat (regs s ESP) \<le> unat bottom + unat stack_size"
  shows "\<exists>d n t k. deliver u ext v err s = Some d \<and> steps u code n d = Some t \<and> n \<le> 6150
    \<and> stays u code (error_routines a) n d \<and> eip t = at_isr a 13 \<and> regs t ESP < bottom
    \<and> io t = io s @ Outb 0x3F8 (isr_letter (if v \<in> {8, 14} then v else 13)) # replicate k (Outb 0x3F8 (isr_letter 13))"
  using assms(10) by (intro error_overrun [OF assms(1-9)]) (simp_all add: stack_size_def)

theorem exceptions_overrun_stack_witness:
  "\<exists>s d n t. started start_layout (s :: cpu_state) \<and> deliver some_unknowns False 14 (Some 2) s = Some d
    \<and> steps some_unknowns kernel_text n d = Some t \<and> regs s ESP = 0x117F00 \<and> regs t ESP < 0x114000"
proof -
  obtain h where h: "started start_layout (h :: cpu_state)"
    using cpu_started by blast
  let ?s = "h\<lparr>eip := 0x100500, regs := (\<lambda>r. 0x117F00)\<rparr>"
  have "started start_layout ?s"
    using h started_cong [of ?s h start_layout] by simp
  moreover have "ucast (at_isr start_layout w + 9) \<noteq> (8 :: u16)" if "w \<in> {8, 13, 14}" for w
    using that by (auto simp: start_layout_def)
  ultimately obtain d n t where "deliver some_unknowns False 14 (Some 2) ?s = Some d"
    "steps some_unknowns kernel_text n d = Some t" "regs t ESP < 0x114000"
    using exceptions_overrun_stack [OF _ kernel_text_loaded(1), of ?s 14 "Some 2" "0x114000" some_unknowns False]
    by (auto simp: stack_size_def)
  then show ?thesis
    using \<open>started start_layout ?s\<close> by (intro exI [of _ ?s] exI [of _ d] exI [of _ n] exI [of _ t]) simp
qed

text \<open>C25. The routines that load the tables implement the operations of the model. Called with the
  address of the packed pointer on the stack, \<open>load_idt\<close> and \<open>gdt_flush\<close> return to the caller with
  the register loaded as the model says, and \<open>gdt_flush\<close>, on the table that \<open>init_gdt\<close> has written,
  without a fault, with the code selector 8 and the data selector 16 in all segment registers; besides
  these they change \<open>eax\<close> only.\<close>

theorem table_routines_refine:
  fixes s r :: "'a cpu_state_scheme"
  assumes "loaded code (eip s) (gdt_flush_code (eip s))" "holds_gdt_ptr (stack_word 1 s) s" "flat_table (gdt_flush s)"
    and "loaded code (eip r) load_idt_code" "holds_idt_ptr (stack_word 1 r) r"
  shows "(\<exists>t. steps u code 10 s = Some t
      \<and> t = (gdt_flush s)\<lparr>regs := (regs s)(EAX := regs t EAX, ESP := regs s ESP + 4), eip := stack_word 0 s,
          sregs := (\<lambda>q. if q = CS then 8 else 0x10)\<rparr>)
    \<and> steps u code 3 r = Some ((load_idt r)\<lparr>regs := (regs r)(EAX := stack_word 1 r, ESP := regs r ESP + 4),
          eip := stack_word 0 r\<rparr>)"
  using gdt_flush_steps [OF assms(1-3)] load_idt_steps [OF assms(4,5)] by blast

theorem table_routines_refine_witness:
  "\<exists>s r t. steps some_unknowns (place 0x100600 (gdt_flush_code 0x100600) (place 0x100700 load_idt_code Map.empty)) 10 s = Some t
    \<and> gdtr t = \<lparr>gp_limit = 23, gp_base = 0x110000\<rparr> \<and> sregs (t :: cpu_state) DS = 0x10
    \<and> steps some_unknowns (place 0x100600 (gdt_flush_code 0x100600) (place 0x100700 load_idt_code Map.empty)) 3 (r :: cpu_state) \<noteq> None"
proof -
  let ?code = "place 0x100600 (gdt_flush_code 0x100600) (place 0x100700 load_idt_code Map.empty)"
  let ?m = "store32 (store16 (store32 (\<lambda>_. 0) 0x5002 0x110000) 0x5000 23) 0x117004 0x5000"
  let ?g = "gdt_init 0x110000 cpu_reset"
  let ?s = "?g\<lparr>mem := ?m, regs := (\<lambda>r. 0x117000), eip := 0x100600\<rparr>"
  let ?r = "cpu_reset\<lparr>idt_ptr := \<lparr>ip_limit = 23, ip_base = 0x110000\<rparr>, mem := ?m, regs := (\<lambda>r. 0x117000), eip := 0x100700\<rparr>"
  have m: "load32 ?m 0x117004 = 0x5000" "load16 ?m 0x5000 = 23" "load32 ?m 0x5002 = 0x110000"
    by (simp_all add: load32_def load16_def store32_def store16_def)
  have p: "gdt_ptr ?g = \<lparr>gp_limit = 23, gp_base = 0x110000\<rparr>"
    by (simp add: gdt_init_def init_gdt_def gdt_set_gate_def gdt_flush_def Let_def sizeof_gdt_entry_def printk_def)
  have "loaded ?code (eip ?s) (gdt_flush_code (eip ?s))"
    by (simp add: gdt_flush_code_def load_idt_code_def)
  moreover have "loaded ?code (eip ?r) load_idt_code"
    by (simp add: gdt_flush_code_def load_idt_code_def)
  moreover have "holds_gdt_ptr (stack_word 1 ?s) ?s" "holds_idt_ptr (stack_word 1 ?r) ?r"
    using m p by (simp_all add: holds_gdt_ptr_def holds_idt_ptr_def stack_word_def)
  moreover have "flat_table (gdt_flush ?s)"
    using gdt_init_flat [OF cpu_reset_fields(1), of "0x110000"] p
    by (simp add: flat_table_def flat_segment_def gdt_flush_def descriptor_def)
  ultimately obtain t where t: "steps some_unknowns ?code 10 ?s = Some t"
    "t = (gdt_flush ?s)\<lparr>regs := (regs ?s)(EAX := regs t EAX, ESP := regs ?s ESP + 4), eip := stack_word 0 ?s,
          sregs := (\<lambda>q. if q = CS then 8 else 0x10)\<rparr>"
    and r: "steps some_unknowns ?code 3 ?r \<noteq> None"
    using table_routines_refine [of ?code ?s ?r some_unknowns] by blast
  have "gdtr t = \<lparr>gp_limit = 23, gp_base = 0x110000\<rparr>" "sregs t DS = 0x10"
    by (subst t(2), simp add: gdt_flush_def p)+
  with t(1) r show ?thesis by blast
qed

text \<open>An interrupt line that is served before the controllers are initialised is dead. Line 0, which
  the firmware left at vector 8, is delivered to the routine of the double fault. Without an error code
  that routine does return to the interrupted instruction, with the low half of \<open>edx\<close> lost; but it
  sends no end of interrupt, so the controller delivers no further one.\<close>

theorem early_interrupt_unacknowledged:
  fixes s :: "'a cpu_state_scheme"
  assumes "started a s" "routines a code" "sregs s CS = 8"
  shows "\<exists>d t. deliver u True 8 None s = Some d \<and> steps u code 6 d = Some t
    \<and> eip t = eip s \<and> regs t = (regs s)(EDX := after_out (regs s EDX)) \<and> sregs t = sregs s \<and> eflags t = eflags s
    \<and> eois (pic_after PIC1_COMMAND c (io t)) = eois (pic_after PIC1_COMMAND c (io s))"
proof -
  let ?d = "enter 8 None s" and ?c = "print_code (isr_letter 8)"
  have g: "gate_usable s 8" "gate_offset (gate s 8) = at_isr a 8" "gate_selector (gate s 8) = 8"
    using started_gate(1,2) [OF assms(1), of 8] by auto
  have d: "deliver u True 8 None s = Some ?d"
    using g(1) by (simp add: deliver_def)
  have st: "started a ?d"
    using started_cong [of ?d s a] assms(1) by (simp add: entry_stack)
  have e: "eip ?d = at_isr a 8"
    using g(2) by (simp add: entry_stack)
  have "loaded code (eip ?d) (isr_code 8)"
    using assms(2) unfolding e routines_def by blast
  then have l: "loaded code (eip ?d) (?c @ [I_iret])"
    using isr_code_shape(2) [of 8] by simp
  obtain t where t: "exec u ?c ?d = Some t" "regs t = (regs ?d)(EDX := after_out (regs ?d EDX))"
    "mem t = store32 (mem ?d) (regs ?d ESP - 4) (regs ?d EAX)" "io t = io ?d @ [Outb 0x3F8 (isr_letter 8)]"
    "t = ?d\<lparr>regs := regs t, mem := mem t, io := io t, eip := eip t\<rparr>"
    using exec_print_code [of u "isr_letter 8" ?d] by blast
  have tabs: "gdtr t = gdtr ?d" "idtr t = idtr ?d" "gdt_entries t = gdt_entries ?d" "idt_entries t = idt_entries ?d"
    and sr: "sregs t = sregs ?d"
    by (subst t(5), simp)+
  have st': "started a t"
    using started_cong [OF tabs] st by simp
  have sw: "stack_word 0 t = eip s" "stack_word 1 t = ucast (sregs s CS)" "stack_word 2 t = saved_flags 8 (eflags s)"
    using entry_stack(2,3,4) [of 8 s] by (simp_all add: stack_word_def t(2,3) mem_simps)
  let ?t = "(set_sreg CS 8 (set_reg ESP (regs t ESP + 12) t))\<lparr>eip := eip s, eflags := eflags s\<rparr>"
  have "exec u (?c @ [I_iret]) ?d = Some ?t"
    using sw by (simp add: exec_append t(1) assms(3) started_code_fault [OF st'] saved_flags_def)
  from run_routine [OF l straight_code(3) this] have r: "steps u code 6 ?d = Some ?t"
    by (simp add: code_lengths del: steps.simps)
  moreover have "pic_after PIC1_COMMAND c (io ?t) = pic_after PIC1_COMMAND c (io s)"
    by (simp add: set_sreg_def set_reg_def t(4) entry_stack pic_ports)
  ultimately show ?thesis
    using d t(2) assms(3) g(3) sr
    by (intro exI [of _ ?d] exI [of _ ?t]) (simp add: entry_stack set_sreg_def set_reg_def fun_upd_twist fun_upd_idem)
qed

end
