(* ===== verification/Self_Tests.thy ===== *)
theory Self_Tests
  imports Mm_Props Console Interrupts Initrd_Fs
begin

text \<open>
  The tests the kernel carries with it: modules/tests/kernel/mm/mm_tests.c, which run on the kernel
  heap, modules/tests/kernel/interrupts/interrupt_tests.c and modules/tests/kernel/test.c. A test reports through debug.c; a failed
  assertion halts the machine, which is the outcome \<open>Halted\<close>.
\<close>

subsection \<open>Assertions\<close>

text \<open>The heap together with the static variable of debug.c.\<close>

record test_state = mm_state +
  test_name :: addr

definition debug_view :: "'a test_state_scheme \<Rightarrow> debug_state" where
  "debug_view s = \<lparr>mem = mem s, klog = klog s, io = io s, current_test = test_name s\<rparr>"

definition with_debug :: "debug_state \<Rightarrow> 'a test_state_scheme \<Rightarrow> 'a test_state_scheme" where
  "with_debug d s = s\<lparr>mem := mem d, klog := klog d, io := io d, test_name := current_test d\<rparr>"

text \<open>Where the compiler puts the literals, the file's name (\<open>__FILE__\<close>) and the two buffers of \<open>debug_assert\<close>.\<close>

record literals =
  literal :: "string \<Rightarrow> addr"
  test_file :: addr
  assert_buffer :: addr
  assert_message :: addr

definition test_start :: "literals \<Rightarrow> string \<Rightarrow> 'a test_state_scheme \<Rightarrow> 'a test_state_scheme" where
  "test_start l name s = with_debug (debug_test_start (literal l name) (debug_view s)) s"

definition test_end :: "'a test_state_scheme \<Rightarrow> 'a test_state_scheme" where
  "test_end s = with_debug (debug_test_end (debug_view s)) s"

text \<open>The macro of debug.h: the condition is only passed on when it is false.\<close>

definition ASSERT :: "literals \<Rightarrow> bool \<Rightarrow> u32 \<Rightarrow> string \<Rightarrow> 'a test_state_scheme \<Rightarrow> 'a test_state_scheme outcome option" where
  "ASSERT l expr line msg s =
     (if \<not> expr
      then map_option (map_outcome (\<lambda>d. with_debug d s))
             (debug_assert (assert_buffer l) (assert_message l) (literal l ''ASSERTION FAILED in %s at %s:%d: %s'')
               (literal l ''Assertion failed'') False (test_file l) line
               (literal l msg) (debug_view s))
      else Some (Returned s))"

text \<open>Going on after a step that may halt the machine or not return.\<close>

definition and_then :: "'s outcome option \<Rightarrow> ('s \<Rightarrow> 's outcome option) \<Rightarrow> 's outcome option" where
  "and_then r f = (case r of None \<Rightarrow> None | Some (Halted h) \<Rightarrow> Some (Halted h) | Some (Returned s) \<Rightarrow> f s)"

lemma and_then_simps [simp]:
  "and_then (Some (Returned s)) f = f s" "and_then (Some (Halted s)) f = Some (Halted s)" "and_then None f = None"
  by (simp_all add: and_then_def)

subsection \<open>mm_tests.c\<close>

definition test_basic_allocation :: "literals \<Rightarrow> 'a test_state_scheme \<Rightarrow> 'a test_state_scheme outcome option" where
  "test_basic_allocation l s =
     (let s = test_start l ''Basic Allocation'' s in
      do {
        (ptr, s) \<leftarrow> kmalloc 32 s;
        and_then (ASSERT l (ptr \<noteq> NULL) 8 ''Allocate 32 bytes'' s)
          (\<lambda>s. do {
            s \<leftarrow> kfree ptr s;
            Some (Returned (test_end s))
          })
      })"

definition test_oversized_allocation :: "literals \<Rightarrow> 'a test_state_scheme \<Rightarrow> 'a test_state_scheme outcome option" where
  "test_oversized_allocation l s =
     (let s = test_start l ''Oversized Allocation'' s in
      do {
        (large, s) \<leftarrow> kmalloc (1024 * 1024 * 1024) s;
        and_then (ASSERT l (large = NULL) 16 ''Oversized allocation should fail'' s)
          (\<lambda>s. Some (Returned (test_end s)))
      })"

text \<open>The loop that fills the array \<open>blocks\<close>, for \<open>n\<close> more of its elements, and the one that
  releases them.\<close>

fun allocate_blocks :: "literals \<Rightarrow> nat \<Rightarrow> addr list \<Rightarrow> 'a test_state_scheme
    \<Rightarrow> (addr list \<times> 'a test_state_scheme outcome) option" where
  "allocate_blocks l 0 blocks s = Some (blocks, Returned s)"
| "allocate_blocks l (Suc n) blocks s =
     do {
       (b, s) \<leftarrow> kmalloc 32 s;
       r \<leftarrow> ASSERT l (b \<noteq> NULL) 25 ''Allocation #%d'' s;
       (case r of
          Halted h \<Rightarrow> Some (blocks @ [b], Halted h)
        | Returned s \<Rightarrow> allocate_blocks l n (blocks @ [b]) s)
     }"

fun free_blocks :: "addr list \<Rightarrow> 'a test_state_scheme \<Rightarrow> 'a test_state_scheme option" where
  "free_blocks [] s = Some s"
| "free_blocks (b # bs) s = do { s \<leftarrow> kfree b s; free_blocks bs s }"

definition test_multiple_allocations :: "literals \<Rightarrow> 'a test_state_scheme \<Rightarrow> 'a test_state_scheme outcome option" where
  "test_multiple_allocations l s =
     (let s = test_start l ''Multiple Allocations'' s in
      do {
        (blocks, r) \<leftarrow> allocate_blocks l 10 [] s;
        and_then (Some r)
          (\<lambda>s. do {
            s \<leftarrow> free_blocks blocks s;
            Some (Returned (test_end s))
          })
      })"

definition test_fragmentation :: "literals \<Rightarrow> 'a test_state_scheme \<Rightarrow> 'a test_state_scheme outcome option" where
  "test_fragmentation l s =
     (let s = test_start l ''Fragmentation'' s in
      do {
        (block1, s) \<leftarrow> kmalloc 128 s;
        (block2, s) \<leftarrow> kmalloc 128 s;
        s \<leftarrow> kfree block1 s;
        (new_block, s) \<leftarrow> kmalloc 256 s;
        and_then (ASSERT l (new_block \<noteq> NULL) 39 ''Allocation after partial free'' s)
          (\<lambda>s. do {
            s \<leftarrow> kfree block2 s;
            s \<leftarrow> kfree new_block s;
            Some (Returned (test_end s))
          })
      })"

definition test_mixed_sizes :: "literals \<Rightarrow> 'a test_state_scheme \<Rightarrow> 'a test_state_scheme outcome option" where
  "test_mixed_sizes l s =
     (let s = test_start l ''Mixed Sizes'' s in
      do {
        (p1, s) \<leftarrow> kmalloc 8 s;
        (p2, s) \<leftarrow> kmalloc 16 s;
        (p3, s) \<leftarrow> kmalloc 32 s;
        and_then (ASSERT l (p1 \<noteq> NULL \<and> p2 \<noteq> NULL \<and> p3 \<noteq> NULL) 50 ''Allocate mixed sizes'' s)
          (\<lambda>s. do {
            s \<leftarrow> kfree p2 s;
            (p4, s) \<leftarrow> kmalloc 16 s;
            and_then (ASSERT l (p4 \<noteq> NULL) 53 ''Allocation in freed space'' s)
              (\<lambda>s. do {
                s \<leftarrow> kfree p1 s;
                s \<leftarrow> kfree p3 s;
                s \<leftarrow> kfree p4 s;
                Some (Returned (test_end s))
              })
          })
      })"

definition mm_run_all_tests :: "literals \<Rightarrow> 'a test_state_scheme \<Rightarrow> 'a test_state_scheme outcome option" where
  "mm_run_all_tests l s =
     and_then (test_basic_allocation l (printk (''Running memory manager tests...'' @ nl) s)) (\<lambda>s.
     and_then (test_oversized_allocation l s) (\<lambda>s.
     and_then (test_multiple_allocations l s) (\<lambda>s.
     and_then (test_fragmentation l s) (\<lambda>s.
     and_then (test_mixed_sizes l s) (\<lambda>s.
     Some (Returned (printk (''Memory tests completed.'' @ nl) s)))))))"

subsection \<open>interrupt_tests.c\<close>

text \<open>\<open>irq_ack\<close> and \<open>simulate_irq\<close> are stubs.\<close>

definition irq_ack :: "u32 \<Rightarrow> 'a machine_scheme \<Rightarrow> 'a machine_scheme" where
  "irq_ack irq s = s"

definition simulate_irq :: "u32 \<Rightarrow> 'a machine_scheme \<Rightarrow> 'a machine_scheme" where
  "simulate_irq irq s = s"

definition test_irq_handler :: "'a machine_scheme \<Rightarrow> 'a machine_scheme" where
  "test_irq_handler s = irq_ack 0 (printk (''IRQ0 triggered!'' @ nl) s)"

text \<open>\<open>handler\<close> is the address of \<open>test_irq_handler\<close>.\<close>

definition interrupts_run_all_tests :: "addr \<Rightarrow> 'a interrupt_state_scheme \<Rightarrow> 'a interrupt_state_scheme" where
  "interrupts_run_all_tests handler s =
     (let s = printk (''Testing interrupts...'' @ nl) s;
          s = register_irq_handler 0 handler s;
          s = simulate_irq 0 s
      in printk (''Interrupt tests completed.'' @ nl) s)"

definition mm_tests_module_init :: "'a machine_scheme \<Rightarrow> int \<times> 'a machine_scheme" where
  "mm_tests_module_init s = (0, printk (''Memory management tests module initialized (stub)'' @ nl) s)"

definition interrupt_tests_module_init :: "'a machine_scheme \<Rightarrow> int \<times> 'a machine_scheme" where
  "interrupt_tests_module_init s = (0, printk (''Interrupt tests module initialized (stub)'' @ nl) s)"

subsection \<open>test.c\<close>

text \<open>\<open>lit\<close> and \<open>node\<close> are the addresses of fs.c's literals and nodes, \<open>data\<close> is that of the text
  written and \<open>buf\<close> that of the array read into.\<close>

definition test_fs :: "(fs_node_name \<Rightarrow> addr) \<Rightarrow> (fs_node_name \<Rightarrow> addr) \<Rightarrow> addr \<Rightarrow> addr \<Rightarrow> addr
    \<Rightarrow> 'a machine_scheme \<Rightarrow> 'a machine_scheme option" where
  "test_fs lit node path data buf s =
     (let s = printk (''Testing filesystem...'' @ nl) s;
          (r, s) = fs_create path FS_FILE s
      in if r \<noteq> 0 then Some (printk (''Failed to create file'' @ nl) s)
      else do {
        file \<leftarrow> fs_open lit node path s;
        if file = NULL then Some (printk (''Failed to open file'' @ nl) s)
        else do {
          n \<leftarrow> strlen (mem s) data;
          let (written, s) = fs_write file data n s;
          n \<leftarrow> strlen (mem s) data;
          if written \<noteq> n then Some (printk (''Failed to write to file'' @ nl) s)
          else do {
            let (n_read, s) = fs_read file buf 32 s;
            n \<leftarrow> strlen (mem s) data;
            if n_read \<noteq> n then Some (printk (''Failed to read from file'' @ nl) s)
            else do {
              let s = s\<lparr>mem := (mem s)(buf + n_read := 0)\<rparr>;
              let s = printk (''File content: %s'' @ nl) s;
              let s = fs_close file s;
              Some (printk (''Filesystem test passed!'' @ nl) s)
            }
          }
        }
      })"

text \<open>The file system is read-only, so its test can only fail; it does so at its first step.\<close>

theorem test_fs_fails:
  "\<exists>t f. test_fs lit node path data buf s = Some t \<and> mem t = mem s
    \<and> klog t = klog s @ [''Testing filesystem...'' @ nl, f, ''Failed to create file'' @ nl]"
  by (simp add: test_fs_def fs_create_def Let_def)

text \<open>The interrupt test passes without an interrupt: the handler it registers is put in a table nothing
  dispatches from, and the stub that should raise the interrupt does nothing.\<close>

theorem interrupt_tests_vacuous:
  fixes s :: "'a interrupt_state_scheme"
  shows "klog (interrupts_run_all_tests handler s) = klog s @ [''Testing interrupts...'' @ nl,
      ''Registered handler for IRQ %u'' @ nl, ''Interrupt tests completed.'' @ nl]
    \<and> irq_handlers (interrupts_run_all_tests handler s) = irq_handlers s"
  by (simp add: interrupts_run_all_tests_def register_irq_handler_def simulate_irq_def Let_def printk_def)

end
