(* ===== verification/Self_Tests_Props.thy ===== *)
theory Self_Tests_Props
  imports Self_Tests
begin

text \<open>
  The memory manager's own tests pass on every heap that \<open>mm_init\<close> can build: the tests run on the
  abstract heap of Mm_Heap.thy, step by step.
\<close>

text \<open>A heap with known first block, blocks and log, and what an allocation and a release make of it.
  Pointers are offsets from the first block.\<close>

definition heap_with :: "addr \<Rightarrow> string list \<Rightarrow> 'a mm_state_scheme \<Rightarrow> blk list \<Rightarrow> bool" where
  "heap_with h k s bs \<longleftrightarrow> heap_ok s bs \<and> stats_ok s bs \<and> heap_start s = h \<and> klog s = k"

lemma alloc_step:
  assumes "heap_with h k s bs" "0 < unat sz" "unat sz \<le> 4294967288"
    "alloc_abs (align_nat (unat sz)) (unat h) bs = (Some (unat h + n), bs')"
  shows "\<exists>s'. kmalloc sz s = Some (h + of_nat n, s') \<and> h + of_nat n \<noteq> NULL \<and> heap_with h k s' bs'"
proof -
  have hs: "heap_ok s bs" "stats_ok s bs" "heap_start s = h" "klog s = k"
    using assms(1) by (auto simp: heap_with_def)
  let ?n = "align_nat (unat sz)"
  from assms(4) obtain q j where found: "best_scan ?n bs (unat h) None = Some (q, j)"
    and q: "q + 16 = unat h + n" "bs' = carve_at q ?n (unat h) bs"
    by (auto simp: alloc_abs_def split: option.splits)
  have nz: "sz \<noteq> 0"
    using assms(2) by auto
  obtain s' where s': "kmalloc sz s = Some (of_nat (q + 16), s')" "heap_ok s' bs'" "same_heap s s'" "klog s' = klog s"
    "allocated (mm_stats s') + of_nat (used_bytes bs) = allocated (mm_stats s) + of_nat (used_bytes bs')"
    using kmalloc_fit [OF hs(1) nz assms(3), unfolded hs(3), OF found] unfolding q(2) by blast
  obtain xs b ys where "bs = xs @ b # ys" "q = unat h + total xs"
    using best_scan_found [OF found] by metis
  then have "q + 16 < 4294967296"
    using heap_okD(2) [OF hs(1)] hs(3) by simp
  then have "(of_nat (q + 16) :: addr) \<noteq> NULL"
    using of_nat_eq_NULL_iff [of "q + 16"] by linarith
  moreover have "(of_nat (q + 16) :: addr) = h + of_nat n"
    unfolding q(1) by simp
  ultimately show ?thesis
    using s' hs by (intro exI [of _ s']) (simp add: heap_with_def same_heap_def stats_ok_def del: of_nat_add)
qed

lemma free_step:
  assumes "heap_with h k s (xs @ Blk j False # ys)" "n = total xs + 16"
  shows "\<exists>s'. kfree (h + of_nat n) s = Some s' \<and> heap_with h k s' (merge_pass (xs @ Blk j True # ys))"
proof -
  have hs: "heap_ok s (xs @ Blk j False # ys)" "stats_ok s (xs @ Blk j False # ys)" "heap_start s = h" "klog s = k"
    using assms(1) by (auto simp: heap_with_def)
  from kfree_block [OF hs(1)] obtain s' where s': "kfree (of_nat (unat h + total xs + 16)) s = Some s'"
    "heap_ok s' (merge_pass (xs @ Blk j True # ys))" "same_heap s s'" "klog s' = klog s"
    "allocated (mm_stats s') = allocated (mm_stats s) - of_nat (j + 16)"
    unfolding hs(3) blk.sel by blast
  have "(of_nat (unat h + total xs + 16) :: addr) = h + of_nat n"
    by (simp add: assms(2) add.assoc)
  moreover have "stats_ok s' (merge_pass (xs @ Blk j True # ys))"
    using s'(5) hs(2) by (simp add: stats_ok_def)
  ultimately show ?thesis
    using s' hs by (intro exI [of _ s']) (simp add: heap_with_def same_heap_def del: of_nat_add)
qed

lemma heap_with_printk [simp]: "heap_with h k s bs \<Longrightarrow> heap_with h (k @ [f]) (printk f s) bs"
  by (auto simp: heap_with_def heap_ok_def stats_ok_def)

lemma heap_with_start: "heap_with h k s bs \<Longrightarrow> heap_with h (k @ [''Test: %s... '']) (test_start l n s) bs"
  by (auto simp: heap_with_def heap_ok_def stats_ok_def test_start_def with_debug_def debug_view_def debug_test_start_def
      debug_set_test_name_def printk_def)

lemma heap_with_end: "heap_with h k s bs \<Longrightarrow> heap_with h (k @ [''OK'' @ nl]) (test_end s) bs"
  by (auto simp: heap_with_def heap_ok_def stats_ok_def test_end_def with_debug_def debug_view_def debug_test_end_def
      debug_set_test_name_def printk_def)

lemma ASSERT_holds [simp]: "ASSERT l True line msg s = Some (Returned s)"
  by (simp add: ASSERT_def)

text \<open>What a passing test logs.\<close>

abbreviation passed :: "string list" where
  "passed \<equiv> [''Test: %s... '', ''OK'' @ nl]"

lemma basic_passes:
  assumes "heap_with h k s [Blk N True]" "2048 \<le> N"
  shows "\<exists>t. test_basic_allocation l s = Some (Returned t) \<and> heap_with h (k @ passed) t [Blk N True]"
proof -
  let ?k = "k @ [''Test: %s... '']"
  note s0 = heap_with_start [OF assms(1), of l "''Basic Allocation''"]
  obtain s1 where s1: "kmalloc 32 (test_start l ''Basic Allocation'' s) = Some (h + 16, s1)" "h + 16 \<noteq> NULL"
    "heap_with h ?k s1 [Blk 32 False, Blk (N - 48) True]"
    using alloc_step [OF s0, where sz = 32 and n = 16 and bs' = "[Blk 32 False, Blk (N - 48) True]"] assms(2)
    by (auto simp: alloc_abs_def align_nat_def carve_def)
  obtain s2 where s2: "kfree (h + 16) s1 = Some s2" "heap_with h ?k s2 [Blk N True]"
    using free_step [of h ?k s1 "[]" 32 "[Blk (N - 48) True]" 16] s1(3) assms(2) by auto
  show ?thesis
    using s1(1,2) s2(1) heap_with_end [OF s2(2)] by (simp add: test_basic_allocation_def)
qed

lemma oversized_passes:
  assumes "heap_with h k s [Blk N True]" "N < 1073741824"
  shows "\<exists>t. test_oversized_allocation l s = Some (Returned t)
    \<and> heap_with h (k @ [''Test: %s... '', ''kmalloc(%zu) failed! Out of memory'' @ nl, ''OK'' @ nl]) t [Blk N True]"
proof -
  let ?s = "test_start l ''Oversized Allocation'' s" and ?f = "''kmalloc(%zu) failed! Out of memory'' @ nl"
  note s0 = heap_with_start [OF assms(1), of l "''Oversized Allocation''"]
  have "kmalloc 0x40000000 ?s = Some (NULL, printk ?f ?s)"
    using s0 assms(2) by (intro kmalloc_no_fit [where bs = "[Blk N True]"]) (auto simp: heap_with_def align_nat_def)
  then have "test_oversized_allocation l s = Some (Returned (test_end (printk ?f ?s)))"
    by (simp add: test_oversized_allocation_def)
  moreover have "heap_with h ((k @ [''Test: %s... ''] @ [?f]) @ [''OK'' @ nl]) (test_end (printk ?f ?s)) [Blk N True]"
    using heap_with_printk [OF s0, of ?f] by (intro heap_with_end) simp
  ultimately show ?thesis by simp
qed

subsection \<open>Ten blocks\<close>

lemma best_scan_used: "best_scan n (replicate i (Blk j False) @ bs) p b = best_scan n bs (p + i * (16 + j)) b"
  by (induction i arbitrary: p) (simp_all add: algebra_simps)

lemma merge_pass_used: "merge_pass (replicate i (Blk j False) @ [Blk r f]) = replicate i (Blk j False) @ [Blk r f]"
proof (induction i)
  case (Suc i)
  then show ?case by (cases i) auto
qed simp

lemma replicate_end: "replicate i x @ [x, y] = replicate (Suc i) x @ [y]"
  by (induction i) auto

lemma total_used: "total (replicate i (Blk j f)) = i * (16 + j)"
  by (induction i) simp_all

text \<open>The addresses of \<open>n\<close> blocks of 32 bytes behind each other, the first payload at offset \<open>c\<close>.\<close>

fun block_ptrs :: "addr \<Rightarrow> nat \<Rightarrow> nat \<Rightarrow> addr list" where
  "block_ptrs h c 0 = []"
| "block_ptrs h c (Suc n) = (h + of_nat c) # block_ptrs h (c + 48) n"

lemma allocate_blocks_run:
  assumes "heap_with h k s (replicate i (Blk 32 False) @ [Blk M True])" "48 * n + 32 \<le> M"
  shows "\<exists>t. allocate_blocks l n bs s = Some (bs @ block_ptrs h (48 * i + 16) n, Returned t)
    \<and> heap_with h k t (replicate (i + n) (Blk 32 False) @ [Blk (M - 48 * n) True])"
  using assms
proof (induction n arbitrary: i bs s M)
  case (Suc n)
  let ?b = "h + of_nat (48 * i + 16)"
  have "carve_at (unat h + i * 48) 32 (unat h) (replicate i (Blk 32 False) @ [Blk M True])
      = replicate i (Blk 32 False) @ carve 32 (Blk M True)"
    using carve_at_split [of "unat h + i * 48" "unat h" "replicate i (Blk 32 False)" 32 "Blk M True" "[]"]
    by (simp add: total_used)
  then have "alloc_abs (align_nat (unat (32 :: u32))) (unat h) (replicate i (Blk 32 False) @ [Blk M True])
      = (Some (unat h + (48 * i + 16)), replicate i (Blk 32 False) @ [Blk 32 False, Blk (M - 48) True])"
    using Suc.prems(2) by (simp add: alloc_abs_def align_nat_def best_scan_used carve_def)
  from alloc_step [OF Suc.prems(1) _ _ this] obtain s1 where s1: "kmalloc 32 s = Some (?b, s1)" "?b \<noteq> NULL"
    "heap_with h k s1 (replicate (Suc i) (Blk 32 False) @ [Blk (M - 48) True])"
    unfolding replicate_end by auto
  have "48 * n + 32 \<le> M - 48"
    using Suc.prems(2) by simp
  from Suc.IH [OF s1(3) this, of "bs @ [?b]"] obtain t where
    "allocate_blocks l n (bs @ [?b]) s1 = Some ((bs @ [?b]) @ block_ptrs h (48 * Suc i + 16) n, Returned t)"
    "heap_with h k t (replicate (Suc i + n) (Blk 32 False) @ [Blk (M - 48 - 48 * n) True])"
    by blast
  with s1(1,2) show ?case
    by (simp add: add.commute del: of_nat_add of_nat_mult)
qed simp

text \<open>Releasing the blocks behind a free block in order merges each into it; the last block of the heap
  is merged with none.\<close>

lemma free_blocks_run:
  assumes "heap_with h k s (Blk j True # replicate n (Blk 32 False) @ [Blk r True])" "0 < n"
  shows "\<exists>t. free_blocks (block_ptrs h (j + 32) n) s = Some t \<and> heap_with h k t [Blk (j + 48 * n) True, Blk r True]"
  using assms
proof (induction n arbitrary: j s)
  case (Suc n)
  obtain s1 where s1: "kfree (h + of_nat (j + 32)) s = Some s1"
    "heap_with h k s1 (Blk (j + 48) True # replicate n (Blk 32 False) @ [Blk r True])"
    using free_step [of h k s "[Blk j True]" 32 "replicate n (Blk 32 False) @ [Blk r True]" "j + 32"] Suc.prems(1)
    by (auto simp: merge_pass_used algebra_simps simp del: of_nat_add)
  show ?case
  proof (cases "n = 0")
    case True
    with s1 show ?thesis by (simp del: of_nat_add)
  next
    case False
    with Suc.IH [OF s1(2)] obtain t where "free_blocks (block_ptrs h (j + 48 + 32) n) s1 = Some t"
      "heap_with h k t [Blk (j + 48 + 48 * n) True, Blk r True]" by auto
    with s1(1) show ?thesis
      by (simp add: ac_simps del: of_nat_add)
  qed
qed simp

lemma multiple_passes:
  assumes "heap_with h k s [Blk N True]" "2048 \<le> N"
  shows "\<exists>t. test_multiple_allocations l s = Some (Returned t)
    \<and> heap_with h (k @ passed) t [Blk 464 True, Blk (N - 480) True]"
proof -
  let ?k = "k @ [''Test: %s... '']"
  have "heap_with h ?k (test_start l ''Multiple Allocations'' s) (replicate 0 (Blk 32 False) @ [Blk N True])"
    using heap_with_start [OF assms(1)] by simp
  from allocate_blocks_run [OF this, of 10 l "[]"] assms(2) obtain s1 where
    s1: "allocate_blocks l 10 [] (test_start l ''Multiple Allocations'' s) = Some (block_ptrs h 16 10, Returned s1)"
    "heap_with h ?k s1 (replicate 10 (Blk 32 False) @ [Blk (N - 480) True])"
    by auto
  have ten: "(10 :: nat) = Suc 9" by simp
  obtain s2 where s2: "kfree (h + of_nat 16) s1 = Some s2"
    "heap_with h ?k s2 (Blk 32 True # replicate 9 (Blk 32 False) @ [Blk (N - 480) True])"
    using free_step [of h ?k s1 "[]" 32 "replicate 9 (Blk 32 False) @ [Blk (N - 480) True]" 16] s1(2)
    unfolding ten by (auto simp: merge_pass_used numeral_eq_Suc)
  obtain s3 where s3: "free_blocks (block_ptrs h 64 9) s2 = Some s3" "heap_with h ?k s3 [Blk 464 True, Blk (N - 480) True]"
    using free_blocks_run [OF s2(2)] by auto
  have "block_ptrs h 16 10 = (h + of_nat 16) # block_ptrs h 64 9"
    using block_ptrs.simps(2) [of h 16 9] by simp
  then show ?thesis
    using s1(1) s2(1) s3(1) heap_with_end [OF s3(2)] by (simp add: test_multiple_allocations_def)
qed

subsection \<open>Two tests that release in the middle\<close>

text \<open>The block of 256 bytes does not go where the first block was, as the comment in the code says:
  that block is too small, and what is released is merged only with the free block behind it.\<close>

lemma fragmentation_passes:
  assumes "heap_with h k s [Blk 464 True, Blk M True]" "1024 \<le> M"
  shows "\<exists>t. test_fragmentation l s = Some (Returned t) \<and> heap_with h (k @ passed) t [Blk 544 True, Blk (M - 80) True]"
proof -
  let ?k = "k @ [''Test: %s... '']" and ?s = "test_start l ''Fragmentation'' s"
  note eval = alloc_abs_def align_nat_def carve_def
  note s0 = heap_with_start [OF assms(1), of l "''Fragmentation''"]
  obtain s1 where s1: "kmalloc 128 ?s = Some (h + 16, s1)" "heap_with h ?k s1 [Blk 128 False, Blk 320 True, Blk M True]"
    using alloc_step [OF s0, where sz = 128 and n = 16 and bs' = "[Blk 128 False, Blk 320 True, Blk M True]"] assms(2)
    by (auto simp: eval)
  obtain s2 where s2: "kmalloc 128 s1 = Some (h + 160, s2)"
    "heap_with h ?k s2 [Blk 128 False, Blk 128 False, Blk 176 True, Blk M True]"
    using alloc_step [OF s1(2), where sz = 128 and n = 160 and bs' = "[Blk 128 False, Blk 128 False, Blk 176 True, Blk M True]"]
      assms(2) by (auto simp: eval)
  obtain s3 where s3: "kfree (h + 16) s2 = Some s3" "heap_with h ?k s3 [Blk 128 True, Blk 128 False, Blk (M + 192) True]"
    using free_step [of h ?k s2 "[]" 128 "[Blk 128 False, Blk 176 True, Blk M True]" 16] s2(2) by (auto simp: add.commute)
  obtain s4 where s4: "kmalloc 256 s3 = Some (h + 304, s4)" "h + 304 \<noteq> NULL"
    "heap_with h ?k s4 [Blk 128 True, Blk 128 False, Blk 256 False, Blk (M - 80) True]"
    using alloc_step [OF s3(2), where sz = 256 and n = 304
        and bs' = "[Blk 128 True, Blk 128 False, Blk 256 False, Blk (M - 80) True]"] assms(2) by (auto simp: eval)
  obtain s5 where s5: "kfree (h + 160) s4 = Some s5" "heap_with h ?k s5 [Blk 272 True, Blk 256 False, Blk (M - 80) True]"
    using free_step [of h ?k s4 "[Blk 128 True]" 128 "[Blk 256 False, Blk (M - 80) True]" 160] s4(3) by auto
  obtain s6 where s6: "kfree (h + 304) s5 = Some s6" "heap_with h ?k s6 [Blk 544 True, Blk (M - 80) True]"
    using free_step [of h ?k s5 "[Blk 272 True]" 256 "[Blk (M - 80) True]" 304] s5(2) by auto
  show ?thesis
    using s1(1) s2(1) s3(1) s4(1,2) s5(1) s6(1) heap_with_end [OF s6(2)] by (simp add: test_fragmentation_def)
qed

lemma mixed_passes:
  assumes "heap_with h k s [Blk 544 True, Blk M True]" "900 \<le> M"
  shows "\<exists>t. test_mixed_sizes l s = Some (Returned t) \<and> heap_with h (k @ passed) t [Blk 40 True, Blk (M + 504) True]"
proof -
  let ?k = "k @ [''Test: %s... '']" and ?s = "test_start l ''Mixed Sizes'' s"
  note eval = alloc_abs_def align_nat_def carve_def
  note s0 = heap_with_start [OF assms(1), of l "''Mixed Sizes''"]
  obtain s1 where s1: "kmalloc 8 ?s = Some (h + 16, s1)" "h + 16 \<noteq> NULL" "heap_with h ?k s1 [Blk 8 False, Blk 520 True, Blk M True]"
    using alloc_step [OF s0, where sz = 8 and n = 16 and bs' = "[Blk 8 False, Blk 520 True, Blk M True]"] assms(2)
    by (auto simp: eval)
  obtain s2 where s2: "kmalloc 16 s1 = Some (h + 40, s2)" "h + 40 \<noteq> NULL"
    "heap_with h ?k s2 [Blk 8 False, Blk 16 False, Blk 488 True, Blk M True]"
    using alloc_step [OF s1(3), where sz = 16 and n = 40 and bs' = "[Blk 8 False, Blk 16 False, Blk 488 True, Blk M True]"] assms(2)
    by (auto simp: eval)
  obtain s3 where s3: "kmalloc 32 s2 = Some (h + 72, s3)" "h + 72 \<noteq> NULL"
    "heap_with h ?k s3 [Blk 8 False, Blk 16 False, Blk 32 False, Blk 440 True, Blk M True]"
    using alloc_step [OF s2(3), where sz = 32 and n = 72
        and bs' = "[Blk 8 False, Blk 16 False, Blk 32 False, Blk 440 True, Blk M True]"] assms(2) by (auto simp: eval)
  obtain s4 where s4: "kfree (h + 40) s3 = Some s4" "heap_with h ?k s4 [Blk 8 False, Blk 16 True, Blk 32 False, Blk (M + 456) True]"
    using free_step [of h ?k s3 "[Blk 8 False]" 16 "[Blk 32 False, Blk 440 True, Blk M True]" 40] s3(3) by (auto simp: add.commute)
  obtain s5 where s5: "kmalloc 16 s4 = Some (h + 40, s5)" "heap_with h ?k s5 [Blk 8 False, Blk 16 False, Blk 32 False, Blk (M + 456) True]"
    using alloc_step [OF s4(2), where sz = 16 and n = 40 and bs' = "[Blk 8 False, Blk 16 False, Blk 32 False, Blk (M + 456) True]"]
    by (auto simp: eval)
  obtain s6 where s6: "kfree (h + 16) s5 = Some s6" "heap_with h ?k s6 [Blk 8 True, Blk 16 False, Blk 32 False, Blk (M + 456) True]"
    using free_step [of h ?k s5 "[]" 8 "[Blk 16 False, Blk 32 False, Blk (M + 456) True]" 16] s5(2) by auto
  obtain s7 where s7: "kfree (h + 72) s6 = Some s7" "heap_with h ?k s7 [Blk 8 True, Blk 16 False, Blk (M + 504) True]"
    using free_step [of h ?k s6 "[Blk 8 True, Blk 16 False]" 32 "[Blk (M + 456) True]" 72] s6(2) by (auto simp: add.commute)
  obtain s8 where s8: "kfree (h + 40) s7 = Some s8" "heap_with h ?k s8 [Blk 40 True, Blk (M + 504) True]"
    using free_step [of h ?k s7 "[Blk 8 True]" 16 "[Blk (M + 504) True]" 40] s7(2) by auto
  show ?thesis
    using s1(1,2) s2(1,2) s3(1,2) s4(1) s5(1) s6(1) s7(1) s8(1) heap_with_end [OF s8(2)]
    by (simp add: test_mixed_sizes_def)
qed

text \<open>C38. The memory manager passes its own tests. On every heap of one free block of 2 KB to 1 GB,
  such as \<open>mm_init\<close> builds, \<open>mm_run_all_tests\<close> returns without a failed assertion, the log is that of
  five passed tests (the oversized request being refused), every block has been released and the
  statistics are exact. The heap is not what it was, though: 40 bytes stay in a block of their own.\<close>

theorem mm_tests_pass:
  fixes s :: "'a test_state_scheme"
  assumes "heap_ok s [Blk N True]" "stats_ok s [Blk N True]" "2048 \<le> N" "N < 1073741824"
  shows "\<exists>t. mm_run_all_tests l s = Some (Returned t) \<and> heap_ok t [Blk 40 True, Blk (N - 56) True]
    \<and> stats_ok t [Blk 40 True, Blk (N - 56) True]
    \<and> klog t = klog s @ [''Running memory manager tests...'' @ nl] @ passed
        @ [''Test: %s... '', ''kmalloc(%zu) failed! Out of memory'' @ nl, ''OK'' @ nl]
        @ passed @ passed @ passed @ [''Memory tests completed.'' @ nl]"
proof -
  have s0: "heap_with (heap_start s) (klog s @ [''Running memory manager tests...'' @ nl])
      (printk (''Running memory manager tests...'' @ nl) s) [Blk N True]"
    using assms(1,2) by (intro heap_with_printk) (simp add: heap_with_def)
  have "1024 \<le> N - 480" "900 \<le> N - 480 - 80"
    using assms(3) by simp_all
  note big = this
  obtain s1 where s1: "test_basic_allocation l (printk (''Running memory manager tests...'' @ nl) s) = Some (Returned s1)"
    "heap_with (heap_start s) ((klog s @ [''Running memory manager tests...'' @ nl]) @ passed) s1 [Blk N True]"
    using basic_passes [OF s0 assms(3)] by blast
  obtain s2 where s2: "test_oversized_allocation l s1 = Some (Returned s2)"
    "heap_with (heap_start s) (((klog s @ [''Running memory manager tests...'' @ nl]) @ passed)
      @ [''Test: %s... '', ''kmalloc(%zu) failed! Out of memory'' @ nl, ''OK'' @ nl]) s2 [Blk N True]"
    using oversized_passes [OF s1(2) assms(4)] by blast
  obtain s3 where s3: "test_multiple_allocations l s2 = Some (Returned s3)"
    "heap_with (heap_start s) ((((klog s @ [''Running memory manager tests...'' @ nl]) @ passed)
      @ [''Test: %s... '', ''kmalloc(%zu) failed! Out of memory'' @ nl, ''OK'' @ nl]) @ passed) s3 [Blk 464 True, Blk (N - 480) True]"
    using multiple_passes [OF s2(2) assms(3)] by blast
  obtain s4 where s4: "test_fragmentation l s3 = Some (Returned s4)"
    "heap_with (heap_start s) (((((klog s @ [''Running memory manager tests...'' @ nl]) @ passed)
      @ [''Test: %s... '', ''kmalloc(%zu) failed! Out of memory'' @ nl, ''OK'' @ nl]) @ passed) @ passed)
      s4 [Blk 544 True, Blk (N - 480 - 80) True]"
    using fragmentation_passes [OF s3(2) big(1)] by blast
  obtain s5 where s5: "test_mixed_sizes l s4 = Some (Returned s5)"
    "heap_with (heap_start s) ((((((klog s @ [''Running memory manager tests...'' @ nl]) @ passed)
      @ [''Test: %s... '', ''kmalloc(%zu) failed! Out of memory'' @ nl, ''OK'' @ nl]) @ passed) @ passed) @ passed)
      s5 [Blk 40 True, Blk (N - 480 - 80 + 504) True]"
    using mixed_passes [OF s4(2) big(2)] by blast
  have N: "N - 480 - 80 + 504 = N - 56"
    using assms(3) by simp
  let ?t = "printk (''Memory tests completed.'' @ nl) s5"
  have "mm_run_all_tests l s = Some (Returned ?t)"
    by (simp only: mm_run_all_tests_def and_then_simps s1(1) s2(1) s3(1) s4(1) s5(1))
  then show ?thesis
    using heap_with_printk [OF s5(2), of "''Memory tests completed.'' @ nl"] unfolding N heap_with_def
    by (intro exI [of _ ?t]) (simp only: append_assoc simp_thms)
qed

theorem mm_tests_pass_witness:
  "\<exists>(s :: test_state) t. heap_start s = 0x120000 \<and> mm_run_all_tests \<lparr>literal = (\<lambda>_. 0), test_file = 0, assert_buffer = 0, assert_message = 0\<rparr> s = Some (Returned t)
    \<and> heap_ok t [Blk 40 True, Blk 2097080 True]"
proof -
  let ?s = "mm_init 0x120000 0x9000 (mm_state.extend blank_mm_state \<lparr>test_name = NULL\<rparr>)"
  have "load32 (mem (mm_state.extend blank_mm_state \<lparr>test_name = NULL\<rparr>)) 0x9000 = 0"
    by (simp add: mm_state.defs blank_mm_state_def load32_def)
  note b = booted_over [OF this]
  from mm_tests_pass [OF b(1,2), of "\<lparr>literal = (\<lambda>_. 0), test_file = 0, assert_buffer = 0, assert_message = 0\<rparr>"] b(3) show ?thesis
    by auto
qed

end
