(* ===== verification/External.thy ===== *)
theory External
  imports Module_Info
begin

text \<open>
  The external modules: modules/sys/init/external.c and external_loader.c, the test module
  modules/tests/test_module.c, and the parts of the other module files that only log or hand over
  static data. \<open>module_register_external\<close>, which external.c calls and no file of the repository
  defines, is a parameter.
\<close>

text \<open>The arguments of a call: name, title, type, subtype, version, flags, and three functions by their
  symbols.\<close>

record external_module =
  ext_name :: string
  ext_title :: string
  ext_type :: module_type_t
  ext_subtype :: driver_subtype_t
  ext_version :: u32
  ext_flags :: u32
  ext_init :: string
  ext_exit :: "string option"
  ext_reload :: "string option"

definition external_module :: "string \<Rightarrow> string \<Rightarrow> module_type_t \<Rightarrow> driver_subtype_t \<Rightarrow> u32 \<Rightarrow> u32 \<Rightarrow> string \<Rightarrow> external_module" where
  "external_module name title type subtype version flgs init =
     \<lparr>ext_name = name, ext_title = title, ext_type = type, ext_subtype = subtype, ext_version = version,
      ext_flags = flgs, ext_init = init, ext_exit = None, ext_reload = None\<rparr>"

definition register_external_modules :: "(external_module \<Rightarrow> 'a machine_scheme \<Rightarrow> 'a machine_scheme)
    \<Rightarrow> 'a machine_scheme \<Rightarrow> 'a machine_scheme" where
  "register_external_modules reg s =
     (let s = printk (''External modules registered'' @ nl) s;
          s = reg (external_module ''keyboard'' ''Keyboard Driver'' MODULE_TYPE_DRIVER DRIVER_SUBTYPE_INPUT 1 0 ''keyboard_module_init'') s;
          s = reg (external_module ''timer'' ''Timer Driver'' MODULE_TYPE_DRIVER DRIVER_SUBTYPE_TIME 1 0 ''timer_module_init'') s;
          s = reg (external_module ''vga_driver'' ''VGA Driver'' MODULE_TYPE_DRIVER DRIVER_SUBTYPE_VIDEO 1 0 ''vga_driver_module_init'') s;
          s = reg (external_module ''test_module'' ''Test Module'' MODULE_TYPE_SERVICE DRIVER_SUBTYPE_NONE 1 0 ''test_module_init'') s;
          s = reg (external_module ''interrupt_tests'' ''Interrupt Tests'' MODULE_TYPE_TEST DRIVER_SUBTYPE_NONE 1 0 ''interrupt_tests_module_init'') s
      in reg (external_module ''mm_tests'' ''Memory Management Tests'' MODULE_TYPE_TEST DRIVER_SUBTYPE_NONE 1 0 ''mm_tests_module_init'') s)"

definition load_external_modules :: "'s \<Rightarrow> 's" where
  "load_external_modules s = s"

subsection \<open>test_module.c\<close>

definition test_init :: "'a machine_scheme \<Rightarrow> int \<times> 'a machine_scheme" where
  "test_init s = (0, printk (''Test module initialized'' @ nl) s)"

definition test_deinit :: "'a machine_scheme \<Rightarrow> int \<times> 'a machine_scheme" where
  "test_deinit s = (0, printk (''Test module deinitialized'' @ nl) s)"

definition test_run_tests :: "'a machine_scheme \<Rightarrow> int \<times> 'a machine_scheme" where
  "test_run_tests s = (0, printk (''Running test module tests'' @ nl) s)"

subsection \<open>The simple versions of the driver and of the file system\<close>

definition ata_simple_debug_msg :: "addr \<Rightarrow> 's \<Rightarrow> 's" where "ata_simple_debug_msg msg s = s"
definition ata_simple_init :: "'s \<Rightarrow> 's" where "ata_simple_init s = s"
definition ata_simple_exit :: "'s \<Rightarrow> 's" where "ata_simple_exit s = s"
definition initrd_simple_init :: "'s \<Rightarrow> 's" where "initrd_simple_init s = s"
definition initrd_simple_exit :: "'s \<Rightarrow> 's" where "initrd_simple_exit s = s"

text \<open>\<open>name\<close> is the address of the literal and \<open>storage\<close> that of the static structure.\<close>

definition ata_improved_register_interfaces :: "addr \<Rightarrow> addr \<Rightarrow> 'a registry_state_scheme \<Rightarrow> 'a registry_state_scheme option" where
  "ata_improved_register_interfaces name storage s = interface_register name storage s"

definition ata_simple_register_interfaces :: "addr \<Rightarrow> addr \<Rightarrow> 'a registry_state_scheme \<Rightarrow> 'a registry_state_scheme option" where
  "ata_simple_register_interfaces name storage s = interface_register name storage s"

subsection \<open>The directory tables of fs.c\<close>

text \<open>They are marked as unused; the directory reader never returns one of them.\<close>

record dirent =
  d_name :: string
  d_type :: int

definition root_entries :: "dirent list" where
  "root_entries = [\<lparr>d_name = ''modules'', d_type = 2\<rparr>, \<lparr>d_name = ''drivers'', d_type = 2\<rparr>, \<lparr>d_name = ''tests'', d_type = 2\<rparr>]"

definition modules_entries :: "dirent list" where
  "modules_entries = [\<lparr>d_name = ''test_module'', d_type = 1\<rparr>, \<lparr>d_name = ''interrupt_tests'', d_type = 1\<rparr>,
     \<lparr>d_name = ''mm_tests'', d_type = 1\<rparr>, \<lparr>d_name = ''fs_tests'', d_type = 1\<rparr>]"

definition drivers_entries :: "dirent list" where
  "drivers_entries = [\<lparr>d_name = ''keyboard'', d_type = 1\<rparr>, \<lparr>d_name = ''timer'', d_type = 1\<rparr>, \<lparr>d_name = ''vga'', d_type = 1\<rparr>]"

definition test_entries :: "dirent list" where
  "test_entries = [\<lparr>d_name = ''test1'', d_type = 1\<rparr>, \<lparr>d_name = ''test2'', d_type = 1\<rparr>]"

definition tests_entries :: "dirent list" where
  "tests_entries = [\<lparr>d_name = ''kernel'', d_type = 2\<rparr>, \<lparr>d_name = ''user'', d_type = 2\<rparr>]"

subsection \<open>What is registered\<close>

text \<open>The registrations, in order, as a list; the modules have different names. (The function
  \<open>test_module_init\<close> that the fourth names exists nowhere: test_module.c defines \<open>test_init\<close>.)\<close>

definition external_modules :: "external_module list" where
  "external_modules =
     [external_module ''keyboard'' ''Keyboard Driver'' MODULE_TYPE_DRIVER DRIVER_SUBTYPE_INPUT 1 0 ''keyboard_module_init'',
      external_module ''timer'' ''Timer Driver'' MODULE_TYPE_DRIVER DRIVER_SUBTYPE_TIME 1 0 ''timer_module_init'',
      external_module ''vga_driver'' ''VGA Driver'' MODULE_TYPE_DRIVER DRIVER_SUBTYPE_VIDEO 1 0 ''vga_driver_module_init'',
      external_module ''test_module'' ''Test Module'' MODULE_TYPE_SERVICE DRIVER_SUBTYPE_NONE 1 0 ''test_module_init'',
      external_module ''interrupt_tests'' ''Interrupt Tests'' MODULE_TYPE_TEST DRIVER_SUBTYPE_NONE 1 0 ''interrupt_tests_module_init'',
      external_module ''mm_tests'' ''Memory Management Tests'' MODULE_TYPE_TEST DRIVER_SUBTYPE_NONE 1 0 ''mm_tests_module_init'']"

lemma register_external_modules_fold:
  "register_external_modules reg s = fold reg external_modules (printk (''External modules registered'' @ nl) s)"
  by (simp only: register_external_modules_def external_modules_def Let_def fold_simps)

lemma external_names: "distinct (map ext_name external_modules)"
  by (simp add: external_modules_def external_module_def)

end
