(* ===== verification/C_Layout.thy ===== *)
theory C_Layout
  imports Memory
begin

text \<open>
  How the compiler lays out C structures for the i386 (gcc -m32): the types of the headers as data, the
  size and the alignment of a type, the offsets of the members, and the access to a member through a
  pointer. \<open>int\<close>, \<open>size_t\<close>, \<open>uintptr_t\<close> and enumerations are 32-bit integers, \<open>char\<close> and
  \<open>bool\<close> single bytes (include/std/stdint.h, stddef.h, stdbool.h); a 64-bit integer needs alignment 4 only.
  The lemmas hold for all structures; Layouts.thy has those of the kernel.
\<close>

subsection \<open>Types\<close>

datatype ctype = U8 | U16 | U32 | U64 | Ptr | Arr ctype nat
  | Struct bool "(string \<times> ctype) list" | Union "(string \<times> ctype) list"

text \<open>The first argument of \<open>Struct\<close> says whether it is \<open>packed\<close>.\<close>

fun calign :: "ctype \<Rightarrow> nat" and caligns :: "(string \<times> ctype) list \<Rightarrow> nat" where
  "calign U8 = 1"
| "calign U16 = 2"
| "calign U32 = 4"
| "calign U64 = 4"
| "calign Ptr = 4"
| "calign (Arr t n) = calign t"
| "calign (Struct pack fs) = (if pack then 1 else caligns fs)"
| "calign (Union fs) = caligns fs"
| "caligns [] = 1"
| "caligns ((f, t) # fs) = max (calign t) (caligns fs)"

definition round_up :: "nat \<Rightarrow> nat \<Rightarrow> nat" where
  "round_up n a = (n + (a - 1)) div a * a"

text \<open>Where a member of alignment \<open>a\<close> starts when the previous one ends at \<open>n\<close>.\<close>

definition cplace :: "bool \<Rightarrow> nat \<Rightarrow> nat \<Rightarrow> nat" where
  "cplace pack n a = (if pack then n else round_up n a)"

fun csize :: "ctype \<Rightarrow> nat" and cend :: "bool \<Rightarrow> nat \<Rightarrow> (string \<times> ctype) list \<Rightarrow> nat"
  and cwidth :: "(string \<times> ctype) list \<Rightarrow> nat" where
  "csize U8 = 1"
| "csize U16 = 2"
| "csize U32 = 4"
| "csize U64 = 8"
| "csize Ptr = 4"
| "csize (Arr t n) = n * csize t"
| "csize (Struct pack fs) = cplace pack (cend pack 0 fs) (caligns fs)"
| "csize (Union fs) = round_up (cwidth fs) (caligns fs)"
| "cend pack n [] = n"
| "cend pack n ((f, t) # fs) = cend pack (cplace pack n (calign t) + csize t) fs"
| "cwidth [] = 0"
| "cwidth ((f, t) # fs) = max (csize t) (cwidth fs)"

fun placed :: "bool \<Rightarrow> nat \<Rightarrow> (string \<times> ctype) list \<Rightarrow> (string \<times> nat \<times> ctype) list" where
  "placed pack n [] = []"
| "placed pack n ((f, t) # fs) = (f, cplace pack n (calign t), t) # placed pack (cplace pack n (calign t) + csize t) fs"

text \<open>The members of a type with their offsets, and one of them.\<close>

fun members :: "ctype \<Rightarrow> (string \<times> nat \<times> ctype) list" where
  "members (Struct pack fs) = placed pack 0 fs"
| "members (Union fs) = map (\<lambda>(f, t). (f, 0, t)) fs"
| "members t = []"

definition member_of :: "ctype \<Rightarrow> string \<Rightarrow> (nat \<times> ctype) option" where
  "member_of t f = map_of (members t) f"

definition offset_of :: "ctype \<Rightarrow> string \<Rightarrow> nat option" where
  "offset_of t f = map_option fst (member_of t f)"

subsection \<open>Access through a pointer\<close>

text \<open>The value of a scalar; an array or a structure has none.\<close>

fun read_scalar :: "ctype \<Rightarrow> mem \<Rightarrow> addr \<Rightarrow> nat option" where
  "read_scalar U8 m a = Some (unat (m a))"
| "read_scalar U16 m a = Some (unat (load16 m a))"
| "read_scalar U32 m a = Some (unat (load32 m a))"
| "read_scalar U64 m a = Some (unat (load32 m a) + 4294967296 * unat (load32 m (a + 4)))"
| "read_scalar Ptr m a = Some (unat (load32 m a))"
| "read_scalar t m a = None"

fun write_scalar :: "ctype \<Rightarrow> nat \<Rightarrow> mem \<Rightarrow> addr \<Rightarrow> mem option" where
  "write_scalar U8 v m a = Some (m(a := of_nat v))"
| "write_scalar U16 v m a = Some (store16 m a (of_nat v))"
| "write_scalar U32 v m a = Some (store32 m a (of_nat v))"
| "write_scalar U64 v m a = Some (store32 (store32 m a (of_nat v)) (a + 4) (of_nat (v div 4294967296)))"
| "write_scalar Ptr v m a = Some (store32 m a (of_nat v))"
| "write_scalar t v m a = None"

definition read_member :: "ctype \<Rightarrow> string \<Rightarrow> mem \<Rightarrow> addr \<Rightarrow> nat option" where
  "read_member t f m p = (case member_of t f of None \<Rightarrow> None | Some (i, u) \<Rightarrow> read_scalar u m (p + of_nat i))"

definition write_member :: "ctype \<Rightarrow> string \<Rightarrow> nat \<Rightarrow> mem \<Rightarrow> addr \<Rightarrow> mem option" where
  "write_member t f v m p = (case member_of t f of None \<Rightarrow> None | Some (i, u) \<Rightarrow> write_scalar u v m (p + of_nat i))"

subsection \<open>Alignment\<close>

lemma round_up_least:
  assumes "0 < a"
  shows "n \<le> round_up n a" "a dvd round_up n a" "round_up n a < n + a"
proof -
  define q r where "q = (n + (a - 1)) div a" and "r = (n + (a - 1)) mod a"
  have "n + (a - 1) = q * a + r" "r < a"
    using assms by (simp_all add: q_def r_def)
  then show "n \<le> round_up n a" "round_up n a < n + a"
    by (simp_all add: round_up_def q_def [symmetric])
  show "a dvd round_up n a" by (simp add: round_up_def)
qed

lemma cplace_le: "0 < a \<Longrightarrow> n \<le> cplace pack n a"
  by (simp add: cplace_def round_up_least)

lemma calign_range: "calign t \<in> {1, 2, 4}" "caligns fs \<in> {1, 2, 4}"
  by (induction t and fs rule: calign_caligns.induct) (auto simp: max_def)

lemma calign_pos [simp]: "0 < calign t" "0 < caligns fs"
  using calign_range(1) [of t] calign_range(2) [of fs] by auto

lemma calign_member: "(f, t) \<in> set fs \<Longrightarrow> calign t dvd caligns fs"
proof (induction fs)
  case Nil
  then show ?case by simp
next
  case (Cons g fs)
  obtain h u where g: "g = (h, u)" by (cases g)
  have "x dvd y" if "x \<le> y" "x \<in> {1, 2, 4}" "y \<in> {1, 2, 4}" for x y :: nat
    using that by auto
  moreover have "calign u \<in> {1, 2, 4}" "caligns fs \<in> {1, 2, 4}"
    by (rule calign_range)+
  ultimately have "calign u dvd caligns (g # fs)" "caligns fs dvd caligns (g # fs)"
    by (auto simp: g max_def)
  with Cons show ?case
    by (auto simp: g intro: dvd_trans)
qed

text \<open>A structure that is not packed fills its array elements: its size is a multiple of its alignment.\<close>

lemma csize_aligned: "\<not> pack \<Longrightarrow> caligns fs dvd csize (Struct pack fs)" "caligns fs dvd csize (Union fs)"
  by (simp_all add: cplace_def round_up_least)

subsection \<open>Members do not overlap\<close>

lemma cend_le: "n \<le> cend pack n fs"
proof (induction fs arbitrary: n)
  case Nil
  then show ?case by simp
next
  case (Cons g fs)
  obtain f t where g: "g = (f, t)" by (cases g)
  have "n \<le> cplace pack n (calign t) + csize t"
    using cplace_le [of "calign t" n pack] by simp
  also have "\<dots> \<le> cend pack (cplace pack n (calign t) + csize t) fs"
    by (rule Cons.IH)
  finally show ?case by (simp add: g)
qed

lemma placed_bounds:
  "(f, i, t) \<in> set (placed pack n fs) \<Longrightarrow> n \<le> i \<and> i + csize t \<le> cend pack n fs \<and> (f, t) \<in> set fs \<and> (\<not> pack \<longrightarrow> calign t dvd i)"
proof (induction fs arbitrary: n)
  case Nil
  then show ?case by simp
next
  case (Cons g fs)
  obtain h u where g: "g = (h, u)" by (cases g)
  let ?i = "cplace pack n (calign u)"
  have le: "n \<le> ?i" by (rule cplace_le) simp
  show ?case
  proof (cases "(f, i, t) = (h, ?i, u)")
    case True
    with le cend_le [of "?i + csize u" pack fs] round_up_least(2) [of "calign u" n] show ?thesis
      by (simp add: g cplace_def)
  next
    case False
    with Cons.prems have "(f, i, t) \<in> set (placed pack (?i + csize u) fs)"
      by (auto simp: g)
    from Cons.IH [OF this] le show ?thesis by (auto simp: g)
  qed
qed

lemma placed_sorted: "sorted_wrt (\<lambda>(f, i, t) (g, j, u). i + csize t \<le> j) (placed pack n fs)"
proof (induction fs arbitrary: n)
  case Nil
  then show ?case by simp
next
  case (Cons g fs)
  obtain f t where g: "g = (f, t)" by (cases g)
  show ?case
    using Cons.IH [of "cplace pack n (calign t) + csize t"] placed_bounds by (fastforce simp: g)
qed

lemma members_inside:
  assumes "member_of (Struct pack fs) f = Some (i, t)"
  shows "i + csize t \<le> csize (Struct pack fs)" "(f, t) \<in> set fs" "\<not> pack \<Longrightarrow> calign t dvd i"
proof -
  from assms have "(f, i, t) \<in> set (placed pack 0 fs)"
    by (auto simp: member_of_def dest: map_of_SomeD)
  note b = placed_bounds [OF this]
  then show "(f, t) \<in> set fs" "\<not> pack \<Longrightarrow> calign t dvd i" by simp_all
  have "cend pack 0 fs \<le> csize (Struct pack fs)"
    by (simp add: cplace_le)
  with b show "i + csize t \<le> csize (Struct pack fs)" by linarith
qed

lemma members_apart:
  assumes "member_of (Struct pack fs) f = Some (i, t)" "member_of (Struct pack fs) g = Some (j, u)" "f \<noteq> g"
  shows "i + csize t \<le> j \<or> j + csize u \<le> i"
proof -
  let ?R = "\<lambda>(f, i, t) (g :: string, j, u). i + csize t \<le> j"
  have "(f, i, t) \<in> set (placed pack 0 fs)" "(g, j, u) \<in> set (placed pack 0 fs)"
    using assms(1,2) by (auto simp: member_of_def dest: map_of_SomeD)
  then obtain a b where ab: "a < length (placed pack 0 fs)" "placed pack 0 fs ! a = (f, i, t)"
    "b < length (placed pack 0 fs)" "placed pack 0 fs ! b = (g, j, u)"
    by (auto simp: in_set_conv_nth)
  then have "a < b \<or> b < a"
    using assms(3) by (cases a b rule: linorder_cases) auto
  with ab placed_sorted [of pack 0 fs] show ?thesis
    by (fastforce simp: sorted_wrt_iff_nth_less)
qed

subsection \<open>Reading back what was written\<close>

lemma span_in_quad: "x \<notin> span a 8 \<Longrightarrow> x \<notin> span a 4 \<and> x \<notin> span (a + 4) 4"
  using span_offset_subset [of 4 4 8 a] span_mono [of 4 8 a] by auto

lemma write_scalar_other:
  assumes "write_scalar t v m a = Some m'" "x \<notin> span a (csize t)"
  shows "m' x = m x"
proof (cases t)
  case U8
  with assms show ?thesis by (auto simp: span_Suc)
next
  case U64
  with assms span_in_quad [of x a] show ?thesis
    by (auto simp: store32_other)
qed (use assms in \<open>auto simp: store16_other store32_other\<close>)

lemma read_scalar_span:
  assumes "\<And>x. x \<in> span a (csize t) \<Longrightarrow> m x = m' x"
  shows "read_scalar t m a = read_scalar t m' a"
proof (cases t)
  case U64
  have "span (a + 4) 4 \<subseteq> span a 8" "span a 4 \<subseteq> span a 8"
    by (rule span_offset_subset, simp) (rule span_mono, simp)
  then have "load32 m a = load32 m' a" "load32 m (a + 4) = load32 m' (a + 4)"
    using assms U64 by (auto intro!: load32_span)
  with U64 show ?thesis by simp
qed (use assms in \<open>auto intro!: arg_cong [of _ _ unat] load32_span load16_span\<close>)

lemma read_write_scalar:
  assumes "write_scalar t v m a = Some m'" "v < 256 ^ csize t"
  shows "read_scalar t m' a = Some v"
proof (cases t)
  case U64
  from assms(2) U64 have "v div 4294967296 < 4294967296"
    by (simp add: less_mult_imp_div_less)
  moreover have "load32 (store32 (store32 m a x) (a + 4) y) a = x" for x y
    by (subst load32_store32_apart) simp_all
  ultimately show ?thesis
    using assms(1) U64 by (auto simp: unat_of_nat)
qed (use assms in \<open>auto simp: unat_of_nat\<close>)

lemma span_of_nat_disjoint:
  assumes "a + k \<le> b" "b + l \<le> 4294967296"
  shows "span (p + of_nat a) k \<inter> span (p + of_nat b) l = {}"
proof (rule ccontr)
  assume "\<not> ?thesis"
  then obtain i j where ij: "i < k" "j < l" "p + of_nat a + of_nat i = p + of_nat b + of_nat j"
    by (auto simp: span_def)
  then have "(of_nat (a + i) :: addr) = of_nat (b + j)"
    by (simp add: add.assoc)
  moreover have "a + i < 4294967296" "b + j < 4294967296"
    using assms ij(1,2) by linarith+
  ultimately have "a + i = b + j"
    using unat_of_nat32 by metis
  with assms(1) ij(1) show False by linarith
qed

lemma member_spans_disjoint:
  assumes "member_of (Struct pack fs) f = Some (i, t)" "member_of (Struct pack fs) g = Some (j, u)" "f \<noteq> g"
    "csize (Struct pack fs) < 4294967296"
  shows "span (p + of_nat i) (csize t) \<inter> span (p + of_nat j) (csize u) = {}"
  using members_apart [OF assms(1-3)] members_inside(1) [OF assms(1)] members_inside(1) [OF assms(2)] assms(4)
    span_of_nat_disjoint [of i "csize t" j "csize u" p] span_of_nat_disjoint [of j "csize u" i "csize t" p] by auto

text \<open>A member reads back as it was written, and no other member changes.\<close>

lemma write_member_read:
  assumes "write_member (Struct pack fs) f v m p = Some m'" "csize (Struct pack fs) < 4294967296"
  shows "member_of (Struct pack fs) f = Some (i, t) \<Longrightarrow> v < 256 ^ csize t \<Longrightarrow> read_member (Struct pack fs) f m' p = Some v"
    "g \<noteq> f \<Longrightarrow> read_member (Struct pack fs) g m' p = read_member (Struct pack fs) g m p"
    "x \<notin> span p (csize (Struct pack fs)) \<Longrightarrow> m' x = m x"
proof -
  from assms(1) obtain i u where iu: "member_of (Struct pack fs) f = Some (i, u)" "write_scalar u v m (p + of_nat i) = Some m'"
    by (auto simp: write_member_def split: option.splits)
  note other = write_scalar_other [OF iu(2)]
  show "read_member (Struct pack fs) f m' p = Some v" if "member_of (Struct pack fs) f = Some (j, t)" "v < 256 ^ csize t" for j t
    using that iu(1) read_write_scalar [OF iu(2)] by (simp add: read_member_def)
  show "read_member (Struct pack fs) g m' p = read_member (Struct pack fs) g m p" if "g \<noteq> f"
  proof (cases "member_of (Struct pack fs) g")
    case None
    then show ?thesis by (simp add: read_member_def)
  next
    case (Some ju)
    obtain j w where ju: "ju = (j, w)" by (cases ju)
    with Some member_spans_disjoint [OF iu(1), of g j w p] that assms(2)
    have "span (p + of_nat i) (csize u) \<inter> span (p + of_nat j) (csize w) = {}" by simp
    then have "read_scalar w m' (p + of_nat j) = read_scalar w m (p + of_nat j)"
      using other by (intro read_scalar_span) blast
    with Some show ?thesis by (simp add: read_member_def ju)
  qed
  show "m' x = m x" if "x \<notin> span p (csize (Struct pack fs))"
  proof (rule other)
    have "i + csize u \<le> csize (Struct pack fs)"
      by (rule members_inside(1) [OF iu(1)])
    moreover from this assms(2) have "unat (of_nat i :: addr) = i"
      by (intro unat_of_nat32) linarith
    ultimately show "x \<notin> span (p + of_nat i) (csize u)"
      using that span_offset_subset [of "of_nat i" "csize u" "csize (Struct pack fs)" p] by auto
  qed
qed

end
