(* ===== verification/Layouts.thy ===== *)
theory Layouts
  imports C_Layout
begin

text \<open>
  The structures that the headers declare, member by member, in the layout of the compiler. A name that
  several headers declare differently has one definition per header.
\<close>

text \<open>Several members of the same type.\<close>

definition u32s :: "string list \<Rightarrow> (string \<times> ctype) list" where "u32s fs = map (\<lambda>f. (f, U32)) fs"
definition u16s :: "string list \<Rightarrow> (string \<times> ctype) list" where "u16s fs = map (\<lambda>f. (f, U16)) fs"
definition u8s :: "string list \<Rightarrow> (string \<times> ctype) list" where "u8s fs = map (\<lambda>f. (f, U8)) fs"
definition u64s :: "string list \<Rightarrow> (string \<times> ctype) list" where "u64s fs = map (\<lambda>f. (f, U64)) fs"
definition ptrs :: "string list \<Rightarrow> (string \<times> ctype) list" where "ptrs fs = map (\<lambda>f. (f, Ptr)) fs"

lemmas field_lists = u32s_def u16s_def u8s_def u64s_def ptrs_def

subsection \<open>Structures the operations of the kernel access\<close>

definition mem_block_layout :: ctype where
  "mem_block_layout = Struct False [(''size'', U32), (''next'', Ptr), (''free'', U8), (''magic'', U32)]"

definition list_head_layout :: ctype where
  "list_head_layout = Struct False (ptrs [''next'', ''prev''])"

definition ipc_message_layout :: ctype where
  "ipc_message_layout = Struct False (u32s [''from_pid'', ''to_pid'', ''type'', ''size''] @ [(''data'', Arr U8 0)])"

definition ipc_message_node_layout :: ctype where
  "ipc_message_node_layout = Struct False [(''list'', list_head_layout), (''message'', ipc_message_layout)]"

definition interface_entry_layout :: ctype where
  "interface_entry_layout = Struct False ((''name'', Arr U8 32) # ptrs [''interface'', ''next''])"

definition elf_header_layout :: ctype where
  "elf_header_layout = Struct True ((''magic'', U32) # (''elf'', Arr U8 12) # u16s [''type'', ''machine'']
     @ u32s [''version'', ''entry'', ''phoff'', ''shoff'', ''flags'']
     @ u16s [''ehsize'', ''phentsize'', ''phnum'', ''shentsize'', ''shnum'', ''shstrndx''])"

definition elf_program_header_layout :: ctype where
  "elf_program_header_layout =
     Struct True (u32s [''type'', ''offset'', ''vaddr'', ''paddr'', ''filesz'', ''memsz'', ''flags'', ''align''])"

definition storage_interface_layout :: ctype where
  "storage_interface_layout =
     Struct False ((''name'', Arr U8 32) # ptrs [''read'', ''write'', ''get_capacity'', ''ioctl'', ''private_data''])"

definition filesystem_interface_layout :: ctype where
  "filesystem_interface_layout =
     Struct False ((''name'', Arr U8 32) # ptrs [''mount'', ''read'', ''write'', ''list'', ''private_data''])"

definition gdt_entry_layout :: ctype where
  "gdt_entry_layout = Struct True (u16s [''limit_low'', ''base_low''] @ u8s [''base_middle'', ''access'', ''granularity'', ''base_high''])"

definition idt_entry_layout :: ctype where
  "idt_entry_layout = Struct True (u16s [''base_low'', ''sel''] @ u8s [''always0'', ''flags''] @ [(''base_high'', U16)])"

text \<open>The operands of \<open>lgdt\<close> and \<open>lidt\<close>.\<close>

definition gdt_ptr_layout :: ctype where
  "gdt_ptr_layout = Struct True [(''limit'', U16), (''base'', U32)]"

definition idt_ptr_layout :: ctype where
  "idt_ptr_layout = Struct True [(''limit'', U16), (''base'', U32)]"

text \<open>The same four structures in kernel/include/kernel/gdt.h and kernel/include/kernel/interrupts/idt.h; which
  of the headers a file gets depends on the order of the include paths.\<close>

definition kernel_gdt_entry_layout :: ctype where
  "kernel_gdt_entry_layout =
     Struct True (u16s [''limit_low'', ''base_low''] @ u8s [''base_middle'', ''access'', ''granularity'', ''base_high''])"

definition kernel_gdt_ptr_layout :: ctype where
  "kernel_gdt_ptr_layout = Struct True [(''limit'', U16), (''base'', U32)]"

definition kernel_idt_entry_layout :: ctype where
  "kernel_idt_entry_layout =
     Struct True (u16s [''base_low'', ''sel''] @ u8s [''always0'', ''flags''] @ [(''base_high'', U16)])"

definition kernel_idt_ptr_layout :: ctype where
  "kernel_idt_ptr_layout = Struct True [(''limit'', U16), (''base'', U32)]"

lemma table_headers_agree:
  "kernel_gdt_entry_layout = gdt_entry_layout" "kernel_gdt_ptr_layout = gdt_ptr_layout"
  "kernel_idt_entry_layout = idt_entry_layout" "kernel_idt_ptr_layout = idt_ptr_layout"
  by (simp_all add: kernel_gdt_entry_layout_def gdt_entry_layout_def kernel_gdt_ptr_layout_def gdt_ptr_layout_def
    kernel_idt_entry_layout_def idt_entry_layout_def kernel_idt_ptr_layout_def idt_ptr_layout_def)

subsection \<open>The two structures named module\<close>

text \<open>include/kernel/module.h, which every loadable module includes, and
  include/kernel/modules/manager.h, which the module manager includes.\<close>

definition module_layout :: ctype where
  "module_layout = Struct False ((''magic'', U32) # (''name'', Arr U8 32) # u32s [''version'', ''type'']
     @ ptrs [''register_interfaces'', ''unregister_interfaces'', ''init'', ''exit''])"

definition managed_module_layout :: ctype where
  "managed_module_layout = Struct False [(''list'', list_head_layout), (''name'', Arr U8 64), (''base_address'', Ptr),
     (''size'', U32), (''init'', Ptr), (''exit'', Ptr)]"

subsection \<open>The information of the boot loader\<close>

definition multiboot_common :: "string list" where
  "multiboot_common = [''flags'', ''mem_lower'', ''mem_upper'', ''boot_device'', ''cmdline'', ''mods_count'', ''mods_addr'']"

definition multiboot_tables :: "string list" where
  "multiboot_tables = [''mmap_length'', ''mmap_addr'', ''drives_length'', ''drives_addr'', ''config_table'',
     ''boot_loader_name'', ''apm_table'', ''vbe_control_info'', ''vbe_mode_info'']"

definition multiboot_vbe :: "string list" where
  "multiboot_vbe = [''vbe_mode'', ''vbe_interface_seg'', ''vbe_interface_off'', ''vbe_interface_len'']"

text \<open>include/multiboot.h, which mm.c and kernel.c include; include/kernel/multiboot.h;
  kernel/include/multiboot/multiboot.h; and the start of it that initrd.c declares for itself.\<close>

definition multiboot_info_layout :: ctype where
  "multiboot_info_layout =
     Struct False (u32s multiboot_common @ (''syms'', Arr U32 4) # u32s multiboot_tables @ u32s multiboot_vbe)"

definition packed_multiboot_info_layout :: ctype where
  "packed_multiboot_info_layout =
     Struct True (u32s multiboot_common @ (''syms'', Arr U32 4) # u32s multiboot_tables @ u16s multiboot_vbe)"

definition symbol_table_layout :: ctype where
  "symbol_table_layout = Union [(''aout_syms'', Struct False (u32s [''tabsize'', ''strsize'', ''addr'', ''reserved''])),
     (''elf_sec'', Struct False (u32s [''num'', ''size'', ''addr'', ''shndx'']))]"

definition union_multiboot_info_layout :: ctype where
  "union_multiboot_info_layout =
     Struct False (u32s multiboot_common @ (''u'', symbol_table_layout) # u32s multiboot_tables @ u16s multiboot_vbe)"

definition initrd_multiboot_info_layout :: ctype where
  "initrd_multiboot_info_layout = Struct False (u32s multiboot_common)"

definition multiboot_module_layout :: ctype where
  "multiboot_module_layout = Struct False (u32s [''mod_start'', ''mod_end'', ''string'', ''reserved''])"

definition packed_multiboot_module_layout :: ctype where
  "packed_multiboot_module_layout = Struct True (u32s [''mod_start'', ''mod_end'', ''cmdline'', ''reserved''])"

definition plain_multiboot_module_layout :: ctype where
  "plain_multiboot_module_layout = Struct False (u32s [''mod_start'', ''mod_end'', ''cmdline'', ''reserved''])"

definition initrd_multiboot_module_layout :: ctype where
  "initrd_multiboot_module_layout = Struct False (u32s [''mod_start'', ''mod_end'', ''string'', ''reserved''])"

definition multiboot_header_layout :: ctype where
  "multiboot_header_layout = Struct False (u32s [''magic'', ''flags'', ''checksum'', ''header_addr'', ''load_addr'',
     ''load_end_addr'', ''bss_end_addr'', ''entry_addr'', ''mode_type'', ''width'', ''height'', ''depth''])"

definition multiboot_mmap_entry_layout :: ctype where
  "multiboot_mmap_entry_layout =
     Struct True (u32s [''size'', ''addr_low'', ''addr_high'', ''len_low'', ''len_high'', ''type''])"

text \<open>The tags of the second version of the protocol, include/kernel/multiboot2.h and
  include/multiboot2.h. Every tag starts with its type and size.\<close>

definition multiboot_tag_types :: "(string \<times> nat) list" where
  "multiboot_tag_types = [(''END'', 0), (''CMDLINE'', 1), (''BOOT_LOADER_NAME'', 2), (''MODULE'', 3), (''BASIC_MEMINFO'', 4),
     (''BOOTDEV'', 5), (''MMAP'', 6), (''VBE'', 7), (''FRAMEBUFFER'', 8), (''ELF_SECTIONS'', 9), (''APM'', 10), (''EFI32'', 11),
     (''EFI64'', 12), (''SMBIOS'', 13), (''ACPI_OLD'', 14), (''ACPI_NEW'', 15), (''NETWORK'', 16), (''EFI_MMAP'', 17),
     (''EFI_BS'', 18), (''EFI32_IH'', 19), (''EFI64_IH'', 20), (''LOAD_BASE_ADDR'', 21)]"

definition short_multiboot_tag_types :: "(string \<times> nat) list" where
  "short_multiboot_tag_types = [(''END'', 0), (''MODULE'', 3)]"

definition tag_layout :: "(string \<times> ctype) list \<Rightarrow> ctype" where
  "tag_layout fs = Struct False (u32s [''type'', ''size''] @ fs)"

definition multiboot_tag_layout :: ctype where "multiboot_tag_layout = tag_layout []"

definition multiboot_tag_string_layout :: ctype where
  "multiboot_tag_string_layout = tag_layout [(''string'', Arr U8 0)]"

definition multiboot_tag_module_layout :: ctype where
  "multiboot_tag_module_layout = tag_layout (u32s [''mod_start'', ''mod_end''] @ [(''cmdline'', Arr U8 0)])"

definition multiboot_tag_basic_meminfo_layout :: ctype where
  "multiboot_tag_basic_meminfo_layout = tag_layout (u32s [''mem_lower'', ''mem_upper''])"

definition multiboot_tag_bootdev_layout :: ctype where
  "multiboot_tag_bootdev_layout = tag_layout (u32s [''biosdev'', ''partition'', ''subpartition''])"

definition multiboot2_mmap_entry_layout :: ctype where
  "multiboot2_mmap_entry_layout = Struct False (u64s [''addr'', ''len''] @ u32s [''type'', ''zero''])"

definition multiboot_tag_mmap_layout :: ctype where
  "multiboot_tag_mmap_layout =
     tag_layout (u32s [''entry_size'', ''entry_version''] @ [(''entries'', Arr multiboot2_mmap_entry_layout 0)])"

definition short_multiboot_tag_layout :: ctype where "short_multiboot_tag_layout = tag_layout []"

definition short_multiboot_tag_module_layout :: ctype where
  "short_multiboot_tag_module_layout = tag_layout (u32s [''mod_start'', ''mod_end'', ''cmdline''])"

subsection \<open>The registers at an interrupt\<close>

definition frame_registers :: "string list" where
  "frame_registers = [''ds'', ''edi'', ''esi'', ''ebp'', ''esp'', ''ebx'', ''edx'', ''ecx'', ''eax'', ''int_no'', ''err_code'',
     ''eip'', ''cs'', ''eflags'']"

text \<open>interrupt_frame.h, irq.h, isr_regs.h, registers.h, and idt.h of kernel/include.\<close>

definition interrupt_frame_layout :: ctype where
  "interrupt_frame_layout = Struct False (u32s frame_registers @ u32s [''user_esp'', ''user_ss''])"

definition irq_frame_layout :: ctype where
  "irq_frame_layout = Struct False (u32s frame_registers @ u32s [''useresp'', ''ss''])"

definition isr_regs_layout :: ctype where
  "isr_regs_layout = Struct False (u32s frame_registers @ u32s [''user_esp'', ''ss''])"

definition registers_layout :: ctype where
  "registers_layout = Struct False (u32s frame_registers @ u32s [''useresp'', ''ss''])"

definition idt_frame_layout :: ctype where
  "idt_frame_layout = Struct False (u32s frame_registers @ u32s [''user_esp'', ''ss''])"

subsection \<open>Structures of interfaces without code\<close>

definition loaded_module_layout :: ctype where
  "loaded_module_layout = Struct False [(''name'', Arr U8 64), (''address'', Ptr), (''size'', U32), (''type'', U32)]"

definition module_manifest_layout :: ctype where
  "module_manifest_layout = Struct False [(''name'', Arr U8 32), (''type'', Arr U8 16), (''version'', Arr U8 16),
     (''deps'', Arr (Arr U8 32) 10), (''caps'', Arr (Arr U8 32) 10), (''entry_point'', Arr U8 32), (''exit_point'', Arr U8 32),
     (''num_deps'', U32), (''num_caps'', U32)]"

definition module_message_layout :: ctype where
  "module_message_layout = Struct False [(''type'', U32), (''data'', Ptr), (''size'', U32)]"

definition old_module_layout :: ctype where
  "old_module_layout = Struct False [(''name'', Arr U8 32), (''loaded'', U32), (''data'', Ptr), (''size'', U32)]"

definition initrd_header_layout :: ctype where
  "initrd_header_layout = Struct False [(''num_files'', U32), (''file_headers'', Arr U32 0)]"

definition initrd_file_layout :: ctype where
  "initrd_file_layout = Struct False [(''name'', Arr U8 64), (''offset'', U32), (''size'', U32), (''data'', Arr U8 0)]"

definition initrd_binary_header_layout :: ctype where
  "initrd_binary_header_layout = Struct False (u32s [''magic'', ''module_count''])"

definition mm_stats_layout :: ctype where
  "mm_stats_layout = Struct False (u32s [''total_memory'', ''free_memory''])"

definition ipc_buffer_layout :: ctype where
  "ipc_buffer_layout = Struct False [(''data'', Ptr), (''size'', U32)]"

definition mm_space_layout :: ctype where
  "mm_space_layout = Struct False (u32s [''start'', ''size'', ''owner''])"

definition performance_stats_layout :: ctype where
  "performance_stats_layout = Struct False (u64s [''ipc_calls'', ''module_loads'', ''context_switches'', ''memory_allocations'',
     ''cache_hits'', ''cache_misses'', ''last_analysis_time''])"

datatype perf_stat_type_t =
    PERF_STAT_IPC_CALLS | PERF_STAT_MODULE_LOADS | PERF_STAT_CONTEXT_SWITCHES | PERF_STAT_MEMORY_ALLOCS
  | PERF_STAT_CACHE_HITS | PERF_STAT_CACHE_MISSES

datatype perf_event_type_t =
    PERF_EVENT_IPC_OPTIMIZATION | PERF_EVENT_MODULE_OPTIMIZATION | PERF_EVENT_SCHEDULER_OPTIMIZATION
  | PERF_EVENT_MEMORY_OPTIMIZATION

definition optimization_hints_layout :: ctype where
  "optimization_hints_layout = Struct False [(''increase_ipc_cache'', U8), (''ipc_cache_size_hint'', U32), (''preload_modules'', U8),
     (''preload_hint_count'', U32), (''use_batch_alloc'', U8)]"

lemmas kernel_layouts = mem_block_layout_def list_head_layout_def ipc_message_layout_def ipc_message_node_layout_def
  interface_entry_layout_def elf_header_layout_def elf_program_header_layout_def storage_interface_layout_def
  filesystem_interface_layout_def gdt_entry_layout_def idt_entry_layout_def gdt_ptr_layout_def idt_ptr_layout_def
  module_layout_def managed_module_layout_def

lemmas multiboot_layouts = multiboot_common_def multiboot_tables_def multiboot_vbe_def multiboot_info_layout_def
  packed_multiboot_info_layout_def symbol_table_layout_def union_multiboot_info_layout_def initrd_multiboot_info_layout_def
  multiboot_module_layout_def packed_multiboot_module_layout_def plain_multiboot_module_layout_def
  initrd_multiboot_module_layout_def multiboot_header_layout_def multiboot_mmap_entry_layout_def

lemmas tag_layouts = tag_layout_def multiboot_tag_layout_def multiboot_tag_string_layout_def multiboot_tag_module_layout_def
  multiboot_tag_basic_meminfo_layout_def multiboot_tag_bootdev_layout_def multiboot2_mmap_entry_layout_def
  multiboot_tag_mmap_layout_def short_multiboot_tag_layout_def short_multiboot_tag_module_layout_def

lemmas frame_layouts = frame_registers_def interrupt_frame_layout_def irq_frame_layout_def isr_regs_layout_def
  registers_layout_def idt_frame_layout_def

lemmas other_layouts = loaded_module_layout_def module_manifest_layout_def module_message_layout_def old_module_layout_def
  initrd_header_layout_def initrd_file_layout_def initrd_binary_header_layout_def mm_stats_layout_def ipc_buffer_layout_def
  mm_space_layout_def performance_stats_layout_def optimization_hints_layout_def

lemmas layout_eval = member_of_def offset_of_def field_lists cplace_def round_up_def

end
