(* ===== verification/Layout_Props.thy ===== *)
theory Layout_Props
  imports Layouts Elf Ipc Initrd_Fs Modules_Props Interrupts_Props Assembler
begin

text \<open>
  The layouts and the model: every accessor of the other theories reads and writes the member the C code
  names, the members of the structures of the kernel are independent, the descriptor tables lie in memory
  as the processor reads them, and where two headers disagree about a structure.
\<close>

subsection \<open>The accessors of the model\<close>

lemmas member_eval = read_member_def layout_eval

lemma block_members:
  "read_member mem_block_layout ''size'' m p = Some (unat (blk_size m p))"
  "read_member mem_block_layout ''next'' m p = Some (unat (blk_next m p))"
  "\<exists>v. read_member mem_block_layout ''free'' m p = Some v \<and> (blk_free m p \<longleftrightarrow> v \<noteq> 0)"
  "read_member mem_block_layout ''magic'' m p = Some (unat (blk_magic m p))"
  "sizeof_mem_block = of_nat (csize mem_block_layout)"
  by (simp_all add: mem_block_layout_def member_eval blk_defs sizeof_mem_block_def unat_gt_0)

lemma node_members:
  "read_member list_head_layout ''next'' m p = Some (unat (lnext m p))"
  "read_member list_head_layout ''prev'' m p = Some (unat (lprev m p))"
  by (simp_all add: list_head_layout_def member_eval lnext_def lprev_def)

lemma member_writes:
  "write_member mem_block_layout ''size'' (unat v) m p = Some (set_blk_size m p v)"
  "write_member mem_block_layout ''next'' (unat v) m p = Some (set_blk_next m p v)"
  "write_member mem_block_layout ''free'' (of_bool b) m p = Some (set_blk_free m p b)"
  "write_member mem_block_layout ''magic'' (unat v) m p = Some (set_blk_magic m p v)"
  "write_member list_head_layout ''next'' (unat v) m p = Some (set_lnext m p v)"
  "write_member list_head_layout ''prev'' (unat v) m p = Some (set_lprev m p v)"
  by (simp_all add: mem_block_layout_def list_head_layout_def write_member_def layout_eval blk_defs set_lnext_def set_lprev_def)

lemma message_members:
  "member_of ipc_message_node_layout ''message'' = Some (8, ipc_message_layout)"
  "read_member ipc_message_layout ''from_pid'' m (p + 8) = Some (unat (msg_from m p))"
  "read_member ipc_message_layout ''to_pid'' m (p + 8) = Some (unat (msg_to m p))"
  "read_member ipc_message_layout ''type'' m (p + 8) = Some (unat (msg_type m p))"
  "read_member ipc_message_layout ''size'' m (p + 8) = Some (unat (msg_size m p))"
  "msg_data p = p + 8 + of_nat (the (offset_of ipc_message_layout ''data''))"
  "sizeof_ipc_message_node = of_nat (csize ipc_message_node_layout)"
  by (simp_all add: ipc_message_node_layout_def ipc_message_layout_def list_head_layout_def member_eval add.assoc
    msg_from_def msg_to_def msg_type_def msg_size_def msg_data_def sizeof_ipc_message_node_def)

lemma entry_members:
  "read_member interface_entry_layout ''interface'' m p = Some (unat (entry_interface m p))"
  "read_member interface_entry_layout ''next'' m p = Some (unat (entry_next m p))"
  "sizeof_interface_entry = of_nat (csize interface_entry_layout)"
  "read_member storage_interface_layout ''read'' m p = Some (unat (storage_read m p))"
  by (simp_all add: interface_entry_layout_def storage_interface_layout_def member_eval
    entry_interface_def entry_next_def sizeof_interface_entry_def storage_read_def)

lemma elf_members:
  "read_member elf_header_layout ''magic'' m p = Some (unat (eh_magic m p))"
  "read_member elf_header_layout ''type'' m p = Some (unat (eh_type m p))"
  "read_member elf_header_layout ''machine'' m p = Some (unat (eh_machine m p))"
  "read_member elf_header_layout ''entry'' m p = Some (unat (eh_entry m p))"
  "read_member elf_header_layout ''phoff'' m p = Some (unat (eh_phoff m p))"
  "read_member elf_header_layout ''phnum'' m p = Some (unat (eh_phnum m p))"
  by (simp_all add: elf_header_layout_def member_eval eh_magic_def eh_type_def eh_machine_def eh_entry_def
    eh_phoff_def eh_phnum_def)

lemma program_header_members:
  "read_member elf_program_header_layout ''type'' m p = Some (unat (ph_type m p))"
  "read_member elf_program_header_layout ''offset'' m p = Some (unat (ph_offset m p))"
  "read_member elf_program_header_layout ''filesz'' m p = Some (unat (ph_filesz m p))"
  "read_member elf_program_header_layout ''memsz'' m p = Some (unat (ph_memsz m p))"
  "sizeof_program_header = of_nat (csize elf_program_header_layout)"
  by (simp_all add: elf_program_header_layout_def member_eval ph_type_def ph_offset_def ph_filesz_def ph_memsz_def
    sizeof_program_header_def)

lemma module_members:
  "mod_name p = p + of_nat (the (offset_of managed_module_layout ''name''))"
  "read_member managed_module_layout ''init'' m p = Some (unat (mod_init m p))"
  by (simp_all add: managed_module_layout_def list_head_layout_def member_eval mod_name_def mod_init_def)

lemma table_sizes:
  "sizeof_gdt_entry = of_nat (csize gdt_entry_layout)" "sizeof_idt_entry = of_nat (csize idt_entry_layout)"
  by (simp_all add: gdt_entry_layout_def idt_entry_layout_def layout_eval sizeof_gdt_entry_def sizeof_idt_entry_def)

definition multiboot_infos :: "ctype list" where
  "multiboot_infos = [multiboot_info_layout, packed_multiboot_info_layout, union_multiboot_info_layout, initrd_multiboot_info_layout]"

lemma multiboot_members:
  assumes "t \<in> set multiboot_infos"
  shows "read_member t ''flags'' m p = Some (unat (mb_flags m p))"
    "read_member t ''mem_lower'' m p = Some (unat (mb_mem_lower m p))"
    "read_member t ''mem_upper'' m p = Some (unat (mb_mem_upper m p))"
  using assms
  by (auto simp: multiboot_infos_def multiboot_layouts member_eval mb_flags_def mb_mem_lower_def mb_mem_upper_def)

text \<open>The model accesses structures in memory at offsets; these are the offsets of the declared members.
  The accessors below read or write the member of their name, and the sizes are those of the structures.
  (The routines that fill a whole message, registry entry or interface have their own lemmas.)\<close>

theorem accessors_read_members:
  "read_member mem_block_layout ''size'' m p = Some (unat (blk_size m p))
   \<and> read_member mem_block_layout ''next'' m p = Some (unat (blk_next m p))
   \<and> (\<exists>v. read_member mem_block_layout ''free'' m p = Some v \<and> (blk_free m p \<longleftrightarrow> v \<noteq> 0))
   \<and> read_member mem_block_layout ''magic'' m p = Some (unat (blk_magic m p))
   \<and> read_member list_head_layout ''next'' m p = Some (unat (lnext m p))
   \<and> read_member list_head_layout ''prev'' m p = Some (unat (lprev m p))
   \<and> write_member mem_block_layout ''size'' (unat v) m p = Some (set_blk_size m p v)
   \<and> write_member mem_block_layout ''next'' (unat v) m p = Some (set_blk_next m p v)
   \<and> write_member mem_block_layout ''free'' (of_bool b) m p = Some (set_blk_free m p b)
   \<and> write_member mem_block_layout ''magic'' (unat v) m p = Some (set_blk_magic m p v)
   \<and> write_member list_head_layout ''next'' (unat v) m p = Some (set_lnext m p v)
   \<and> write_member list_head_layout ''prev'' (unat v) m p = Some (set_lprev m p v)
   \<and> member_of ipc_message_node_layout ''message'' = Some (8, ipc_message_layout)
   \<and> read_member ipc_message_layout ''from_pid'' m (p + 8) = Some (unat (msg_from m p))
   \<and> read_member ipc_message_layout ''to_pid'' m (p + 8) = Some (unat (msg_to m p))
   \<and> read_member ipc_message_layout ''type'' m (p + 8) = Some (unat (msg_type m p))
   \<and> read_member ipc_message_layout ''size'' m (p + 8) = Some (unat (msg_size m p))
   \<and> msg_data p = p + 8 + of_nat (the (offset_of ipc_message_layout ''data''))
   \<and> read_member interface_entry_layout ''interface'' m p = Some (unat (entry_interface m p))
   \<and> read_member interface_entry_layout ''next'' m p = Some (unat (entry_next m p))
   \<and> read_member elf_header_layout ''magic'' m p = Some (unat (eh_magic m p))
   \<and> read_member elf_header_layout ''type'' m p = Some (unat (eh_type m p))
   \<and> read_member elf_header_layout ''machine'' m p = Some (unat (eh_machine m p))
   \<and> read_member elf_header_layout ''entry'' m p = Some (unat (eh_entry m p))
   \<and> read_member elf_header_layout ''phoff'' m p = Some (unat (eh_phoff m p))
   \<and> read_member elf_header_layout ''phnum'' m p = Some (unat (eh_phnum m p))
   \<and> read_member elf_program_header_layout ''type'' m p = Some (unat (ph_type m p))
   \<and> read_member elf_program_header_layout ''offset'' m p = Some (unat (ph_offset m p))
   \<and> read_member elf_program_header_layout ''filesz'' m p = Some (unat (ph_filesz m p))
   \<and> read_member elf_program_header_layout ''memsz'' m p = Some (unat (ph_memsz m p))
   \<and> read_member storage_interface_layout ''read'' m p = Some (unat (storage_read m p))
   \<and> mod_name p = p + of_nat (the (offset_of managed_module_layout ''name''))
   \<and> read_member managed_module_layout ''init'' m p = Some (unat (mod_init m p))
   \<and> sizeof_mem_block = of_nat (csize mem_block_layout)
   \<and> sizeof_ipc_message_node = of_nat (csize ipc_message_node_layout)
   \<and> sizeof_interface_entry = of_nat (csize interface_entry_layout)
   \<and> sizeof_program_header = of_nat (csize elf_program_header_layout)
   \<and> sizeof_gdt_entry = of_nat (csize gdt_entry_layout) \<and> sizeof_idt_entry = of_nat (csize idt_entry_layout)
   \<and> list_all (\<lambda>t.
       read_member t ''flags'' m p = Some (unat (mb_flags m p))
       \<and> read_member t ''mem_lower'' m p = Some (unat (mb_mem_lower m p))
       \<and> read_member t ''mem_upper'' m p = Some (unat (mb_mem_upper m p))) multiboot_infos"
  unfolding list_all_iff
  by (intro conjI ballI block_members node_members member_writes message_members entry_members elf_members program_header_members
    module_members table_sizes multiboot_members)

subsection \<open>Independent members\<close>

definition kernel_structures :: "ctype list" where
  "kernel_structures = [mem_block_layout, list_head_layout, ipc_message_layout, ipc_message_node_layout, interface_entry_layout,
     elf_header_layout, elf_program_header_layout, storage_interface_layout, filesystem_interface_layout, gdt_entry_layout,
     idt_entry_layout, gdt_ptr_layout, idt_ptr_layout, module_layout, managed_module_layout]
   @ multiboot_infos @ [multiboot_module_layout, packed_multiboot_module_layout, plain_multiboot_module_layout,
     initrd_multiboot_module_layout, multiboot_header_layout, multiboot_mmap_entry_layout]
   @ [multiboot_tag_layout, multiboot_tag_string_layout, multiboot_tag_module_layout, multiboot_tag_basic_meminfo_layout,
     multiboot_tag_bootdev_layout, multiboot2_mmap_entry_layout, multiboot_tag_mmap_layout, short_multiboot_tag_layout,
     short_multiboot_tag_module_layout]
   @ [interrupt_frame_layout, irq_frame_layout, isr_regs_layout, registers_layout, idt_frame_layout]
   @ [loaded_module_layout, module_manifest_layout, module_message_layout, old_module_layout, initrd_header_layout,
     initrd_file_layout, initrd_binary_header_layout, mm_stats_layout, ipc_buffer_layout, mm_space_layout,
     performance_stats_layout, optimization_hints_layout]"

fun small_struct :: "ctype \<Rightarrow> bool" where
  "small_struct (Struct pack fs) \<longleftrightarrow> csize (Struct pack fs) \<le> 1024"
| "small_struct t \<longleftrightarrow> False"

lemma small_structures: "list_all small_struct kernel_structures"
  by code_simp

text \<open>In every structure of the kernel the members lie inside the structure, a member reads back as it
  was written, and writing it changes no other member and nothing outside of the structure.\<close>

theorem members_independent:
  assumes "t \<in> set kernel_structures" "write_member t f v m p = Some m'"
  shows "\<exists>i u. member_of t f = Some (i, u) \<and> i + csize u \<le> csize t
    \<and> (v < 256 ^ csize u \<longrightarrow> read_member t f m' p = Some v)
    \<and> (\<forall>g. g \<noteq> f \<longrightarrow> read_member t g m' p = read_member t g m p)
    \<and> (\<forall>x. x \<notin> span p (csize t) \<longrightarrow> m' x = m x)"
proof -
  from small_structures assms(1) have "small_struct t"
    by (simp add: list_all_iff)
  then obtain pack fs where t: "t = Struct pack fs" "csize (Struct pack fs) < 4294967296"
    by (cases t) simp_all
  from assms(2) obtain i u where iu: "member_of t f = Some (i, u)"
    by (auto simp: write_member_def split: option.splits)
  note w = write_member_read [OF assms(2) [unfolded t(1)] t(2)]
  have "i + csize u \<le> csize t"
    using iu members_inside(1) by (simp only: t(1))
  moreover have "v < 256 ^ csize u \<longrightarrow> read_member t f m' p = Some v"
    using iu w(1) by (simp only: t(1)) blast
  ultimately show ?thesis
    using iu w(2,3) unfolding t(1) by (intro exI [of _ i] exI [of _ u]) (simp only: simp_thms, blast)
qed

theorem members_independent_witness:
  "\<exists>m'. write_member mem_block_layout ''free'' 1 (\<lambda>_. 0xAA) 0x1000 = Some m'
    \<and> read_member mem_block_layout ''free'' m' 0x1000 = Some 1
    \<and> read_member mem_block_layout ''magic'' m' 0x1000 = Some 0xAAAAAAAA \<and> m' 0x1010 = 0xAA"
proof -
  have struct: "mem_block_layout \<in> set kernel_structures"
    by (simp add: kernel_structures_def)
  have size: "csize mem_block_layout = 16"
    by (simp add: mem_block_layout_def layout_eval)
  obtain m' where m': "write_member mem_block_layout ''free'' 1 (\<lambda>_. 0xAA) 0x1000 = Some m'"
    by (simp add: mem_block_layout_def write_member_def layout_eval)
  have mem: "member_of mem_block_layout ''free'' = Some (8, U8)"
    by (simp add: mem_block_layout_def layout_eval)
  from members_independent [OF struct m']
  have r: "read_member mem_block_layout ''free'' m' 0x1000 = Some 1"
      "\<And>g. g \<noteq> ''free'' \<Longrightarrow> read_member mem_block_layout g m' 0x1000 = read_member mem_block_layout g (\<lambda>_. 0xAA) 0x1000"
      "\<And>x. x \<notin> span 0x1000 16 \<Longrightarrow> m' x = 0xAA"
    unfolding mem size by simp_all
  moreover have "read_member mem_block_layout ''magic'' (\<lambda>_. 0xAA) 0x1000 = Some 0xAAAAAAAA"
    by (simp add: mem_block_layout_def member_eval load32_def)
  moreover have "0x1010 \<notin> span 0x1000 16"
    by (simp add: in_span_nowrap)
  ultimately show ?thesis
    using m' r(1) r(2) [of "''magic''"] r(3) [of "0x1010"] by simp
qed

subsection \<open>The two module structures\<close>

text \<open>C36. The module manager and the modules mean different structures. A module's own structure has 60
  bytes, with its magic number first and \<open>init\<close> at 52. When it is registered, the manager overwrites
  the magic number with the address of the list and the first four letters of the name with that of the
  module before; and the function it will call for the module is what lies 20 bytes behind the end of the
  structure, whatever the structure holds.\<close>

theorem module_layouts_conflict:
  fixes s :: "'a machine_scheme"
  assumes "ring (mem s) modules ps" "p \<noteq> NULL" "\<And>q. q \<in> set (modules # ps) \<Longrightarrow> apart p q"
  shows "csize module_layout = 60 \<and> offset_of module_layout ''init'' = Some 52
    \<and> offset_of managed_module_layout ''init'' = Some (csize module_layout + 20)
    \<and> read_member module_layout ''magic'' (mem (register_kernel_module modules p s)) p = Some (unat modules)
    \<and> offset_of module_layout ''name'' = Some 4
    \<and> load32 (mem (register_kernel_module modules p s)) (p + 4) = last (modules # ps)
    \<and> (\<forall>m. (\<forall>x. x \<notin> span p (csize module_layout) \<longrightarrow> m x = mem s x) \<longrightarrow> mod_init m p = mod_init (mem s) p)"
proof -
  let ?m1 = "INIT_LIST_HEAD (mem s) p"
  let ?m2 = "list_add_tail ?m1 p modules"
  have sizes: "csize module_layout = 60" "offset_of module_layout ''init'' = Some 52" "offset_of module_layout ''name'' = Some 4"
    "offset_of managed_module_layout ''init'' = Some 80"
    by (simp_all add: module_layout_def managed_module_layout_def list_head_layout_def layout_eval)
  have mem: "mem (register_kernel_module modules p s) = ?m2"
    using assms(2) by (simp add: register_kernel_module_def Let_def)
  have "ring ?m1 modules ps"
  proof (rule ring_frame [OF assms(1)])
    fix x
    assume "x \<in> cells (modules # ps)"
    with assms(3) have "x \<notin> cell p"
      unfolding cells_def apart_def by blast
    then show "?m1 x = mem s x"
      by (simp add: INIT_LIST_HEAD_def set_link_other)
  qed
  then have "ring ?m2 modules (ps @ [p])"
    by (intro ring_list_add_tail assms(3))
  then have lk: "links ?m2 modules ps p" "lnext ?m2 p = modules"
    by (simp_all add: ring_def)
  have magic: "read_member module_layout ''magic'' ?m2 p = Some (unat modules)"
    using lk(2) by (simp add: module_layout_def member_eval lnext_def)
  have name: "load32 ?m2 (p + 4) = last (modules # ps)"
    using links_ends [OF lk(1)] by (simp add: lprev_def)
  have init: "mod_init m p = mod_init (mem s) p" if "\<forall>x. x \<notin> span p 60 \<longrightarrow> m x = mem s x" for m
  proof -
    have "span p 60 \<inter> span (p + 80) 4 = {}"
      by (rule span_disjoint) simp_all
    then show ?thesis
      unfolding mod_init_def using that by (intro load32_span) blast
  qed
  show ?thesis
    unfolding sizes mem by (intro conjI allI impI refl magic name init) simp_all
qed

theorem module_layouts_conflict_witness:
  "read_member module_layout ''magic'' (mem (register_kernel_module 0x1000 0x2000 no_modules)) 0x2000 = Some 0x1000"
proof -
  have "span (0x2000 :: addr) 8 \<inter> span 0x1000 8 = {}"
    by (rule span_disjoint) simp_all
  with module_layouts_conflict [of no_modules "0x1000" "[]" "0x2000"] no_modules_rep(1) show ?thesis
    by (simp add: modules_rep_def apart_def cell_def)
qed

subsection \<open>The headers of the boot loader\<close>

text \<open>MULTIBOOT_HEADER_MAGIC, the flags of the header, and the flags of the boot information.\<close>

definition MULTIBOOT_HEADER_MAGIC :: u32 where "MULTIBOOT_HEADER_MAGIC = 0x1BADB002"
definition MULTIBOOT_BOOTLOADER_MAGIC :: u32 where "MULTIBOOT_BOOTLOADER_MAGIC = 0x2BADB002"
definition MULTIBOOT_PAGE_ALIGN :: u32 where "MULTIBOOT_PAGE_ALIGN = 1"
definition MULTIBOOT_MEMORY_INFO :: u32 where "MULTIBOOT_MEMORY_INFO = 2"

definition multiboot_flags :: "(string \<times> u32) list" where
  "multiboot_flags = [(''MEMORY'', 0x1), (''BOOTDEV'', 0x2), (''CMDLINE'', 0x4), (''MODULES'', 0x8), (''AOUT_SYMS'', 0x10),
     (''ELF_SYMS'', 0x20), (''MEM_MAP'', 0x40), (''DRIVE_INFO'', 0x80), (''CONFIG_TABLE'', 0x100), (''BOOT_LOADER'', 0x200),
     (''APM_TABLE'', 0x400), (''VBE_INFO'', 0x800), (''FRAMEBUFFER_INFO'', 0x1000)]"

definition packed_multiboot_flags :: "(string \<times> u32) list" where
  "packed_multiboot_flags = [(''MEMORY'', 0x1), (''BOOTDEV'', 0x2), (''CMDLINE'', 0x4), (''MODULES'', 0x8), (''AOUT_SYMS'', 0x10),
     (''ELF_SYMS'', 0x20), (''MEM_MAP'', 0x40), (''DRIVE_INFO'', 0x80), (''CONFIG_TABLE'', 0x100), (''BOOT_LOADER'', 0x200),
     (''APM_TABLE'', 0x400), (''VBE_INFO'', 0x800)]"

definition union_multiboot_flags :: "(string \<times> u32) list" where
  "union_multiboot_flags = [(''MEMORY'', 0x1), (''BOOTDEV'', 0x2), (''CMDLINE'', 0x4), (''MODULES'', 0x8), (''AOUT_SYMS'', 0x10),
     (''ELF_SYMS'', 0x20), (''MEM_MAP'', 0x40), (''DRIVE_INFO'', 0x80), (''CONFIG_TABLE'', 0x100), (''BOOT_LOADER'', 0x200),
     (''APM_TABLE'', 0x400), (''VIDEO_INFO'', 0x800)]"

text \<open>The three headers number the flags alike, one bit each, and \<open>mm.c\<close> tests the first of them; the tags
  of the second version are numbered alike; boot.asm writes the first three members of the header.\<close>

theorem multiboot_flags_agree:
  "map snd multiboot_flags = map (\<lambda>i. push_bit i 1) [0..<13]"
  "packed_multiboot_flags = butlast multiboot_flags" "butlast union_multiboot_flags = butlast packed_multiboot_flags"
  "map_of multiboot_flags ''MEMORY'' = Some MULTIBOOT_INFO_MEMORY"
  by (simp_all add: multiboot_flags_def packed_multiboot_flags_def union_multiboot_flags_def MULTIBOOT_INFO_MEMORY_def upt_rec)

theorem multiboot_tags_agree:
  "map snd multiboot_tag_types = [0..<22]"
  "map_of multiboot_tag_types ''END'' = map_of short_multiboot_tag_types ''END''"
  "map_of multiboot_tag_types ''MODULE'' = map_of short_multiboot_tag_types ''MODULE''"
  by (simp_all add: multiboot_tag_types_def short_multiboot_tag_types_def upt_rec)

theorem multiboot_header_members:
  "map (\<lambda>f. offset_of multiboot_header_layout f) [''magic'', ''flags'', ''checksum''] = [Some 0, Some 4, Some 8]"
  "take 2 multiboot_header = [MULTIBOOT_HEADER_MAGIC, MULTIBOOT_PAGE_ALIGN OR MULTIBOOT_MEMORY_INFO]"
  by (simp_all add: multiboot_header_layout_def layout_eval multiboot_header_def MULTIBOOT_HEADER_MAGIC_def
    MULTIBOOT_PAGE_ALIGN_def MULTIBOOT_MEMORY_INFO_def)

text \<open>32-bit members at an aligned offset follow each other, packed or not.\<close>

lemma placed_u32s:
  "placed pack (4 * k) (u32s fs @ gs) = map (\<lambda>(i, f). (f, 4 * i, U32)) (enumerate k fs) @ placed pack (4 * (k + length fs)) gs"
proof (induction fs arbitrary: k)
  case (Cons f fs)
  have "cplace pack (4 * k) 4 = 4 * k"
    by (simp add: cplace_def round_up_def)
  with Cons [of "Suc k"] show ?case
    by (simp add: u32s_def add.commute)
qed (simp add: u32s_def)

text \<open>The members up to \<open>vbe_mode_info\<close>, with \<open>x\<close> for the symbol table.\<close>

definition info_members :: "string \<times> ctype \<Rightarrow> (string \<times> nat \<times> ctype) list" where
  "info_members x = map (\<lambda>(i, f). (f, 4 * i, U32)) (enumerate 0 multiboot_common)
     @ (fst x, 28, snd x) # map (\<lambda>(i, f). (f, 4 * i, U32)) (enumerate 11 multiboot_tables)"

lemma info_placed:
  assumes "calign u = 4" "csize u = 16"
  shows "placed pack 0 (u32s multiboot_common @ (g, u) # u32s multiboot_tables @ gs) = info_members (g, u) @ placed pack 80 gs"
proof -
  have "length multiboot_common = 7" "length multiboot_tables = 9"
    by (simp_all add: multiboot_common_def multiboot_tables_def)
  moreover have "cplace pack 28 4 = 28"
    by (simp add: cplace_def round_up_def)
  ultimately show ?thesis
    using placed_u32s [of pack 0 multiboot_common] placed_u32s [of pack 11 multiboot_tables]
    by (simp add: assms info_members_def)
qed

lemma info_members_lookup:
  assumes "f \<in> set (multiboot_common @ multiboot_tables)" "fst x \<notin> set (multiboot_common @ multiboot_tables)"
  shows "map_of (info_members x @ r) f = map_of (map (\<lambda>(i, f). (f, 4 * i, U32)) (enumerate 0 multiboot_common @ enumerate 11 multiboot_tables)) f"
proof -
  let ?c = "map (\<lambda>(i, f). (f, 4 * i, U32)) (enumerate 0 multiboot_common)"
  let ?t = "map (\<lambda>(i, f). (f, 4 * i, U32)) (enumerate 11 multiboot_tables)"
  have "map fst (map (\<lambda>(i, f). (f, 4 * i, U32)) (enumerate k fs)) = fs" for k :: nat and fs :: "string list"
    by (simp add: comp_def case_prod_beta')
  then have "fst ` set (map (\<lambda>(i, f). (f, 4 * i, U32)) (enumerate k fs)) = set fs" for k :: nat and fs :: "string list"
    by (metis set_map)
  then have "map_of ?c f \<noteq> None \<or> map_of ?t f \<noteq> None"
    using assms(1) by (auto simp: map_of_eq_None_iff simp del: set_map)
  moreover have "f \<noteq> fst x" using assms by auto
  ultimately show ?thesis
    by (auto simp: info_members_def map_add_def split: option.splits)
qed

text \<open>All declarations of the boot information agree up to \<open>vbe_mode_info\<close>. After that the one the kernel
  includes has four 32-bit members where the boot loader writes four 16-bit ones: its \<open>vbe_mode\<close> reads
  two of them at once, and its last two members lie behind the structure.\<close>

lemma symbol_table_words: "calign symbol_table_layout = 4" "csize symbol_table_layout = 16"
  by (simp_all add: symbol_table_layout_def layout_eval)

theorem multiboot_headers_agree:
  assumes "t \<in> {packed_multiboot_info_layout, union_multiboot_info_layout}" "f \<in> set (multiboot_common @ multiboot_tables)"
  shows "member_of t f = member_of multiboot_info_layout f"
proof -
  have names: "''syms'' \<notin> set (multiboot_common @ multiboot_tables)" "''u'' \<notin> set (multiboot_common @ multiboot_tables)"
    by (simp_all add: multiboot_common_def multiboot_tables_def)
  have "\<exists>r. members multiboot_info_layout = info_members (''syms'', Arr U32 4) @ r"
    "\<exists>r. members packed_multiboot_info_layout = info_members (''syms'', Arr U32 4) @ r"
    unfolding multiboot_info_layout_def packed_multiboot_info_layout_def by (simp_all add: info_placed)
  moreover have "\<exists>t r. members union_multiboot_info_layout = info_members (''u'', t) @ r"
    using info_placed [of symbol_table_layout False "''u''"] symbol_table_words by (auto simp: union_multiboot_info_layout_def)
  ultimately show ?thesis
    using assms
    unfolding member_of_def using info_members_lookup [of f] names by (elim insertE emptyE exE) simp_all
qed

theorem multiboot_headers_diverge:
  "csize multiboot_info_layout = 96" "csize packed_multiboot_info_layout = 88" "csize union_multiboot_info_layout = 88"
  "offset_of multiboot_info_layout ''vbe_interface_off'' = Some 88"
  "offset_of packed_multiboot_info_layout ''vbe_interface_off'' = Some 84"
  by (simp_all add: multiboot_layouts layout_eval)

subsection \<open>The registers at an interrupt\<close>

text \<open>The five declarations of the saved registers have the same 16 words, and the three words of the
  processor follow each other as it pushes them.\<close>

lemma u32s_append: "u32s fs @ u32s gs = u32s (fs @ gs)"
  by (simp add: u32s_def)

lemma frame_members:
  assumes "length fs = 2"
  shows "members (Struct False (u32s frame_registers @ u32s fs)) = map (\<lambda>(i, f). (f, 4 * i, U32)) (enumerate 0 (frame_registers @ fs))"
  using placed_u32s [of False 0 "frame_registers @ fs" "[]"] by (simp only: u32s_append append_Nil2 members.simps mult_0_right placed.simps)

theorem interrupt_frames_agree:
  assumes "t \<in> {interrupt_frame_layout, irq_frame_layout, isr_regs_layout, registers_layout, idt_frame_layout}"
  shows "map snd (members t) = map (\<lambda>i. (4 * i, U32)) [0..<16]"
    "map (offset_of t) [''int_no'', ''err_code'', ''eip'', ''cs'', ''eflags''] = [Some 36, Some 40, Some 44, Some 48, Some 52]"
proof -
  from assms obtain fs where t: "t = Struct False (u32s frame_registers @ u32s fs)" "length fs = 2"
    by (elim insertE emptyE) (auto simp: interrupt_frame_layout_def irq_frame_layout_def isr_regs_layout_def
        registers_layout_def idt_frame_layout_def)
  note mem = frame_members [OF t(2)]
  have "map snd (map (\<lambda>(i, f). (f, 4 * i, U32)) (enumerate 0 gs)) = map (\<lambda>i. (4 * i, U32)) [0..<length gs]" for gs :: "string list"
    by (auto simp: enumerate_eq_zip intro!: nth_equalityI)
  moreover have "length (frame_registers @ fs) = 16"
    using t(2) by (simp add: frame_registers_def)
  ultimately show "map snd (members t) = map (\<lambda>i. (4 * i, U32)) [0..<16]"
    unfolding t(1) mem by metis
  show "map (offset_of t) [''int_no'', ''err_code'', ''eip'', ''cs'', ''eflags''] = [Some 36, Some 40, Some 44, Some 48, Some 52]"
    unfolding t(1) offset_of_def member_of_def mem by (simp add: frame_registers_def)
qed

subsection \<open>The descriptor tables in memory\<close>

lemma load32_halves: "load32 m a = ucast (load16 m a) OR push_bit 16 (ucast (load16 m (a + 2)))"
proof (rule bit_word_eqI)
  fix n
  assume "n < LENGTH(32)"
  have out8: "k < 8" if "bit (w :: u8) k" for w k
    using bit_imp_le_length [OF that] by simp
  consider "n < 8" | "8 \<le> n" "n < 16" | "16 \<le> n" "n < 24" | "24 \<le> n" "n < 32"
    using \<open>n < LENGTH(32)\<close> by (simp, linarith)
  then show "bit (load32 m a) n = bit (ucast (load16 m a) OR push_bit 16 (ucast (load16 m (a + 2))) :: u32) n"
    by cases (auto simp: load32_def load16_def bit_simps add.assoc dest: out8)
qed

text \<open>A descriptor that lies in memory as gdt.h and idt.h declare it is the 64-bit value in which the
  processor finds base, limit and gate: the two words it loads are the halves of that value.\<close>

theorem gdt_entry_in_memory:
  assumes "map (\<lambda>f. read_member gdt_entry_layout f m p)
      [''limit_low'', ''base_low'', ''base_middle'', ''access'', ''granularity'', ''base_high'']
    = map Some [unat (limit_low e), unat (base_low e), unat (base_middle e), unat (access e), unat (granularity e), unat (base_high e)]"
  shows "load32 m p = ucast (gdt_entry_bits e)" "load32 m (p + 4) = ucast (drop_bit 32 (gdt_entry_bits e))"
proof -
  from assms have f: "load16 m p = limit_low e" "load16 m (p + 2) = base_low e" "m (p + 4) = base_middle e"
    "m (p + 5) = access e" "m (p + 6) = granularity e" "m (p + 7) = base_high e"
    by (simp_all add: gdt_entry_layout_def member_eval word_eq_iff_unsigned [where ?'a = nat])
  have out: "n < 16" if "bit (w :: u16) n" for w n
    using bit_imp_le_length [OF that] by simp
  have out8: "n < 8" if "bit (w :: u8) n" for w n
    using bit_imp_le_length [OF that] by simp
  show "load32 m p = ucast (gdt_entry_bits e)"
    unfolding load32_halves f by (rule bit_word_eqI) (auto simp: gdt_entry_bits_def bit_simps dest: out out8)
  show "load32 m (p + 4) = ucast (drop_bit 32 (gdt_entry_bits e))"
    by (rule bit_word_eqI) (auto simp: load32_def add.assoc f gdt_entry_bits_def bit_simps dest: out out8)
qed

theorem idt_entry_in_memory:
  assumes "map (\<lambda>f. read_member idt_entry_layout f m p) [''base_low'', ''sel'', ''always0'', ''flags'', ''base_high'']
    = map Some [unat (idt_base_low e), unat (sel e), unat (always0 e), unat (flags e), unat (idt_base_high e)]"
  shows "load32 m p = ucast (idt_entry_bits e)" "load32 m (p + 4) = ucast (drop_bit 32 (idt_entry_bits e))"
proof -
  from assms have f: "load16 m p = idt_base_low e" "load16 m (p + 2) = sel e" "m (p + 4) = always0 e"
    "m (p + 5) = flags e" "load16 m (p + 4 + 2) = idt_base_high e"
    by (simp_all add: idt_entry_layout_def member_eval add.assoc word_eq_iff_unsigned [where ?'a = nat])
  have "load16 m (p + 4) = ucast (always0 e) OR push_bit 8 (ucast (flags e))"
    by (simp add: load16_def add.assoc f)
  note halves = load32_halves this f
  have out: "n < 16" if "bit (w :: u16) n" for w n
    using bit_imp_le_length [OF that] by simp
  have out8: "n < 8" if "bit (w :: u8) n" for w n
    using bit_imp_le_length [OF that] by simp
  show "load32 m p = ucast (idt_entry_bits e)"
    unfolding halves by (rule bit_word_eqI) (auto simp: idt_entry_bits_def bit_simps dest: out out8)
  show "load32 m (p + 4) = ucast (drop_bit 32 (idt_entry_bits e))"
    unfolding halves by (rule bit_word_eqI) (auto simp: idt_entry_bits_def bit_simps dest: out out8)
qed

end
