(* ===== verification/Spec2Isabelle.thy ===== *)
theory Spec2Isabelle
  imports Mm_Runs Services_Props Console_Props Tty Interrupts_Props Boot
    Modules_Props Elf_Props Ata_Props Initrd_Props Module_Info Drivers Spinlock Library_Props Os_Builder Exceptions Self_Tests_Props External Layout_Props
begin

text \<open>
  A verification library for the SvetOS kernel, a small i386 kernel in C (source paths are relative to
  the root of the repository).

  \<^bold>\<open>The machine.\<close> The kernel runs on one processor without paging, so memory is a function from
  32-bit addresses to bytes (Memory.thy), the port accesses are a list of events and what a device
  answers is a parameter, a function of the accesses so far (Machine.thy, Console.thy). What the kernel
  prints through \<open>printk\<close> is a list of format strings, since \<open>printk\<close> ignores its other
  arguments. This is an abstraction of the trace: an operation that prints would hang with a serial port that
  stays busy, which the theories of the single components do not show. Console.thy has the same function
  down to the bytes on the serial port, with the exact condition under which it returns, and the start of
  the kernel (Boot.thy) is modelled with it, so that it can hang. Static variables
  that no pointer reaches are fields of records that extend the machine, component by component; static
  arrays and literals that pointers reach, and the code of drivers and modules, are parameters. Every
  operation is a function from state to state; a loop that the code does not bound is a partial function
  whose value \<open>None\<close> means that it runs forever, and the properties prove that it does return.

  \<^bold>\<open>The parts.\<close>
  \<^item> Prelude: C integer types as words, the collections of rules \<open>mem_simps\<close>, \<open>frame\<close> and
    \<open>layout_defs\<close>, 32-bit arithmetic. Memory: bytes, words, spans of addresses. Cstring:
    kernel/src/string.c.
  \<^item> Mm: the heap, kernel/src/mm/mm.c. Mm_Blocks and Mm_Heap: the abstract heap, a list of blocks,
    and the relation of the list to the headers in memory. Mm_Refine: \<open>kmalloc\<close> and \<open>kfree\<close> do on
    memory what best fit and pairwise merging do on the list. Mm_Contract: the locale \<open>allocator\<close>, with
    the heap as its interpretation \<open>mm\<close>. Mm_Props: the properties of each operation. Mm_Runs: all runs.
  \<^item> Klist: include/kernel/list.h, and the locale \<open>node_queue\<close> with its interpretation \<open>kq\<close>.
    Library_Props: the properties of the two libraries, string.c and list.h.
  \<^item> Ipc, Ipc_Nodes, Ipc_Props: kernel/src/ipc/ipc.c, message queues on the heap and the lists; the
    abstract mailboxes and all runs.
  \<^item> Sandbox, Sandbox_Props: kernel/src/sandbox/sandbox.c; the abstract table of capability sets and the
    isolation of the memory of sandboxes.
  \<^item> Registry, Registry_Props: kernel/src/interfaces/registry.c; the abstract association list.
  \<^item> Services, Services_Props: these three on one heap. A request is a call of one of their operations,
    and a run of requests refines the three specifications side by side.
  \<^item> Console, Console_Props: include/kernel/hal/port_io.h, kernel/src/hal/serial.c, printk.c, debug.c
    and panic.c.
  \<^item> Tty: kernel/src/vga.c and tty.c; the abstract terminal, a list of cells and a cursor.
  \<^item> Gdt: kernel/src/gdt/gdt.c; what the processor reads from a descriptor.
  \<^item> Interrupts, Interrupts_Props: kernel/src/interrupts; the interrupt controllers as the state an 8259A
    reaches by the accesses of the kernel, the gates as the processor reads them, the dispatch as the
    history of registrations.
  \<^item> Boot and this theory: kernel/src/kernel.c, the start of the kernel with all of the above. The
    initialisations it calls are there a second time (\<open>init_gdt_on\<close> to \<open>mm_init_on\<close>), printing on the serial
    port, and are shown to do what those of the other theories do to everything but the port and the log.
  \<^item> Cpu: the processor, with what it does to registers, memory and stack when it executes the
    instructions of the assembler files or delivers an interrupt through the tables above. Assembler:
    kernel/src/boot.asm, gdt/gdt_flush.asm and interrupts/exception\_stubs.asm as instruction lists.
    Exceptions: what becomes of an exception or interrupt on the tables that \<open>kernel_main\<close> leaves.
  \<^item> Modules, Modules_Props: kernel/src/modules/manager.c. Elf, Elf_Props: kernel/src/modules/loader.c
    and kernel/src/initrd/initrd.c, on the heap.
  \<^item> Ata, Ata_Props: modules/drivers/storage/ata, on a drive that keeps track of the accesses. The
    hypothesis \<open>drive_works\<close> says what an ATA drive, the only one on its channel, promises: data for READ
    SECTORS, to the master, by block address, within the disk, with the registers written while it is neither
    busy nor in a transfer and each sector taken after its DRQ; nothing after any other access, and each
    answer within the 100000 polls of the driver. \<open>counting_drive\<close> is a drive that satisfies it.
    Initrd_Fs: modules/sys/fs/initrd_fs. Block_Device: the locale \<open>block_device\<close>, what the file
    system asks of a driver, and what it then promises. Initrd_Props: the three versions of the driver as
    interpretations, and a read from the registry down to the disk. Module_Info: the module structures
    and the storage interface of the driver as static data.
  \<^item> Drivers: the keyboard, timer, VGA and terminal modules, modules/module_stubs.c, the spin locks of
    include/kernel/scheduler.h. Spinlock: several processors at one lock, as a step relation.
  \<^item> External: modules/sys/init, the test module and the static tables of fs.c. Self_Tests,
    Self_Tests_Props: the tests of modules/tests, run on the components they test.
  \<^item> Os_Builder: tools/os-builder.c, the program that packs the ram disk.
  \<^item> C_Layout: the layout of C structures on the i386, with lemmas for all structures. Layouts: the
    structures of the headers, the boot loader's and those of interfaces without code among them.
    Layout_Props: the accessors of all other theories as accesses to their members, and where two headers
    disagree.

  \<^bold>\<open>How the parts rest on each other.\<close> IPC, sandboxes, registry and ELF loader are clients of the
  heap and reason from the contract of the locale \<open>allocator\<close> only: every client owns regions, a request
  adds one that overlaps no other, a write into one's own region disturbs nobody. The IPC queues and the list
  of modules reason from the locale \<open>node_queue\<close>'s rings. The file system reasons from
  \<open>block_device\<close> and the association list of the registry. Whether the heap grants a request is
  \<open>heap_grants\<close> (Mm_Contract), by which the clients say exactly when they fail. The start of the kernel composes descriptors,
  interrupts and heap.

  \<^bold>\<open>What the lemmas show.\<close> For the heap: it is well formed from \<open>mm_init\<close> on, a block handed out is
  aligned, large enough and disjoint from the others, no operation changes the bytes of blocks in use, and
  releasing takes back exactly the block; and where that ends: sizes that wrap, forged pointers, double
  releases, fragmentation, a machine with too little memory. For IPC: delivery in order and exactly once to
  process 0. For sandboxes: every operation, permission checks and system calls included, refines the table, and
  memory is disjoint. For the
  three services together: no request of one disturbs another. For interrupts:
  controllers, gates and dispatch are as specified, and which vectors have no gate. For the console: printing
  returns exactly when the port becomes ready. For the terminal, the registry and the modules: refinement.
  For the libraries: what \<open>memcpy\<close> does to regions that overlap, the string functions on all strings, lists
  under any sequence of operations. For the spin locks: why test and set must be one step.
  For the driver and the file system: the bytes delivered are those of the disk. For the assembler: the
  routines do what the operations that call them assume, the entry point passes the wrong argument, two
  exceptions are skipped over and the others never come to an end. For the tests: those of the heap pass,
  that of the file system fails. For the structures: every offset of the model is that of the C member. A theorem that states a
  defect of the code says so in the text before it.

  \<^bold>\<open>Bounds.\<close> The polls of the disk driver have the code's bound of 100000 steps and the loops over
  sectors, gates, lines and cells run by their counters, so they need no fuel. The ELF loader reads
  the number of headers, 16 bits, again in every round, which its termination proof uses. Unbounded loops
  (\<open>kmalloc\<close>'s search, \<open>kfree\<close>'s merging, lists, C strings, waiting for the serial port) are partial
  functions.

  \<^bold>\<open>Not modelled.\<close> The registration functions of initrd_fs_improved.c and
  initrd_fs_module_simple.c, which assign to an array and do not compile. Functions that a header declares
  and no file defines: those of the performance manager, of include/kernel/loader.h and of
  kernel/include/kernel/modules/manager.h, of which only the structures are here. The processor has privilege
  level 0 and no paging, and its code is not part of the memory it writes to; what it pushes when an exception
  is nested in another is followed until the stack pointer leaves the stack. Interrupts do not preempt the operations of the
  other theories: \<open>kernel_main\<close> leaves every line masked, and where it enables interrupts too early,
  what an interrupt would find there is stated separately.
\<close>

section \<open>The start of the kernel\<close>

text \<open>C20. When the serial port becomes ready after every history, \<open>kernel_main\<close> runs through and halts.
  When the boot loader reports memory beyond the kernel the heap is then well formed with nothing in
  use, the processor has a null descriptor and two flat segments, exactly the five exceptions have gates,
  both interrupt controllers are in operation at the vectors 32 and 40 with every line masked, all
  sixteen lines have the default handler, and the serial port has transmitted, after the divisor of its
  baud rate, exactly the messages of the start. When the port does not become ready once it is set
  up, \<open>kernel_main\<close> hangs in its first message.\<close>

theorem kernel_main_starts:
  fixes s :: "'a interrupt_state_scheme"
  assumes "length (gdt_entries s) = 3" "length (idt_entries s) = 256" "length (irq_handlers s) = 16"
    "heap_base (at_end a) \<noteq> NULL" "heap_base (at_end a) < available_memory (mem s) mbi"
  shows "((\<forall>h. becomes_ready dev h) \<longrightarrow> (\<exists>t. kernel_main dev a mbi s = Some (Halted t) \<and> heap_owns t {}
      \<and> descriptor t 0 = 0 \<and> flat_segment 0x9A (descriptor t 1) \<and> flat_segment 0x92 (descriptor t 2)
      \<and> (\<forall>v < 256. gate_present (gate t v) \<longleftrightarrow> v \<in> {0, 6, 8, 13, 14})
      \<and> pic_after PIC1_COMMAND c (io t)
          = (pic_after PIC1_COMMAND c (io s))\<lparr>phase := Operating, vector_base := 0x20, imr := 0xFF\<rparr>
      \<and> pic_after PIC2_COMMAND d (io t)
          = (pic_after PIC2_COMMAND d (io s))\<lparr>phase := Operating, vector_base := 0x28, imr := 0xFF\<rparr>
      \<and> (\<forall>n < 16. irq_handlers t ! n = Some Default_irq_handler)
      \<and> transmitted (io t)
          = transmitted (io s) @ 3 # crlf (concat (map ascii (boot_messages (mem s) a mbi)))))
    \<and> (\<not> becomes_ready dev (io s @ serial_setup) \<longrightarrow> kernel_main dev a mbi s = None)"
proof (intro conjI impI kernel_main_silent)
  assume ready: "\<forall>h. becomes_ready dev h"
  let ?i = "interrupts_trace dev a s"
  let ?h = "said_all dev (interrupts_history dev (io s)) (start_messages (mem s) a mbi)"
  obtain l where k: "kernel_main dev a mbi s = Some (Halted ((heap_trace dev a mbi s)\<lparr>klog := l, io := ?h\<rparr>))"
    using kernel_main_ready [OF ready] by blast
  define t where "t = (heap_trace dev a mbi s)\<lparr>klog := l, io := ?h\<rparr>"
  have t: "gdt_entries t = gdt_entries ?i" "idt_entries t = idt_entries ?i" "irq_handlers t = irq_handlers ?i"
    "io t = ?h" "heap_owns t {} = heap_owns (mm_init (at_end a) mbi ?i) {}"
    by (simp_all add: t_def heap_trace_def heap_owns_def heap_ok_def stats_ok_def)
  have "heap_base (at_end a) < available_memory (mem ?i) mbi"
    using assms(5) by (simp add: interrupts_trace_fields)
  note heap = mm_init_heap_ok [OF assms(4) this]
  then have "heap_owns t {}"
    unfolding t(5) unfolding heap_owns_def
    by (intro exI [of _ "[Blk (unat (chosen_heap_size (mem ?i) (at_end a) mbi) - 16) True]"]) simp
  moreover note tables = started_tables [OF assms(1,2) t(1,2)]
  moreover have "gate_present (gate t v) \<longleftrightarrow> v \<in> {0, 6, 8, 13, 14}" if "v < 256" for v
    using tables(4) [OF that] isr_entry_gate(4) [of _ 8 "0x8E"] null_gate by simp
  moreover have "pic_after PIC1_COMMAND c (io t)
      = (pic_after PIC1_COMMAND c (io s))\<lparr>phase := Operating, vector_base := 0x20, imr := 0xFF\<rparr>"
    "pic_after PIC2_COMMAND d (io t)
      = (pic_after PIC2_COMMAND d (io s))\<lparr>phase := Operating, vector_base := 0x28, imr := 0xFF\<rparr>"
    by (simp_all add: t(4) interrupts_history_def early_history_def idt_history_def remapped_def)
  moreover have "irq_handlers t ! n = Some Default_irq_handler" if "n < 16" for n
    using that assms(3) by (simp add: t(3) interrupts_trace_fields irq_default_loop_nth)
  moreover have "transmitted (io t)
      = transmitted (io s) @ 3 # crlf (concat (map ascii (boot_messages (mem s) a mbi)))"
    unfolding t(4) by (rule boot_transmitted)
  ultimately show "\<exists>t. kernel_main dev a mbi s = Some (Halted t) \<and> heap_owns t {}
      \<and> descriptor t 0 = 0 \<and> flat_segment 0x9A (descriptor t 1) \<and> flat_segment 0x92 (descriptor t 2)
      \<and> (\<forall>v < 256. gate_present (gate t v) \<longleftrightarrow> v \<in> {0, 6, 8, 13, 14})
      \<and> pic_after PIC1_COMMAND c (io t)
          = (pic_after PIC1_COMMAND c (io s))\<lparr>phase := Operating, vector_base := 0x20, imr := 0xFF\<rparr>
      \<and> pic_after PIC2_COMMAND d (io t)
          = (pic_after PIC2_COMMAND d (io s))\<lparr>phase := Operating, vector_base := 0x28, imr := 0xFF\<rparr>
      \<and> (\<forall>n < 16. irq_handlers t ! n = Some Default_irq_handler)
      \<and> transmitted (io t)
          = transmitted (io s) @ 3 # crlf (concat (map ascii (boot_messages (mem s) a mbi)))"
    using k [folded t_def] by (intro exI [of _ t] conjI allI impI) simp_all
qed

theorem kernel_main_starts_witness:
  "(\<exists>t. kernel_main (\<lambda>_ _. 0x20) start_layout 0x9000 no_interrupts = Some (Halted t) \<and> heap_owns t {}
      \<and> vector_base (pic_after PIC1_COMMAND (chip_with_mask 0) (io t)) = 0x20
      \<and> imr (pic_after PIC1_COMMAND (chip_with_mask 0) (io t)) = 0xFF
      \<and> take 3 (transmitted (io t)) = [3, 0x53, 0x76])
   \<and> kernel_main (\<lambda>_ _. 0) start_layout 0x9000 no_interrupts = None"
proof
  have "heap_base (at_end start_layout) \<noteq> NULL" "heap_base (at_end start_layout) < available_memory (mem no_interrupts) 0x9000"
    by (simp_all add: heap_base_def start_layout_def available_memory_def mb_flags_def no_interrupts_fields load32_def)
  note starts = kernel_main_starts [OF no_interrupts_fields(1-3) this]
  have first: "take 3 (3 # crlf (concat (map ascii (boot_messages m a mbi)))) = [3, 0x53, 0x76]" for m a mbi
    by (simp add: boot_messages_def ascii_def numeral_3_eq_3)
  have "transmitted (io no_interrupts) = []"
    by (simp add: no_interrupts_fields)
  with starts [of "\<lambda>_ _. 0x20" "chip_with_mask 0" "chip_with_mask 0"] always_on first
  show "\<exists>t. kernel_main (\<lambda>_ _. 0x20) start_layout 0x9000 no_interrupts = Some (Halted t) \<and> heap_owns t {}
      \<and> vector_base (pic_after PIC1_COMMAND (chip_with_mask 0) (io t)) = 0x20
      \<and> imr (pic_after PIC1_COMMAND (chip_with_mask 0) (io t)) = 0xFF
      \<and> take 3 (transmitted (io t)) = [3, 0x53, 0x76]"
    by auto
  have "\<not> becomes_ready (\<lambda>_ _. 0) (io no_interrupts @ serial_setup)"
    by (simp add: becomes_ready_def status_def)
  with starts [of "\<lambda>_ _. 0"] show "kernel_main (\<lambda>_ _. 0) start_layout 0x9000 no_interrupts = None"
    by blast
qed

text \<open>C21. \<open>kernel_main\<close> enables interrupts too early. In the history of port accesses of a start that runs
  through there is a point where \<open>idt_init\<close> enables them and the interrupt controllers are still
  exactly as the firmware left them. When it left them at its usual vectors, 8 to 15 for the master and
  0x70 to 0x77 for the slave, then on the tables of the start the lines 0, 5 and 6 of the master lead
  to the routines of the double fault, the general protection fault and the page fault, and no other
  line of either controller has a gate.\<close>

theorem interrupts_enabled_early:
  fixes s :: "'a interrupt_state_scheme"
  assumes "length (gdt_entries s) = 3" "length (idt_entries s) = 256" "\<forall>h. becomes_ready dev h"
  shows "\<exists>t h h'. kernel_main dev a mbi s = Some (Halted t) \<and> io t = h @ Sti # h'
    \<and> pic_after PIC1_COMMAND c h = pic_after PIC1_COMMAND c (io s)
    \<and> pic_after PIC2_COMMAND d h = pic_after PIC2_COMMAND d (io s)
    \<and> (vector_base (pic_after PIC1_COMMAND c (io s)) = 8 \<longrightarrow> (\<forall>n < 8.
        (gate_present (gate t (line_vector (pic_after PIC1_COMMAND c h) n)) \<longleftrightarrow> n \<in> {0, 5, 6})
        \<and> (n \<in> {0, 5, 6} \<longrightarrow> gate_offset (gate t (line_vector (pic_after PIC1_COMMAND c h) n)) = at_isr a (8 + n))))
    \<and> (vector_base (pic_after PIC2_COMMAND d (io s)) = 0x70 \<longrightarrow> (\<forall>n < 8.
        \<not> gate_present (gate t (line_vector (pic_after PIC2_COMMAND d h) n))))"
proof -
  let ?i = "interrupts_trace dev a s"
  let ?h = "said_all dev (interrupts_history dev (io s)) (start_messages (mem s) a mbi)"
  obtain l where k: "kernel_main dev a mbi s = Some (Halted ((heap_trace dev a mbi s)\<lparr>klog := l, io := ?h\<rparr>))"
    using kernel_main_ready [OF assms(3)] by blast
  define t where "t = (heap_trace dev a mbi s)\<lparr>klog := l, io := ?h\<rparr>"
  have t: "gdt_entries t = gdt_entries ?i" "idt_entries t = idt_entries ?i" "io t = ?h"
    by (simp_all add: t_def heap_trace_def)
  let ?e = "early_history dev (io s)"
  obtain h' where io: "io t = ?e @ Sti # h'"
    using start_history_early [of dev "io s" "mem s" a mbi] by (auto simp: t(3))
  have pic: "pic_after PIC1_COMMAND c ?e = pic_after PIC1_COMMAND c (io s)"
    "pic_after PIC2_COMMAND d ?e = pic_after PIC2_COMMAND d (io s)"
    by (simp_all add: early_history_def idt_history_def)
  have gates: "gate_present (gate t v) \<longleftrightarrow> v \<in> {0, 6, 8, 13, 14}"
      "v \<in> {0, 6, 8, 13, 14} \<Longrightarrow> gate_offset (gate t v) = at_isr a v" if "v < 256" for v
    using started_tables(4) [OF assms(1,2) t(1,2) that] isr_entry_gate [of "at_isr a v" 8 "0x8E"] null_gate by simp_all
  have master: "(gate_present (gate t (line_vector (pic_after PIC1_COMMAND c ?e) n)) \<longleftrightarrow> n \<in> {0, 5, 6})
      \<and> (n \<in> {0, 5, 6} \<longrightarrow> gate_offset (gate t (line_vector (pic_after PIC1_COMMAND c ?e) n)) = at_isr a (8 + n))"
    if "vector_base (pic_after PIC1_COMMAND c (io s)) = 8" "n < 8" for n
  proof -
    have "line_vector (pic_after PIC1_COMMAND c ?e) n = 8 + n"
      using that(1) by (simp add: line_vector_def pic)
    moreover have "8 + n \<in> {0, 6, 8, 13, 14} \<longleftrightarrow> n \<in> {0, 5, 6}"
      by auto
    ultimately show ?thesis
      using gates [of "8 + n"] that(2) by simp
  qed
  have slave: "\<not> gate_present (gate t (line_vector (pic_after PIC2_COMMAND d ?e) n))"
    if "vector_base (pic_after PIC2_COMMAND d (io s)) = 0x70" "n < 8" for n
  proof -
    have "line_vector (pic_after PIC2_COMMAND d ?e) n = 0x70 + n"
      using that(1) by (simp add: line_vector_def pic)
    then show ?thesis
      using gates(1) [of "0x70 + n"] that(2) by simp
  qed
  show ?thesis
    using k [folded t_def] io pic master slave
    by (intro exI [of _ t] exI [of _ ?e] exI [of _ h']) blast
qed

theorem interrupts_enabled_early_witness:
  "\<exists>t h h'. kernel_main (\<lambda>_ _. 0x20) start_layout 0x9000 no_interrupts = Some (Halted t) \<and> io t = h @ Sti # h'
    \<and> line_vector (pic_after PIC1_COMMAND ((chip_with_mask 0)\<lparr>vector_base := 8\<rparr>) h) 0 = 8
    \<and> gate_offset (gate t 8) = 0x100100 \<and> \<not> gate_present (gate t 0x70)"
proof -
  let ?c = "(chip_with_mask 0)\<lparr>vector_base := 8\<rparr>" and ?d = "(chip_with_mask 0)\<lparr>vector_base := 0x70\<rparr>"
  obtain t h h' where k: "kernel_main (\<lambda>_ _. 0x20) start_layout 0x9000 no_interrupts = Some (Halted t)"
    "io t = h @ Sti # h'" and pic: "pic_after PIC1_COMMAND ?c h = ?c" "pic_after PIC2_COMMAND ?d h = ?d"
    and m: "\<forall>n < 8. (gate_present (gate t (line_vector ?c n)) \<longleftrightarrow> n \<in> {0, 5, 6})
        \<and> (n \<in> {0, 5, 6} \<longrightarrow> gate_offset (gate t (line_vector ?c n)) = at_isr start_layout (8 + n))"
    and sl: "\<forall>n < 8. \<not> gate_present (gate t (line_vector ?d n))"
    using interrupts_enabled_early [OF no_interrupts_fields(1,2) always_on, of start_layout "0x9000" ?c ?d]
    by (auto simp: no_interrupts_fields)
  have v: "line_vector ?c 0 = 8" "line_vector ?d 0 = 0x70"
    by (simp_all add: line_vector_def)
  have "gate_offset (gate t 8) = 0x100100"
    using m [rule_format, of 0] v(1) by (simp add: start_layout_def)
  moreover have "\<not> gate_present (gate t 0x70)"
    using sl [rule_format, of 0] v(2) by simp
  ultimately show ?thesis
    using k pic(1) v(1) by (intro exI [of _ t] exI [of _ h] exI [of _ h']) simp
qed

end
